(* ===== verification/Prelude.thy ===== *)
theory Prelude
  imports Main "HOL-Library.Word"
begin

text \<open>
  Shared vocabulary of the development: the machine types the Rust sources use, the
  error type of the stateful precompiles, sequencing of fallible steps, the checked and
  saturating operations of the Rust standard library, and generic lemmas on words, sums
  over mappings and lists.

  Integers keep their width. \<open>u8\<close>, \<open>u32\<close>, \<open>u64\<close> are Rust's primitive integers, whose
  operators wrap in the release profile (the workspace does not turn overflow checks on);
  \<open>u256\<close> is alloy's \<open>U256\<close>, whose operators wrap as documented. A \<open>B256\<close> is its list of
  32 bytes, an address is a 160-bit word.
\<close>

unbundle bit_operations_syntax

section \<open>Types\<close>

type_synonym u8 = "8 word"
type_synonym u16 = "16 word"
type_synonym u32 = "32 word"
type_synonym u64 = "64 word"
type_synonym u128 = "128 word"
type_synonym u256 = "256 word"
type_synonym address = "160 word"
type_synonym bytes = "u8 list"
type_synonym b256 = "u8 list"

definition B256_ZERO :: b256 where
  "B256_ZERO = replicate 32 0"

lemma length_B256_ZERO [simp]: "length B256_ZERO = 32"
  by (simp add: B256_ZERO_def)

text \<open>
  \<open>PrecompileError\<close>. Messages built with \<open>format!\<close> keep their fixed text; the
  interpolated values are left out. \<open>NonTermination\<close> is not a value of the Rust type: it
  stands for a loop that does not return.
\<close>

datatype precompile_error =
    OutOfGas
  | Storage string
  | WriteProtection
  | Revert string
  | RevertBytes bytes
  | SubCall string
  | Unsupported
  | Fatal string
  | NonTermination

type_synonym 'a result = "precompile_error + 'a"

section \<open>Proof automation\<close>

named_theorems word_nat \<open>reading word arithmetic in nat\<close>
named_theorems res_simps \<open>rewriting of sequenced results\<close>

section \<open>Sequencing of fallible steps\<close>

text \<open>The \<open>?\<close> operator: continue with the value, or return the error.\<close>

definition and_then :: "'e + 'a \<Rightarrow> ('a \<Rightarrow> 'e + 'b) \<Rightarrow> 'e + 'b" where
  "and_then r k = (case r of Inl e \<Rightarrow> Inl e | Inr x \<Rightarrow> k x)"

lemma and_then_simps [simp, res_simps]:
  "and_then (Inl e) k = Inl e"
  "and_then (Inr x) k = k x"
  by (simp_all add: and_then_def)

lemma and_then_eq_Inr [res_simps]:
  "and_then r k = Inr y \<longleftrightarrow> (\<exists>x. r = Inr x \<and> k x = Inr y)"
  by (cases r) simp_all

lemma and_then_eq_Inl [res_simps]:
  "and_then r k = Inl e \<longleftrightarrow> r = Inl e \<or> (\<exists>x. r = Inr x \<and> k x = Inl e)"
  by (cases r) simp_all

lemma if_Inl_eq_Inr [simp]:
  "(if b then Inl e else r) = Inr y \<longleftrightarrow> \<not> b \<and> r = Inr y"
  by simp

text \<open>A \<open>for\<close> loop whose body may fail: the first error ends it.\<close>

fun fold_res :: "('a \<Rightarrow> 's \<Rightarrow> 'e + 's) \<Rightarrow> 'a list \<Rightarrow> 's \<Rightarrow> 'e + 's" where
  "fold_res f [] s = Inr s"
| "fold_res f (x # xs) s = and_then (f x s) (fold_res f xs)"

lemma fold_res_append:
  "fold_res f (xs @ ys) s = and_then (fold_res f xs s) (fold_res f ys)"
proof (induction xs arbitrary: s)
  case (Cons x xs)
  then show ?case by (cases "f x s") simp_all
qed simp

lemma fold_res_invariant:
  assumes "fold_res f xs s = Inr t" and "P s"
    and "\<And>x s t. x \<in> set xs \<Longrightarrow> P s \<Longrightarrow> f x s = Inr t \<Longrightarrow> P t"
  shows "P t"
  using assms
proof (induction xs arbitrary: s)
  case (Cons x xs)
  from Cons.prems(1) obtain u where u: "f x s = Inr u" "fold_res f xs u = Inr t"
    by (auto simp: and_then_eq_Inr)
  have "P u" using Cons.prems(2) u(1) by (rule Cons.prems(3) [OF list.set_intros(1)])
  with u(2) show ?case
    by (rule Cons.IH) (blast intro: Cons.prems(3) list.set_intros(2))
qed simp

lemma fold_res_succeeds:
  assumes "P s"
    and "\<And>x s. x \<in> set xs \<Longrightarrow> P s \<Longrightarrow> \<exists>t. f x s = Inr t \<and> P t"
  shows "\<exists>t. fold_res f xs s = Inr t \<and> P t"
  using assms
proof (induction xs arbitrary: s)
  case (Cons x xs)
  from Cons.prems obtain u where "f x s = Inr u" "P u" by (meson list.set_intros(1))
  with Cons.IH [of u] Cons.prems(2) show ?case by simp
qed simp

section \<open>Checked and saturating arithmetic\<close>

definition checked_add :: "'n::len word \<Rightarrow> 'n word \<Rightarrow> 'n word option" where
  "checked_add a b = (if unat a + unat b < 2 ^ LENGTH('n) then Some (a + b) else None)"

definition checked_sub :: "'n::len word \<Rightarrow> 'n word \<Rightarrow> 'n word option" where
  "checked_sub a b = (if b \<le> a then Some (a - b) else None)"

definition checked_mul :: "'n::len word \<Rightarrow> 'n word \<Rightarrow> 'n word option" where
  "checked_mul a b = (if unat a * unat b < 2 ^ LENGTH('n) then Some (a * b) else None)"

definition saturating_add :: "'n::len word \<Rightarrow> 'n word \<Rightarrow> 'n word" where
  "saturating_add a b = (if unat a + unat b < 2 ^ LENGTH('n) then a + b else - 1)"

definition saturating_sub :: "'n::len word \<Rightarrow> 'n word \<Rightarrow> 'n word" where
  "saturating_sub a b = (if b \<le> a then a - b else 0)"

lemma unat_lt_2p [simp, intro]: "unat (a :: 'n::len word) < 2 ^ LENGTH('n)"
  by transfer (simp add: take_bit_eq_mod nat_less_iff)

lemma unat_ucast_up [simp]:
  "LENGTH('a::len) \<le> LENGTH('b::len) \<Longrightarrow> unat (ucast (w :: 'a word) :: 'b word) = unat w"
  by transfer (simp add: take_bit_take_bit min_absorb2)

lemma unat_neg_one: "unat (- 1 :: 'n::len word) = 2 ^ LENGTH('n) - 1"
  by transfer (simp add: take_bit_minus_one_eq_mask mask_eq_exp_minus_1 nat_diff_distrib nat_power_eq)

lemma unat_add_exact [word_nat]:
  "unat a + unat b < 2 ^ LENGTH('n) \<Longrightarrow> unat (a + b :: 'n::len word) = unat a + unat b"
  by (simp add: unat_word_ariths)

lemma unat_mult_exact [word_nat]:
  "unat a * unat b < 2 ^ LENGTH('n) \<Longrightarrow> unat (a * b :: 'n::len word) = unat a * unat b"
  by (simp add: unat_word_ariths)

lemma unat_sub_exact [word_nat]:
  "b \<le> a \<Longrightarrow> unat (a - b :: 'n::len word) = unat a - unat b"
  by (rule unat_sub)

lemma checked_add_Some [word_nat]:
  "checked_add a b = Some c \<Longrightarrow> unat c = unat a + unat b"
  by (auto simp: checked_add_def unat_add_exact split: if_splits)

lemma checked_mul_Some [word_nat]:
  "checked_mul a b = Some c \<Longrightarrow> unat c = unat a * unat b"
  by (auto simp: checked_mul_def unat_mult_exact split: if_splits)

lemma checked_sub_Some [word_nat]:
  "checked_sub a b = Some c \<Longrightarrow> unat c = unat a - unat b \<and> b \<le> a"
  by (auto simp: checked_sub_def unat_sub_exact split: if_splits)

lemma unat_saturating_add [word_nat]:
  "unat (saturating_add a b :: 'n::len word) = min (unat a + unat b) (2 ^ LENGTH('n) - 1)"
proof (cases "unat a + unat b < 2 ^ LENGTH('n)")
  case True
  then show ?thesis by (simp add: saturating_add_def unat_add_exact)
next
  case False
  then show ?thesis by (simp add: saturating_add_def unat_neg_one)
qed

lemma unat_saturating_sub [word_nat]:
  "unat (saturating_sub a b) = unat a - unat b"
  by (auto simp: saturating_sub_def unat_sub_exact word_le_nat_alt)

section \<open>Sums over total mappings\<close>

text \<open>
  Solidity mappings are total: a key never written reads as zero. Keys are words, so the
  sum over all keys is a finite sum.
\<close>

lemma sum_fun_upd_add:
  fixes f :: "'k::finite \<Rightarrow> 'v::comm_monoid_add"
  shows "(\<Sum>x\<in>UNIV. (f(a := v)) x) + f a = (\<Sum>x\<in>UNIV. f x) + v"
proof -
  have "(\<Sum>x\<in>UNIV. (f(a := v)) x) = v + (\<Sum>x\<in>UNIV - {a}. f x)"
    by (subst sum.remove [of UNIV a]) (auto intro!: sum.cong)
  moreover have "(\<Sum>x\<in>UNIV. f x) = f a + (\<Sum>x\<in>UNIV - {a}. f x)"
    by (subst sum.remove [of UNIV a]) auto
  ultimately show ?thesis by (simp add: ac_simps)
qed

lemma sum_unat_fun_upd:
  fixes f :: "'k::finite \<Rightarrow> 'n::len word"
  shows "(\<Sum>x\<in>UNIV. unat ((f(a := v)) x)) + unat (f a) = (\<Sum>x\<in>UNIV. unat (f x)) + unat v"
proof -
  have "(\<lambda>x. unat ((f(a := v)) x)) = (\<lambda>x. unat (f x))(a := unat v)"
    by (auto simp: fun_eq_iff)
  then show ?thesis using sum_fun_upd_add [of "\<lambda>x. unat (f x)" a "unat v"]
    by presburger
qed

lemma member_le_sum_UNIV:
  fixes f :: "'k::finite \<Rightarrow> nat"
  shows "f a \<le> (\<Sum>x\<in>UNIV. f x)"
  by (rule member_le_sum) auto

end
