(* ===== verification/Byte_Codec.thy ===== *)
theory Byte_Codec
  imports Prelude "HOL-Library.List_Lexorder" "HOL-Library.Product_Lexorder"
begin

text \<open>
  Big-endian byte encodings of fixed-width integers (Rust's \<open>to_be_bytes\<close> and
  \<open>from_be_bytes\<close>) and cursors over byte slices, shared by the wire formats. Byte slices and
  pairs compare lexicographically, as Rust's \<open>Ord\<close> does.
\<close>

section \<open>Big-endian integers\<close>

definition to_be_bytes :: "nat \<Rightarrow> 'n::len word \<Rightarrow> bytes" where
  "to_be_bytes n w = map (\<lambda>i. ucast (drop_bit (8 * i) w)) (rev [0..<n])"

definition from_be_bytes :: "bytes \<Rightarrow> 'n::len word" where
  "from_be_bytes bs = foldl (\<lambda>acc b. push_bit 8 acc OR ucast b) 0 bs"

lemma length_to_be_bytes [simp]: "length (to_be_bytes n w) = n"
  by (simp add: to_be_bytes_def)

lemma to_be_bytes_Suc:
  "to_be_bytes (Suc n) w = to_be_bytes n (drop_bit 8 w) @ [ucast w]"
proof -
  have "rev [0..<Suc n] = map Suc (rev [0..<n]) @ [0]"
    by (simp add: upt_conv_Cons flip: map_Suc_upt rev_map del: upt_Suc)
  then show ?thesis
    by (simp add: to_be_bytes_def ac_simps)
qed

lemma from_be_bytes_append1:
  "from_be_bytes (bs @ [b]) = push_bit 8 (from_be_bytes bs) OR ucast b"
  by (simp add: from_be_bytes_def)

lemma byte_join:
  fixes w :: "'n::len word"
  shows "push_bit 8 (take_bit k (drop_bit 8 w)) OR ucast (ucast w :: u8) = take_bit (8 + k) w"
  by (rule bit_word_eqI) (auto simp: bit_simps)

lemma from_to_be_bytes_take:
  "from_be_bytes (to_be_bytes n w) = take_bit (8 * n) (w :: 'n::len word)"
proof (induction n arbitrary: w)
  case 0
  then show ?case by (simp add: to_be_bytes_def from_be_bytes_def)
next
  case (Suc n)
  show ?case
    by (simp add: to_be_bytes_Suc from_be_bytes_append1 Suc.IH byte_join)
qed

lemma from_to_be_bytes [simp]:
  "LENGTH('n) \<le> 8 * n \<Longrightarrow> from_be_bytes (to_be_bytes n w) = (w :: 'n::len word)"
  by (simp add: from_to_be_bytes_take take_bit_word_eq_self)

lemma byte_split:
  fixes acc :: "'n::len word"
  assumes "8 \<le> LENGTH('n)"
  shows "ucast (push_bit 8 acc OR ucast (b :: u8)) = b"
  using assms by (intro bit_word_eqI) (auto simp: bit_simps)

lemma byte_tail:
  fixes acc :: "'n::len word"
  assumes "8 + k \<le> LENGTH('n)"
  shows "take_bit k (drop_bit 8 (push_bit 8 acc OR ucast (b :: u8))) = take_bit k acc"
  using assms by (intro bit_word_eqI) (auto simp: bit_simps dest: bit_imp_le_length)

lemma to_be_bytes_take_cong:
  fixes v w :: "'n::len word"
  assumes "take_bit (8 * n) v = take_bit (8 * n) w"
  shows "to_be_bytes n v = to_be_bytes n w"
proof -
  have "ucast (drop_bit (8 * i) v) = (ucast (drop_bit (8 * i) w) :: u8)" if "i < n" for i
  proof (rule bit_word_eqI)
    fix k assume "k < LENGTH(8)"
    with that have "8 * i + k < 8 * n" by simp
    with assms have "bit v (8 * i + k) = bit w (8 * i + k)"
      by (metis bit_take_bit_iff)
    then show "bit (ucast (drop_bit (8 * i) v) :: u8) k = bit (ucast (drop_bit (8 * i) w) :: u8) k"
      by (simp add: bit_simps)
  qed
  then show ?thesis by (auto simp: to_be_bytes_def)
qed

lemma to_from_be_bytes:
  assumes "8 * length bs \<le> LENGTH('n)"
  shows "to_be_bytes (length bs) (from_be_bytes bs :: 'n::len word) = bs"
  using assms
proof (induction bs rule: rev_induct)
  case Nil
  then show ?case by (simp add: to_be_bytes_def)
next
  case (snoc b bs)
  let ?acc = "from_be_bytes bs :: 'n word"
  from snoc.prems have len: "8 + 8 * length bs \<le> LENGTH('n)" by simp
  have "to_be_bytes (length bs) (drop_bit 8 (push_bit 8 ?acc OR ucast b)) = to_be_bytes (length bs) ?acc"
    by (rule to_be_bytes_take_cong) (rule byte_tail [OF len])
  with snoc len show ?case
    by (simp add: to_be_bytes_Suc from_be_bytes_append1 byte_split)
qed

lemma to_be_bytes_eq:
  "LENGTH('n) \<le> 8 * n \<Longrightarrow> to_be_bytes n v = to_be_bytes n w \<longleftrightarrow> v = (w :: 'n::len word)"
  using from_to_be_bytes by metis

section \<open>Cursors\<close>

text \<open>
  A cursor over a slice is the bytes not read yet. \<open>read_exact\<close> takes a prefix, or fails
  with the error the caller gives for a short slice.
\<close>

definition read_exact :: "'e \<Rightarrow> nat \<Rightarrow> bytes \<Rightarrow> 'e + (bytes \<times> bytes)" where
  "read_exact e n bs = (if length bs < n then Inl e else Inr (take n bs, drop n bs))"

definition read_u8 :: "'e \<Rightarrow> bytes \<Rightarrow> 'e + (u8 \<times> bytes)" where
  "read_u8 e bs = (case bs of [] \<Rightarrow> Inl e | b # bs' \<Rightarrow> Inr (b, bs'))"

definition read_be :: "'e \<Rightarrow> nat \<Rightarrow> bytes \<Rightarrow> 'e + ('n::len word \<times> bytes)" where
  "read_be e n bs = and_then (read_exact e n bs) (\<lambda>(x, rest). Inr (from_be_bytes x, rest))"

lemma read_exact_append [simp]:
  "length x = n \<Longrightarrow> read_exact e n (x @ rest) = Inr (x, rest)"
  by (simp add: read_exact_def)

lemma read_exact_Inr:
  "read_exact e n bs = Inr (x, rest) \<Longrightarrow> bs = x @ rest \<and> length x = n"
  by (auto simp: read_exact_def split: if_splits)

lemma read_u8_Cons [simp]: "read_u8 e (b # bs) = Inr (b, bs)"
  by (simp add: read_u8_def)

lemma read_u8_Inr: "read_u8 e bs = Inr (b, rest) \<Longrightarrow> bs = b # rest"
  by (auto simp: read_u8_def split: list.splits)

lemma read_be_append [simp]:
  "LENGTH('n) \<le> 8 * n \<Longrightarrow> read_be e n (to_be_bytes n (w :: 'n::len word) @ rest) = Inr (w, rest)"
  by (simp add: read_be_def)

lemma read_be_Inr:
  assumes "read_be e n bs = Inr (w :: 'n::len word, rest)" and "8 * n \<le> LENGTH('n)"
  shows "bs = to_be_bytes n w @ rest"
proof -
  from assms(1) obtain x where x: "read_exact e n bs = Inr (x, rest)" "w = from_be_bytes x"
    by (auto simp: read_be_def and_then_eq_Inr)
  with assms(2) show ?thesis
    by (auto dest!: read_exact_Inr simp: to_from_be_bytes)
qed

lemma unat_word_of_nat_exact:
  "n < 2 ^ LENGTH('n) \<Longrightarrow> unat (word_of_nat n :: 'n::len word) = n"
  by (simp add: unat_of_nat)

section \<open>Counted sequences\<close>

text \<open>
  A codec: an encoder and a cursor-passing decoder that accept exactly the same values. The
  laws lift to a counted sequence of elements.
\<close>

fun read_n :: "(bytes \<Rightarrow> 'e + ('a \<times> bytes)) \<Rightarrow> nat \<Rightarrow> bytes \<Rightarrow> 'e + ('a list \<times> bytes)" where
  "read_n rd 0 bs = Inr ([], bs)"
| "read_n rd (Suc n) bs =
     and_then (rd bs) (\<lambda>(x, bs). and_then (read_n rd n bs) (\<lambda>(xs, bs). Inr (x # xs, bs)))"

locale codec =
  fixes enc :: "'a \<Rightarrow> bytes" and dec :: "bytes \<Rightarrow> 'e + ('a \<times> bytes)" and ok :: "'a \<Rightarrow> bool"
  assumes dec_enc: "ok x \<Longrightarrow> dec (enc x @ rest) = Inr (x, rest)"
    and dec_canonical: "dec bs = Inr (x, rest) \<Longrightarrow> ok x \<and> bs = enc x @ rest"
begin

lemma read_n_enc:
  "\<forall>x\<in>set xs. ok x \<Longrightarrow> read_n dec (length xs) (concat (map enc xs) @ rest) = Inr (xs, rest)"
  by (induction xs) (simp_all add: dec_enc)

lemma read_n_canonical:
  "read_n dec n bs = Inr (xs, rest) \<Longrightarrow>
     length xs = n \<and> (\<forall>x\<in>set xs. ok x) \<and> bs = concat (map enc xs) @ rest"
proof (induction n arbitrary: bs xs)
  case (Suc n)
  then show ?case by (fastforce simp: and_then_eq_Inr dest!: dec_canonical)
qed simp

end

end
