(* ===== verification/P2p_Address.thy ===== *)
theory P2p_Address
  imports Byte_Codec
begin

text \<open>
  The versioned peer-to-peer address payload validators register
  (\<^verbatim>\<open>crates/blockchain/primitives/src/consensus_p2p.rs\<close>): the encoder, the decoder with its
  error for every malformed input, and the host name rules. A host name is its UTF-8 bytes.
\<close>

section \<open>Types and constants\<close>

text \<open>
  The addresses of \<open>core::net\<close>, by their octets. An IPv6 socket address also carries a flow
  label and a scope; \<open>SocketAddr::new\<close> sets both to 0.
\<close>

datatype ip_addr = V4 bytes | V6 bytes

datatype socket_addr =
    SocketAddrV4 bytes u16
  | SocketAddrV6 bytes u16 (flowinfo: u32) (scope_id: u32)

fun socket_ip :: "socket_addr \<Rightarrow> ip_addr" where
  "socket_ip (SocketAddrV4 octets port) = V4 octets"
| "socket_ip (SocketAddrV6 octets port flow scope) = V6 octets"

fun socket_port :: "socket_addr \<Rightarrow> u16" where
  "socket_port (SocketAddrV4 octets port) = port"
| "socket_port (SocketAddrV6 octets port flow scope) = port"

fun socket_new :: "ip_addr \<Rightarrow> u16 \<Rightarrow> socket_addr" where
  "socket_new (V4 octets) port = SocketAddrV4 octets port"
| "socket_new (V6 octets) port = SocketAddrV6 octets port 0 0"

datatype p2p_ingress = Ingress_Socket socket_addr | Ingress_Dns bytes u16

datatype p2p_address = Symmetric socket_addr | Asymmetric p2p_ingress socket_addr

datatype p2p_address_error =
    UnsupportedVersion u8
  | TooLarge nat nat
  | Truncated
  | TrailingBytes
  | InvalidAddressKind u8
  | InvalidIngressKind u8
  | InvalidIpKind u8
  | ZeroPort
  | InvalidHostname

definition P2P_ADDRESS_VERSION_V1 :: u8 where "P2P_ADDRESS_VERSION_V1 = 1"
definition MAX_P2P_ADDRESS_ENCODED_LEN :: nat where "MAX_P2P_ADDRESS_ENCODED_LEN = 512"
definition ADDR_SYMMETRIC :: u8 where [simp]: "ADDR_SYMMETRIC = 0"
definition ADDR_ASYMMETRIC :: u8 where [simp]: "ADDR_ASYMMETRIC = 1"
definition INGRESS_SOCKET :: u8 where [simp]: "INGRESS_SOCKET = 0"
definition INGRESS_DNS :: u8 where [simp]: "INGRESS_DNS = 1"
definition IP_V4 :: u8 where [simp]: "IP_V4 = 4"
definition IP_V6 :: u8 where [simp]: "IP_V6 = 6"

section \<open>Host names\<close>

text \<open>\<open>str::split('.')\<close> on the bytes of the string.\<close>

fun split_dot :: "bytes \<Rightarrow> bytes list" where
  "split_dot [] = [[]]"
| "split_dot (b # bs) =
     (if b = 46 then [] # split_dot bs
      else case split_dot bs of l # ls \<Rightarrow> (b # l) # ls | [] \<Rightarrow> [[b]])"

definition is_ascii_alphanumeric :: "u8 \<Rightarrow> bool" where
  "is_ascii_alphanumeric b \<longleftrightarrow>
     (48 \<le> b \<and> b \<le> 57) \<or> (65 \<le> b \<and> b \<le> 90) \<or> (97 \<le> b \<and> b \<le> 122)"

definition valid_label :: "bytes \<Rightarrow> bool" where
  "valid_label l \<longleftrightarrow>
     \<not> (l = [] \<or> 63 < length l) \<and>
     \<not> (hd l = 45 \<or> last l = 45) \<and>
     list_all (\<lambda>b. is_ascii_alphanumeric b \<or> b = 45) l"

definition validate_hostname :: "bytes \<Rightarrow> p2p_address_error + unit" where
  "validate_hostname host =
     (if host = [] \<or> 253 < length host then Inl InvalidHostname
      else if list_all valid_label (split_dot host) then Inr ()
      else Inl InvalidHostname)"

text \<open>Well-formed UTF-8, as \<open>core::str::from_utf8\<close> accepts it.\<close>

definition cont :: "u8 \<Rightarrow> bool" where
  "cont b \<longleftrightarrow> 128 \<le> b \<and> b \<le> 191"

fun is_utf8 :: "bytes \<Rightarrow> bool" where
  "is_utf8 [] = True"
| "is_utf8 (a # bs) =
     (if a < 128 then is_utf8 bs
      else if 194 \<le> a \<and> a \<le> 223 then
        (case bs of b # r \<Rightarrow> cont b \<and> is_utf8 r | _ \<Rightarrow> False)
      else if 224 \<le> a \<and> a \<le> 239 then
        (case bs of b # c # r \<Rightarrow>
           cont b \<and> cont c \<and> (a = 224 \<longrightarrow> 160 \<le> b) \<and> (a = 237 \<longrightarrow> b \<le> 159) \<and> is_utf8 r
         | _ \<Rightarrow> False)
      else if 240 \<le> a \<and> a \<le> 244 then
        (case bs of b # c # d # r \<Rightarrow>
           cont b \<and> cont c \<and> cont d \<and> (a = 240 \<longrightarrow> 144 \<le> b) \<and> (a = 244 \<longrightarrow> b \<le> 143) \<and> is_utf8 r
         | _ \<Rightarrow> False)
      else False)"

section \<open>Encoder\<close>

definition encode_socket :: "socket_addr \<Rightarrow> bytes" where
  "encode_socket socket =
     (case socket_ip socket of V4 octets \<Rightarrow> IP_V4 # octets | V6 octets \<Rightarrow> IP_V6 # octets) @
     to_be_bytes 2 (socket_port socket)"

fun encode_ingress :: "p2p_ingress \<Rightarrow> bytes" where
  "encode_ingress (Ingress_Socket s) = INGRESS_SOCKET # encode_socket s"
| "encode_ingress (Ingress_Dns host port) =
     INGRESS_DNS # to_be_bytes 2 (word_of_nat (length host) :: u16) @ host @ to_be_bytes 2 port"

fun encode_v1 :: "p2p_address \<Rightarrow> bytes" where
  "encode_v1 (Symmetric s) = ADDR_SYMMETRIC # encode_socket s"
| "encode_v1 (Asymmetric i e) = ADDR_ASYMMETRIC # encode_ingress i @ encode_socket e"

section \<open>Decoder\<close>

definition read_socket :: "bytes \<Rightarrow> p2p_address_error + (socket_addr \<times> bytes)" where
  "read_socket bs =
     and_then (read_u8 Truncated bs) (\<lambda>(kind, bs).
     and_then
       (if kind = IP_V4 then
          and_then (read_exact Truncated 4 bs) (\<lambda>(o4, bs). Inr (V4 o4, bs))
        else if kind = IP_V6 then
          and_then (read_exact Truncated 16 bs) (\<lambda>(o16, bs). Inr (V6 o16, bs))
        else Inl (InvalidIpKind kind)) (\<lambda>(ip, bs).
     and_then (read_be Truncated 2 bs) (\<lambda>(port, bs).
       if port = 0 then Inl ZeroPort else Inr (socket_new ip port, bs))))"

definition read_ingress :: "bytes \<Rightarrow> p2p_address_error + (p2p_ingress \<times> bytes)" where
  "read_ingress bs =
     and_then (read_u8 Truncated bs) (\<lambda>(kind, bs).
       if kind = INGRESS_SOCKET then
         and_then (read_socket bs) (\<lambda>(s, bs). Inr (Ingress_Socket s, bs))
       else if kind = INGRESS_DNS then
         and_then (read_be Truncated 2 bs) (\<lambda>(host_len :: u16, bs).
         and_then (read_exact Truncated (unat host_len) bs) (\<lambda>(host, bs).
           if \<not> is_utf8 host then Inl InvalidHostname
           else and_then (validate_hostname host) (\<lambda>_.
             and_then (read_be Truncated 2 bs) (\<lambda>(port, bs).
               if port = 0 then Inl ZeroPort else Inr (Ingress_Dns host port, bs)))))
       else Inl (InvalidIngressKind kind))"

definition decode_v1 :: "bytes \<Rightarrow> p2p_address_error + p2p_address" where
  "decode_v1 payload =
     (if MAX_P2P_ADDRESS_ENCODED_LEN < length payload then Inl (TooLarge (length payload) MAX_P2P_ADDRESS_ENCODED_LEN)
      else
        and_then (read_u8 Truncated payload) (\<lambda>(kind, bs).
        and_then
          (if kind = ADDR_SYMMETRIC then
             and_then (read_socket bs) (\<lambda>(s, bs). Inr (Symmetric s, bs))
           else if kind = ADDR_ASYMMETRIC then
             and_then (read_ingress bs) (\<lambda>(i, bs).
             and_then (read_socket bs) (\<lambda>(e, bs). Inr (Asymmetric i e, bs)))
           else Inl (InvalidAddressKind kind)) (\<lambda>(addr, bs).
        if bs \<noteq> [] then Inl TrailingBytes else Inr addr)))"

definition decode_versioned :: "u8 \<Rightarrow> bytes \<Rightarrow> p2p_address_error + p2p_address" where
  "decode_versioned version payload =
     (if version \<noteq> P2P_ADDRESS_VERSION_V1 then Inl (UnsupportedVersion version)
      else decode_v1 payload)"

definition validate_versioned :: "u8 \<Rightarrow> bytes \<Rightarrow> p2p_address_error + unit" where
  "validate_versioned version payload =
     and_then (decode_versioned version payload) (\<lambda>_. Inr ())"

section \<open>Well-formed addresses\<close>

text \<open>The octets have the length their type fixes, and the port is not zero.\<close>

fun wf_ip :: "ip_addr \<Rightarrow> bool" where
  "wf_ip (V4 octets) \<longleftrightarrow> length octets = 4"
| "wf_ip (V6 octets) \<longleftrightarrow> length octets = 16"

definition wf_socket :: "socket_addr \<Rightarrow> bool" where
  "wf_socket s \<longleftrightarrow> wf_ip (socket_ip s) \<and> socket_port s \<noteq> 0"

fun wf_ingress :: "p2p_ingress \<Rightarrow> bool" where
  "wf_ingress (Ingress_Socket s) \<longleftrightarrow> wf_socket s"
| "wf_ingress (Ingress_Dns host port) \<longleftrightarrow> validate_hostname host = Inr () \<and> port \<noteq> 0"

fun wf_address :: "p2p_address \<Rightarrow> bool" where
  "wf_address (Symmetric s) \<longleftrightarrow> wf_socket s"
| "wf_address (Asymmetric i e) \<longleftrightarrow> wf_ingress i \<and> wf_socket e"

text \<open>What the encoding keeps of an address: everything but the flow label and the scope.\<close>

definition plain_socket :: "socket_addr \<Rightarrow> socket_addr" where
  "plain_socket s = socket_new (socket_ip s) (socket_port s)"

fun plain_ingress :: "p2p_ingress \<Rightarrow> p2p_ingress" where
  "plain_ingress (Ingress_Socket s) = Ingress_Socket (plain_socket s)"
| "plain_ingress (Ingress_Dns host port) = Ingress_Dns host port"

fun plain_address :: "p2p_address \<Rightarrow> p2p_address" where
  "plain_address (Symmetric s) = Symmetric (plain_socket s)"
| "plain_address (Asymmetric i e) = Asymmetric (plain_ingress i) (plain_socket e)"

lemma socket_new_fields [simp]:
  "socket_ip (socket_new ip port) = ip" "socket_port (socket_new ip port) = port"
  by (cases ip; simp)+

lemma plain_socket_simps [simp]:
  "encode_socket (plain_socket s) = encode_socket s" "wf_socket (plain_socket s) = wf_socket s"
  "plain_socket (socket_new ip port) = socket_new ip port" "plain_socket (plain_socket s) = plain_socket s"
  by (simp_all add: plain_socket_def encode_socket_def wf_socket_def)

lemma plain_socket_cases [simp]:
  "plain_socket (SocketAddrV4 octets port) = SocketAddrV4 octets port"
  "plain_socket (SocketAddrV6 octets port flow scope) = SocketAddrV6 octets port 0 0"
  by (simp_all add: plain_socket_def)

lemma plain_ingress_simps [simp]: "wf_ingress (plain_ingress i) = wf_ingress i"
  "plain_ingress (plain_ingress i) = plain_ingress i"
  by (cases i; simp)+

lemma plain_address_simps [simp]: "wf_address (plain_address a) = wf_address a"
  "plain_address (plain_address a) = plain_address a"
  by (cases a; simp)+

section \<open>A valid host name is ASCII\<close>

lemma set_split_dot: "set host \<subseteq> insert 46 (\<Union>(set ` set (split_dot host)))"
  by (induction host rule: split_dot.induct) (auto 0 3 split: list.splits if_splits)

lemma valid_label_ascii: "valid_label l \<Longrightarrow> b \<in> set l \<Longrightarrow> b < 128"
  by (auto simp: valid_label_def list_all_iff is_ascii_alphanumeric_def word_less_nat_alt word_le_nat_alt)

lemma validate_hostname_ascii:
  assumes "validate_hostname host = Inr ()" and "b \<in> set host"
  shows "b < 128"
proof (cases "b = 46")
  case False
  with assms(2) set_split_dot [of host] obtain l where "l \<in> set (split_dot host)" "b \<in> set l"
    by blast
  with assms(1) show ?thesis
    by (auto simp: validate_hostname_def list_all_iff intro: valid_label_ascii split: if_splits)
qed simp

lemma ascii_is_utf8: "(\<And>b. b \<in> set bs \<Longrightarrow> b < 128) \<Longrightarrow> is_utf8 bs"
  by (induction bs) simp_all

lemma validate_hostname_length:
  "validate_hostname host = Inr () \<Longrightarrow> length host \<le> 253"
  by (auto simp: validate_hostname_def split: if_splits)

lemma valid_hostname_utf8: "validate_hostname host = Inr () \<Longrightarrow> is_utf8 host"
  by (blast intro: ascii_is_utf8 validate_hostname_ascii)

section \<open>The decoder inverts the encoder\<close>

lemma read_socket_encode:
  "wf_socket s \<Longrightarrow> read_socket (encode_socket s @ rest) = Inr (plain_socket s, rest)"
  by (cases s) (simp_all add: read_socket_def encode_socket_def wf_socket_def plain_socket_def)

lemma read_ingress_encode:
  assumes "wf_ingress i"
  shows "read_ingress (encode_ingress i @ rest) = Inr (plain_ingress i, rest)"
proof (cases i)
  case (Ingress_Socket s)
  with assms show ?thesis by (simp add: read_ingress_def read_socket_encode)
next
  case (Ingress_Dns host port)
  with assms have host: "validate_hostname host = Inr ()" "port \<noteq> 0" by simp_all
  then have len: "unat (word_of_nat (length host) :: u16) = length host"
    using validate_hostname_length [of host] by (simp add: unat_of_nat)
  from host Ingress_Dns len show ?thesis
    by (simp add: read_ingress_def valid_hostname_utf8)
qed

lemma length_encode_socket: "wf_socket s \<Longrightarrow> length (encode_socket s) \<le> 19"
  by (cases s) (simp_all add: encode_socket_def wf_socket_def)

lemma length_encode_ingress: "wf_ingress i \<Longrightarrow> length (encode_ingress i) \<le> 258"
  by (cases i) (auto dest: length_encode_socket validate_hostname_length)

lemma length_encode_v1: "wf_address a \<Longrightarrow> length (encode_v1 a) \<le> MAX_P2P_ADDRESS_ENCODED_LEN"
  by (cases a) (auto dest!: length_encode_socket length_encode_ingress
      simp: MAX_P2P_ADDRESS_ENCODED_LEN_def)

lemma decode_encode: "wf_address a \<Longrightarrow> decode_v1 (encode_v1 a) = Inr (plain_address a)"
  using length_encode_v1 [of a]
  by (cases a) (simp_all add: decode_v1_def read_socket_encode [where rest = "[]", simplified]
      read_ingress_encode)

section \<open>Every accepted payload is an encoding\<close>

lemma read_socket_canonical:
  "read_socket bs = Inr (s, rest) \<Longrightarrow> wf_socket s \<and> plain_socket s = s \<and> bs = encode_socket s @ rest"
  by (auto simp: read_socket_def and_then_eq_Inr wf_socket_def encode_socket_def split: if_splits
      dest!: read_u8_Inr read_exact_Inr read_be_Inr)

lemma read_ingress_canonical:
  "read_ingress bs = Inr (i, rest) \<Longrightarrow> wf_ingress i \<and> plain_ingress i = i \<and> bs = encode_ingress i @ rest"
  by (auto simp: read_ingress_def and_then_eq_Inr word_of_nat_eq_iff split: if_splits
      dest!: read_u8_Inr read_exact_Inr read_be_Inr read_socket_canonical)

lemma decode_canonical: "decode_v1 bs = Inr a \<Longrightarrow> wf_address a \<and> plain_address a = a \<and> bs = encode_v1 a"
  by (auto simp: decode_v1_def and_then_eq_Inr split: if_splits
      dest!: read_u8_Inr read_socket_canonical read_ingress_canonical)

text \<open>
  C23. The decoder accepts exactly the encodings of well-formed addresses. Decoding the
  encoding of an address returns that address with the flow label and the scope of its IPv6
  sockets set to 0, which the encoding drops, if and only if its ports are non-zero and its
  host name is valid. Every payload the decoder accepts is the unique encoding of the address
  it returns, which has flow label and scope 0; so no two payloads decode to the same address,
  and an address round-trips exactly when it is well-formed and has no flow label or scope.
\<close>

theorem decode_v1_iff:
  "(decode_v1 bs = Inr a \<longleftrightarrow> wf_address a \<and> plain_address a = a \<and> bs = encode_v1 a) \<and>
   (decode_v1 (encode_v1 a) = Inr (plain_address a) \<longleftrightarrow> wf_address a)"
  using decode_encode [of a] decode_canonical [of bs a] decode_canonical [of "encode_v1 a" "plain_address a"]
  by auto

end
