(* ===== verification/Validator_Set.thy ===== *)
theory Validator_Set
  imports P2p_Address
begin

text \<open>
  The validator registry and the validator lifecycle
  (\<^verbatim>\<open>crates/system/validatorset/src/runtime.rs\<close>, \<^verbatim>\<open>schema.rs\<close>, \<^verbatim>\<open>hooks.rs\<close>). The
  contract's storage slots are the fields of one record, mappings are total functions with
  the zero value as default, and every operation takes the record and returns the new one
  or the error it reverts with. \<open>bn\<close> is \<open>storage.block_number()\<close>. Logging, metrics and the
  slashing journal are not modelled; emitted events are, as a list.
\<close>

section \<open>Status values, events, storage\<close>

definition REGISTERED :: u8 where [simp]: "REGISTERED = 0"
definition PENDING :: u8 where [simp]: "PENDING = 1"
definition ACTIVE :: u8 where [simp]: "ACTIVE = 2"
definition EXITING :: u8 where [simp]: "EXITING = 3"
definition UNBONDING :: u8 where [simp]: "UNBONDING = 4"
definition INACTIVE :: u8 where [simp]: "INACTIVE = 5"
definition JAILED :: u8 where [simp]: "JAILED = 6"

definition MAX_SELF_REGISTERED_UNSTAKED :: u32 where
  "MAX_SELF_REGISTERED_UNSTAKED = 32"

definition FINALIZED_PARTICIPATION_RETAIN :: u64 where
  "FINALIZED_PARTICIPATION_RETAIN = 64"

datatype vs_event =
    ValidatorRegistered address u64
  | ValidatorActivated address
  | ValidatorDeactivated address u64
  | ValidatorForcedExit address u64
  | ValidatorJailed address u64
  | ValidatorUnjailed address u64
  | ConsensusSetUpdated u32
  | EpochTransition u256 u64 u32

record validator_set =
  config_owner :: address
  config_max_validators :: u32
  config_epoch_length_blocks :: u32
  config_is_initialized :: bool
  val_consensus_pubkey_lo :: "address \<Rightarrow> b256"
  val_consensus_pubkey_hi :: "address \<Rightarrow> b256"
  val_stake :: "address \<Rightarrow> u256"
  val_status :: "address \<Rightarrow> u8"
  val_slash_count :: "address \<Rightarrow> u64"
  val_missed_blocks :: "address \<Rightarrow> u64"
  val_missed_votes :: "address \<Rightarrow> u64"
  val_blocks_proposed :: "address \<Rightarrow> u64"
  val_joined_at_height :: "address \<Rightarrow> u64"
  val_deactivated_at_height :: "address \<Rightarrow> u64"
  val_unbonding_end :: "address \<Rightarrow> u64"
  address_to_index :: "address \<Rightarrow> u64"
  index_to_address :: "u64 \<Rightarrow> address"
  consensus_pubkey_hash_to_address :: "b256 \<Rightarrow> address"
  validator_count :: u32
  epoch_number :: u256
  epoch_start_timestamp :: u64
  epoch_start_block :: u64
  val_has_bls_share :: "address \<Rightarrow> bool"
  pending_set_change :: bool
  active_consensus_set_hash :: b256
  config_reregistration_cooldown :: u32
  val_p2p_address_version :: "address \<Rightarrow> u8"
  val_p2p_address_payload :: "address \<Rightarrow> bytes"
  finalized_participation_recorded :: "b256 \<Rightarrow> bool"
  val_join_confirmed :: "address \<Rightarrow> bool"
  config_unjail_cooldown_blocks :: u64
  val_jailed_at_height :: "address \<Rightarrow> u64"
  finalized_participation_ring :: "u64 \<Rightarrow> b256"
  finalized_participation_ring_seq :: u64
  vs_events :: "vs_event list"

text \<open>
  The libraries the registry calls: keccak256, and the three calls into \<open>blst\<close> that
  \<open>verify_bls_registration_sig\<close> makes.
\<close>

record crypto =
  keccak256 :: "bytes \<Rightarrow> b256"
  bls_public_key_from_bytes :: "bytes \<Rightarrow> bool"
  bls_signature_from_bytes :: "bytes \<Rightarrow> bool"
  bls_verify :: "bytes \<Rightarrow> address \<Rightarrow> bytes \<Rightarrow> bool"

record validator_record =
  validator_address :: address
  consensus_pubkey :: bytes
  stake_of :: u256
  status_of :: u8
  slash_count :: u64
  missed_blocks :: u64
  missed_votes :: u64
  blocks_proposed :: u64
  joined_at_height :: u64
  deactivated_at_height :: u64
  unbonding_end :: u64
  has_bls_share :: bool

section \<open>Reads\<close>

definition is_current_consensus_participant_status :: "u8 \<Rightarrow> bool \<Rightarrow> bool" where
  "is_current_consensus_participant_status st share \<longleftrightarrow>
     (st = ACTIVE \<or> st = EXITING \<or> st = JAILED) \<and> share"

definition read_consensus_pubkey :: "validator_set \<Rightarrow> address \<Rightarrow> bytes" where
  "read_consensus_pubkey vs a =
     take 32 (val_consensus_pubkey_lo vs a) @ take 16 (val_consensus_pubkey_hi vs a)"

definition write_consensus_pubkey ::
  "address \<Rightarrow> bytes \<Rightarrow> validator_set \<Rightarrow> validator_set" where
  "write_consensus_pubkey a pk vs = vs
     \<lparr>val_consensus_pubkey_lo := (val_consensus_pubkey_lo vs)(a := take 32 pk),
      val_consensus_pubkey_hi :=
        (val_consensus_pubkey_hi vs)(a := take 16 (drop 32 pk) @ replicate 16 0)\<rparr>"

definition consensus_pubkey_hash :: "crypto \<Rightarrow> bytes \<Rightarrow> b256" where
  "consensus_pubkey_hash c pk = keccak256 c pk"

definition get_validator :: "validator_set \<Rightarrow> address \<Rightarrow> validator_record option" where
  "get_validator vs a =
     (if address_to_index vs a = 0 then None
      else Some
        \<lparr>validator_address = a,
         consensus_pubkey = read_consensus_pubkey vs a,
         stake_of = val_stake vs a,
         status_of = val_status vs a,
         slash_count = val_slash_count vs a,
         missed_blocks = val_missed_blocks vs a,
         missed_votes = val_missed_votes vs a,
         blocks_proposed = val_blocks_proposed vs a,
         joined_at_height = val_joined_at_height vs a,
         deactivated_at_height = val_deactivated_at_height vs a,
         unbonding_end = val_unbonding_end vs a,
         has_bls_share = val_has_bls_share vs a\<rparr>)"

text \<open>The loop \<open>for i in 1..=count\<close>.\<close>

definition index_range :: "u32 \<Rightarrow> u64 list" where
  "index_range n = map word_of_nat [1..<Suc (unat n)]"

definition get_all_validators :: "validator_set \<Rightarrow> validator_record list" where
  "get_all_validators vs =
     List.map_filter
       (\<lambda>i. let a = index_to_address vs i in if a = 0 then None else get_validator vs a)
       (index_range (validator_count vs))"

definition get_active_validators :: "validator_set \<Rightarrow> validator_record list" where
  "get_active_validators vs = filter (\<lambda>v. status_of v = ACTIVE) (get_all_validators vs)"

definition get_reshare_target_set :: "validator_set \<Rightarrow> validator_record list" where
  "get_reshare_target_set vs =
     filter
       (\<lambda>v. if status_of v = ACTIVE then True
            else if status_of v = PENDING then val_join_confirmed vs (validator_address v)
            else False)
       (get_all_validators vs)"

definition get_pending_validators :: "validator_set \<Rightarrow> validator_record list" where
  "get_pending_validators vs = filter (\<lambda>v. status_of v = PENDING) (get_all_validators vs)"

definition get_admitted_non_consensus_validators ::
  "validator_set \<Rightarrow> validator_record list" where
  "get_admitted_non_consensus_validators vs =
     filter (\<lambda>v. status_of v = REGISTERED \<or> status_of v = PENDING \<or> status_of v = JAILED)
       (get_all_validators vs)"

definition get_active_consensus_set :: "validator_set \<Rightarrow> validator_record list" where
  "get_active_consensus_set vs =
     filter (\<lambda>v. is_current_consensus_participant_status (status_of v) (has_bls_share v))
       (get_all_validators vs)"

text \<open>\<open>count().try_into::<u32>()\<close>.\<close>

definition count_u32 :: "string \<Rightarrow> 'a list \<Rightarrow> u32 result" where
  "count_u32 msg xs =
     (if length xs < 2 ^ 32 then Inr (word_of_nat (length xs)) else Inl (Revert msg))"

definition active_validator_count :: "validator_set \<Rightarrow> u32 result" where
  "active_validator_count vs =
     count_u32 ''active validator count exceeds u32'' (get_active_validators vs)"

definition registered_count :: "validator_set \<Rightarrow> u32 result" where
  "registered_count vs =
     count_u32 ''registered validator count exceeds u32''
       (filter (\<lambda>v. status_of v = REGISTERED) (get_all_validators vs))"

definition active_consensus_count :: "validator_set \<Rightarrow> u32 result" where
  "active_consensus_count vs =
     count_u32 ''active consensus count exceeds u32'' (get_active_consensus_set vs)"

definition is_validator :: "validator_set \<Rightarrow> address \<Rightarrow> bool" where
  "is_validator vs a \<longleftrightarrow> 0 < address_to_index vs a"

definition is_consensus_participant :: "validator_set \<Rightarrow> address \<Rightarrow> bool" where
  "is_consensus_participant vs a \<longleftrightarrow>
     (if address_to_index vs a = 0 then False
      else is_current_consensus_participant_status (val_status vs a) (val_has_bls_share vs a))"

definition lookup_by_pubkey_hash :: "validator_set \<Rightarrow> b256 \<Rightarrow> address" where
  "lookup_by_pubkey_hash vs h = consensus_pubkey_hash_to_address vs h"

section \<open>Registration\<close>

definition verify_bls_registration_sig ::
  "crypto \<Rightarrow> bytes \<Rightarrow> bytes \<Rightarrow> address \<Rightarrow> unit result" where
  "verify_bls_registration_sig c pk sig a =
     (if \<not> bls_public_key_from_bytes c pk then Inl (Revert ''invalid BLS public key'')
      else if \<not> bls_signature_from_bytes c sig then Inl (Revert ''invalid BLS signature'')
      else if \<not> bls_verify c sig a pk then Inl (Revert ''invalid BLS registration signature'')
      else Inr ())"

definition emit :: "vs_event \<Rightarrow> validator_set \<Rightarrow> validator_set" where
  "emit e vs = vs\<lparr>vs_events := vs_events vs @ [e]\<rparr>"

text \<open>
  Proof of key possession: mandatory for self-registration, checked when the owner
  supplies one, waived for an owner registration without one.
\<close>

definition check_registration_sig ::
  "crypto \<Rightarrow> address \<Rightarrow> address \<Rightarrow> bytes \<Rightarrow> bytes option \<Rightarrow> unit result" where
  "check_registration_sig c caller a pk sig =
     (if caller = a then
        (case sig of
           Some s \<Rightarrow> verify_bls_registration_sig c pk s a
         | None \<Rightarrow>
             Inl (Revert ''self-registration requires BLS proof-of-key-ownership signature''))
      else
        (case sig of
           Some s \<Rightarrow> verify_bls_registration_sig c pk s a
         | None \<Rightarrow> Inr ()))"

text \<open>Re-registration of an \<open>INACTIVE\<close> validator reuses its index.\<close>

definition reregister ::
  "crypto \<Rightarrow> u64 \<Rightarrow> address \<Rightarrow> bytes \<Rightarrow> validator_set \<Rightarrow> validator_set" where
  "reregister c bn a pk vs =
     (let old_hash = consensus_pubkey_hash c (read_consensus_pubkey vs a);
          vs = vs\<lparr>consensus_pubkey_hash_to_address :=
                    (consensus_pubkey_hash_to_address vs)(old_hash := 0)\<rparr>;
          vs = write_consensus_pubkey a pk vs;
          vs = vs\<lparr>consensus_pubkey_hash_to_address :=
                    (consensus_pubkey_hash_to_address vs)(consensus_pubkey_hash c pk := a)\<rparr>;
          vs = vs\<lparr>val_status := (val_status vs)(a := REGISTERED),
                   val_slash_count := (val_slash_count vs)(a := 0),
                   val_missed_blocks := (val_missed_blocks vs)(a := 0),
                   val_missed_votes := (val_missed_votes vs)(a := 0),
                   val_blocks_proposed := (val_blocks_proposed vs)(a := 0),
                   val_joined_at_height := (val_joined_at_height vs)(a := bn),
                   val_deactivated_at_height := (val_deactivated_at_height vs)(a := 0),
                   val_unbonding_end := (val_unbonding_end vs)(a := 0),
                   val_has_bls_share := (val_has_bls_share vs)(a := False),
                   val_p2p_address_version := (val_p2p_address_version vs)(a := 0),
                   val_p2p_address_payload := (val_p2p_address_payload vs)(a := []),
                   pending_set_change := True\<rparr>
      in emit (ValidatorRegistered a (address_to_index vs a)) vs)"

text \<open>First registration appends the validator at index \<open>count + 1\<close>.\<close>

definition register_new ::
  "crypto \<Rightarrow> u64 \<Rightarrow> address \<Rightarrow> bytes \<Rightarrow> validator_set \<Rightarrow> validator_set" where
  "register_new c bn a pk vs =
     (let new_index = validator_count vs + 1;
          new_index_u64 = ucast new_index;
          vs = vs\<lparr>address_to_index := (address_to_index vs)(a := new_index_u64),
                   index_to_address := (index_to_address vs)(new_index_u64 := a)\<rparr>;
          vs = write_consensus_pubkey a pk vs;
          vs = vs\<lparr>val_status := (val_status vs)(a := REGISTERED),
                   val_joined_at_height := (val_joined_at_height vs)(a := bn),
                   consensus_pubkey_hash_to_address :=
                     (consensus_pubkey_hash_to_address vs)(consensus_pubkey_hash c pk := a),
                   validator_count := new_index,
                   pending_set_change := True\<rparr>
      in emit (ValidatorRegistered a new_index_u64) vs)"

definition cooldown_running :: "u64 \<Rightarrow> address \<Rightarrow> validator_set \<Rightarrow> bool" where
  "cooldown_running bn a vs \<longleftrightarrow>
     0 < config_reregistration_cooldown vs \<and>
     0 < val_deactivated_at_height vs a \<and>
     bn < val_deactivated_at_height vs a + ucast (config_reregistration_cooldown vs)"

definition register_validator_with_sig ::
  "crypto \<Rightarrow> u64 \<Rightarrow> address \<Rightarrow> address \<Rightarrow> bytes \<Rightarrow> bytes option
     \<Rightarrow> validator_set \<Rightarrow> validator_set result" where
  "register_validator_with_sig c bn caller a pk sig vs =
     (if caller \<noteq> config_owner vs \<and> caller \<noteq> a
      then Inl (Revert ''unauthorized: caller must be owner or validator itself'')
      else and_then (check_registration_sig c caller a pk sig) (\<lambda>_.
        and_then (if caller = a then registered_count vs else Inr 0) (\<lambda>n.
          if caller = a \<and> MAX_SELF_REGISTERED_UNSTAKED \<le> n
          then Inl (Revert ''self-registration limit reached'')
          else
            let existing_owner =
                  consensus_pubkey_hash_to_address vs (consensus_pubkey_hash c pk)
            in if existing_owner \<noteq> 0 \<and> existing_owner \<noteq> a
               then Inl (Revert ''BLS consensus pubkey already registered by another validator'')
               else if address_to_index vs a \<noteq> 0 then
                 if val_status vs a \<noteq> INACTIVE
                 then Inl (Revert ''validator already registered'')
                 else if cooldown_running bn a vs
                 then Inl (Revert ''re-registration cooldown not expired'')
                 else Inr (reregister c bn a pk vs)
               else if 0 < config_max_validators vs
                       \<and> config_max_validators vs \<le> validator_count vs
               then Inl (Revert ''max validators reached'')
               else Inr (register_new c bn a pk vs))))"

definition register_validator ::
  "crypto \<Rightarrow> u64 \<Rightarrow> address \<Rightarrow> address \<Rightarrow> bytes \<Rightarrow> validator_set \<Rightarrow> validator_set result" where
  "register_validator c bn caller a pk vs =
     register_validator_with_sig c bn caller a pk None vs"

section \<open>Lifecycle transitions\<close>

definition mark_pending :: "address \<Rightarrow> validator_set \<Rightarrow> validator_set result" where
  "mark_pending a vs =
     (if address_to_index vs a = 0 then Inl (Revert ''validator not registered'')
      else if val_status vs a \<noteq> REGISTERED then Inr vs
      else Inr (vs\<lparr>val_status := (val_status vs)(a := PENDING),
                   val_join_confirmed := (val_join_confirmed vs)(a := False),
                   pending_set_change := True\<rparr>))"

definition confirm_validator_ready :: "address \<Rightarrow> validator_set \<Rightarrow> validator_set result" where
  "confirm_validator_ready caller vs =
     (if address_to_index vs caller = 0 then Inl (Revert ''validator not registered'')
      else if val_status vs caller \<noteq> PENDING
      then Inl (Revert ''confirmValidatorReady requires PENDING status'')
      else Inr (vs\<lparr>val_join_confirmed := (val_join_confirmed vs)(caller := True),
                   pending_set_change := True\<rparr>))"

definition activate_validator :: "address \<Rightarrow> validator_set \<Rightarrow> validator_set result" where
  "activate_validator a vs =
     (if address_to_index vs a = 0 then Inl (Revert ''validator not registered'')
      else if val_status vs a = ACTIVE then Inr vs
      else if val_status vs a \<noteq> REGISTERED \<and> val_status vs a \<noteq> PENDING
      then Inl (Revert ''cannot activate validator with status: only REGISTERED or PENDING allowed'')
      else Inr (emit (ValidatorActivated a)
             (vs\<lparr>val_status := (val_status vs)(a := ACTIVE),
                 val_deactivated_at_height := (val_deactivated_at_height vs)(a := 0),
                 pending_set_change := True\<rparr>)))"

definition deactivate_validator ::
  "u64 \<Rightarrow> address \<Rightarrow> address \<Rightarrow> validator_set \<Rightarrow> validator_set result" where
  "deactivate_validator bn caller a vs =
     (if caller \<noteq> config_owner vs \<and> caller \<noteq> a
      then Inl (Revert ''unauthorized: caller must be owner or validator itself'')
      else if address_to_index vs a = 0 then Inl (Revert ''validator not registered'')
      else if val_status vs a \<noteq> ACTIVE
      then Inl (Revert ''can only deactivate an active validator'')
      else Inr (emit (ValidatorDeactivated a bn)
             (vs\<lparr>val_status := (val_status vs)(a := EXITING),
                 val_deactivated_at_height := (val_deactivated_at_height vs)(a := bn),
                 pending_set_change := True\<rparr>)))"

definition punish_validator ::
  "u64 \<Rightarrow> address \<Rightarrow> bool \<Rightarrow> validator_set \<Rightarrow> validator_set result" where
  "punish_validator bn a jail vs =
     (if address_to_index vs a = 0 then Inl (Revert ''validator not registered'')
      else
        let st = val_status vs a;
            target = (if jail then JAILED else EXITING)
        in and_then
          (if st = ACTIVE then
             let vs = vs\<lparr>val_status := (val_status vs)(a := target)\<rparr>;
                 vs = (if jail
                       then vs\<lparr>val_jailed_at_height := (val_jailed_at_height vs)(a := bn)\<rparr>
                       else vs);
                 vs = vs\<lparr>val_deactivated_at_height := (val_deactivated_at_height vs)(a := bn),
                          pending_set_change := True\<rparr>
             in Inr (if jail then emit (ValidatorJailed a bn) vs
                     else emit (ValidatorForcedExit a bn) (emit (ValidatorDeactivated a bn) vs))
           else if st = JAILED \<and> jail then
             Inr (emit (ValidatorJailed a (val_jailed_at_height vs a))
                    (vs\<lparr>pending_set_change := True\<rparr>))
           else if st = EXITING then
             Inr (emit (ValidatorForcedExit a (val_deactivated_at_height vs a))
                    (vs\<lparr>pending_set_change := True\<rparr>))
           else if st = UNBONDING \<or> st = INACTIVE then Inr vs
           else Inl (Revert ''cannot punish validator with this status''))
          (\<lambda>vs. Inr (vs\<lparr>val_slash_count := (val_slash_count vs)(a := val_slash_count vs a + 1)\<rparr>)))"

definition force_exit_validator :: "u64 \<Rightarrow> address \<Rightarrow> validator_set \<Rightarrow> validator_set result" where
  "force_exit_validator bn a vs = punish_validator bn a False vs"

definition jail_validator :: "u64 \<Rightarrow> address \<Rightarrow> validator_set \<Rightarrow> validator_set result" where
  "jail_validator bn a vs = punish_validator bn a True vs"

definition unjail_to_pending :: "u64 \<Rightarrow> address \<Rightarrow> validator_set \<Rightarrow> validator_set result" where
  "unjail_to_pending bn a vs =
     (if address_to_index vs a = 0 then Inl (Revert ''validator not registered'')
      else if val_status vs a \<noteq> JAILED
      then Inl (Revert ''unjailValidator requires JAILED status'')
      else if bn < saturating_add (val_jailed_at_height vs a) (config_unjail_cooldown_blocks vs)
      then Inl (Revert ''unjail cooldown not elapsed'')
      else Inr (emit (ValidatorUnjailed a bn)
             (vs\<lparr>val_status := (val_status vs)(a := PENDING),
                 val_jailed_at_height := (val_jailed_at_height vs)(a := 0),
                 val_join_confirmed := (val_join_confirmed vs)(a := False),
                 val_missed_blocks := (val_missed_blocks vs)(a := 0),
                 val_missed_votes := (val_missed_votes vs)(a := 0),
                 pending_set_change := True\<rparr>)))"

section \<open>Peer-to-peer addresses\<close>

definition set_p2p_address ::
  "address \<Rightarrow> address \<Rightarrow> u8 \<Rightarrow> bytes \<Rightarrow> validator_set \<Rightarrow> validator_set result" where
  "set_p2p_address caller a version encoded vs =
     (if caller \<noteq> config_owner vs \<and> caller \<noteq> a
      then Inl (Revert ''unauthorized: caller must be owner or validator itself'')
      else if address_to_index vs a = 0 then Inl (Revert ''validator not registered'')
      else if version \<noteq> P2P_ADDRESS_VERSION_V1
      then Inl (Revert ''unsupported p2p address version'')
      else if MAX_P2P_ADDRESS_ENCODED_LEN < length encoded
      then Inl (Revert ''p2p address payload exceeds max length'')
      else case validate_versioned version encoded of
             Inl _ \<Rightarrow> Inl (Revert ''invalid p2p address'')
           | Inr _ \<Rightarrow>
               Inr (vs\<lparr>val_p2p_address_version := (val_p2p_address_version vs)(a := version),
                       val_p2p_address_payload := (val_p2p_address_payload vs)(a := encoded)\<rparr>))"

definition get_p2p_address :: "address \<Rightarrow> validator_set \<Rightarrow> (u8 \<times> bytes) option result" where
  "get_p2p_address a vs =
     (if address_to_index vs a = 0 then Inl (Revert ''validator not registered'')
      else if val_p2p_address_version vs a = 0 \<and> val_p2p_address_payload vs a = []
      then Inr None
      else Inr (Some (val_p2p_address_version vs a, val_p2p_address_payload vs a)))"

section \<open>Reshare activation\<close>

definition clear_shares :: "validator_record list \<Rightarrow> validator_set \<Rightarrow> validator_set" where
  "clear_shares = fold (\<lambda>v vs.
     if has_bls_share v
     then vs\<lparr>val_has_bls_share := (val_has_bls_share vs)(validator_address v := False)\<rparr>
     else vs)"

definition grant_share :: "address \<Rightarrow> validator_set \<Rightarrow> validator_set result" where
  "grant_share a vs =
     (if address_to_index vs a = 0
      then Inl (Revert ''reshared active set contains unregistered validator'')
      else if val_status vs a = REGISTERED \<or> val_status vs a = PENDING
      then Inr (vs\<lparr>val_status := (val_status vs)(a := ACTIVE),
                   val_has_bls_share := (val_has_bls_share vs)(a := True),
                   val_join_confirmed := (val_join_confirmed vs)(a := False)\<rparr>)
      else if val_status vs a = ACTIVE
      then Inr (vs\<lparr>val_has_bls_share := (val_has_bls_share vs)(a := True)\<rparr>)
      else Inl (Revert ''reshared active set contains validator with non-active status''))"

definition retire_exiting ::
  "address list \<Rightarrow> validator_record list \<Rightarrow> validator_set \<Rightarrow> validator_set" where
  "retire_exiting new_set = fold (\<lambda>v vs.
     if status_of v = EXITING \<and> validator_address v \<notin> set new_set
     then vs\<lparr>val_status := (val_status vs)(validator_address v := UNBONDING),
             val_has_bls_share := (val_has_bls_share vs)(validator_address v := False)\<rparr>
     else vs)"

definition activate_reshared_set ::
  "address list \<Rightarrow> b256 \<Rightarrow> validator_set \<Rightarrow> validator_set result" where
  "activate_reshared_set new_set set_hash vs =
     (let all = get_all_validators vs
      in and_then (fold_res grant_share new_set (clear_shares all vs)) (\<lambda>vs.
        let vs = retire_exiting new_set all vs;
            vs = vs\<lparr>active_consensus_set_hash := set_hash\<rparr>;
            all_covered =
              list_all (\<lambda>v. validator_address v \<in> set new_set) (get_active_validators vs);
            vs = vs\<lparr>pending_set_change := \<not> all_covered\<rparr>
        in and_then (count_u32 ''active set count exceeds u32'' new_set) (\<lambda>n.
             Inr (emit (ConsensusSetUpdated n) vs))))"

section \<open>Participation records and epochs\<close>

definition record_proposer :: "address \<Rightarrow> validator_set \<Rightarrow> validator_set result" where
  "record_proposer a vs =
     (if \<not> is_consensus_participant vs a
      then Inl (Revert ''proposer is not a current consensus participant'')
      else Inr (vs\<lparr>val_blocks_proposed :=
                     (val_blocks_proposed vs)(a := val_blocks_proposed vs a + 1)\<rparr>))"

definition record_missed_block :: "address \<Rightarrow> validator_set \<Rightarrow> validator_set" where
  "record_missed_block a vs =
     vs\<lparr>val_missed_blocks := (val_missed_blocks vs)(a := val_missed_blocks vs a + 1)\<rparr>"

definition bump_missed_votes :: "address \<Rightarrow> validator_set \<Rightarrow> validator_set" where
  "bump_missed_votes a vs =
     vs\<lparr>val_missed_votes := (val_missed_votes vs)(a := val_missed_votes vs a + 1)\<rparr>"

definition absent_vote ::
  "(validator_set \<Rightarrow> address \<Rightarrow> bool) \<Rightarrow> string \<Rightarrow> address \<Rightarrow> validator_set \<Rightarrow> validator_set result" where
  "absent_vote known msg a vs =
     (if \<not> known vs a then Inl (Revert msg) else Inr (bump_missed_votes a vs))"

definition record_participation ::
  "address list \<Rightarrow> address list \<Rightarrow> validator_set \<Rightarrow> validator_set result" where
  "record_participation voters absent vs =
     (if \<not> list_all (is_consensus_participant vs) voters
      then Inl (Revert ''voter is not a current consensus participant'')
      else fold_res (absent_vote is_consensus_participant
             ''absent voter is not a current consensus participant'') absent vs)"

definition record_finalized_participation ::
  "address list \<Rightarrow> address list \<Rightarrow> validator_set \<Rightarrow> validator_set result" where
  "record_finalized_participation voters absent vs =
     (if \<not> list_all (is_validator vs) voters
      then Inl (Revert ''finalized voter is not a registered validator'')
      else fold_res (absent_vote is_validator
             ''finalized absent voter is not a registered validator'') absent vs)"

text \<open>
  The hook of the same name records at most once per finalized block hash; its guard flags
  live in a ring that keeps the most recent blocks.
\<close>

definition mark_participation_recorded :: "b256 \<Rightarrow> validator_set \<Rightarrow> validator_set" where
  "mark_participation_recorded h vs =
     (let vs = vs\<lparr>finalized_participation_recorded :=
                    (finalized_participation_recorded vs)(h := True)\<rparr>;
          seq = finalized_participation_ring_seq vs;
          idx = seq mod FINALIZED_PARTICIPATION_RETAIN;
          evicted = finalized_participation_ring vs idx;
          vs = (if evicted \<noteq> B256_ZERO \<and> evicted \<noteq> h
                then vs\<lparr>finalized_participation_recorded :=
                          (finalized_participation_recorded vs)(evicted := False)\<rparr>
                else vs)
      in vs\<lparr>finalized_participation_ring := (finalized_participation_ring vs)(idx := h),
            finalized_participation_ring_seq := seq + 1\<rparr>)"

definition hook_record_finalized_participation ::
  "b256 \<Rightarrow> address list \<Rightarrow> address list \<Rightarrow> validator_set \<Rightarrow> validator_set result" where
  "hook_record_finalized_participation h voters absent vs =
     (if voters = [] \<and> absent = [] then Inr vs
      else if finalized_participation_recorded vs h then Inr vs
      else and_then (record_finalized_participation voters absent vs) (\<lambda>vs.
             Inr (mark_participation_recorded h vs)))"

definition is_epoch_boundary :: "u64 \<Rightarrow> validator_set \<Rightarrow> bool" where
  "is_epoch_boundary bn vs \<longleftrightarrow>
     (if config_epoch_length_blocks vs = 0 then False
      else saturating_add (epoch_start_block vs) (ucast (config_epoch_length_blocks vs)) \<le> bn)"

definition reset_counters :: "validator_record \<Rightarrow> validator_set \<Rightarrow> validator_set" where
  "reset_counters v vs =
     (if status_of v \<noteq> ACTIVE \<and> status_of v \<noteq> EXITING \<and> status_of v \<noteq> JAILED then vs
      else let a = validator_address v
           in vs\<lparr>val_missed_blocks := (val_missed_blocks vs)(a := 0),
                 val_missed_votes := (val_missed_votes vs)(a := 0),
                 val_blocks_proposed := (val_blocks_proposed vs)(a := 0)\<rparr>)"

definition update_epoch :: "u64 \<Rightarrow> u64 \<Rightarrow> validator_set \<Rightarrow> validator_set result" where
  "update_epoch ts bn vs =
     (let vs = fold reset_counters (get_all_validators vs) vs;
          new_epoch = epoch_number vs + 1;
          vs = vs\<lparr>epoch_number := new_epoch, epoch_start_timestamp := ts,
                   epoch_start_block := bn\<rparr>
      in and_then (active_validator_count vs) (\<lambda>n.
           Inr (emit (EpochTransition new_epoch ts n) vs)))"

section \<open>Removal of inactive validators\<close>

definition clear_validator_storage ::
  "crypto \<Rightarrow> address \<Rightarrow> validator_set \<Rightarrow> validator_set" where
  "clear_validator_storage c a vs =
     (let h = consensus_pubkey_hash c (read_consensus_pubkey vs a);
          vs = vs\<lparr>consensus_pubkey_hash_to_address :=
                    (consensus_pubkey_hash_to_address vs)(h := 0)\<rparr>;
          vs = write_consensus_pubkey a (replicate 48 0) vs
      in vs\<lparr>val_stake := (val_stake vs)(a := 0),
            val_status := (val_status vs)(a := 0),
            val_slash_count := (val_slash_count vs)(a := 0),
            val_missed_blocks := (val_missed_blocks vs)(a := 0),
            val_missed_votes := (val_missed_votes vs)(a := 0),
            val_blocks_proposed := (val_blocks_proposed vs)(a := 0),
            val_joined_at_height := (val_joined_at_height vs)(a := 0),
            val_deactivated_at_height := (val_deactivated_at_height vs)(a := 0),
            val_unbonding_end := (val_unbonding_end vs)(a := 0),
            val_has_bls_share := (val_has_bls_share vs)(a := False),
            val_p2p_address_version := (val_p2p_address_version vs)(a := 0),
            val_p2p_address_payload := (val_p2p_address_payload vs)(a := []),
            val_join_confirmed := (val_join_confirmed vs)(a := False),
            val_jailed_at_height := (val_jailed_at_height vs)(a := 0)\<rparr>)"

text \<open>The swap-remove of entry \<open>i\<close>, holding \<open>a\<close>, from a registry of \<open>count\<close> entries.\<close>

definition swap_remove :: "u64 \<Rightarrow> address \<Rightarrow> u64 \<Rightarrow> validator_set \<Rightarrow> validator_set" where
  "swap_remove i a count vs =
     (let vs = (if i < count then
            let last = index_to_address vs count
            in vs\<lparr>index_to_address := (index_to_address vs)(i := last),
                  address_to_index := (address_to_index vs)(last := i)\<rparr>
          else vs)
      in vs\<lparr>index_to_address := (index_to_address vs)(count := 0),
            address_to_index := (address_to_index vs)(a := 0)\<rparr>)"

partial_function (option) cleanup_loop ::
  "crypto \<Rightarrow> u32 \<Rightarrow> u64 \<Rightarrow> u32 \<Rightarrow> u32 \<Rightarrow> validator_set
     \<Rightarrow> (u32 \<times> u32 \<times> validator_set) option" where
  "cleanup_loop c max_removals i count removed vs =
     (if \<not> i \<le> ucast count \<or> (0 < max_removals \<and> max_removals \<le> removed)
      then Some (count, removed, vs)
      else if index_to_address vs i = 0 \<or> val_status vs (index_to_address vs i) \<noteq> INACTIVE
      then cleanup_loop c max_removals (i + 1) count removed vs
      else cleanup_loop c max_removals i (count - 1) (removed + 1)
             (swap_remove i (index_to_address vs i) (ucast count)
               (clear_validator_storage c (index_to_address vs i) vs)))"

definition cleanup_inactive_validators ::
  "crypto \<Rightarrow> u32 \<Rightarrow> validator_set \<Rightarrow> (u32 \<times> validator_set) result" where
  "cleanup_inactive_validators c max_removals vs =
     (case cleanup_loop c max_removals 1 (validator_count vs) 0 vs of
        None \<Rightarrow> Inl NonTermination
      | Some (count, removed, vs) \<Rightarrow> Inr (removed, vs\<lparr>validator_count := count\<rparr>))"

end
