(* ===== verification/Validator_Registry.thy ===== *)
theory Validator_Registry
  imports Validator_Set
begin

text \<open>
  Well-formedness of the validator registry: the index array and the address map are
  inverse to each other, the key map and the stored keys agree. Every operation of
  \<^verbatim>\<open>Validator_Set\<close> keeps both.
\<close>

section \<open>The index range\<close>

lemma set_index_range: "set (index_range n) = {i. 1 \<le> i \<and> i \<le> ucast n}"
proof -
  have "i \<in> set (index_range n)" if "1 \<le> i" "i \<le> ucast n" for i :: u64
  proof -
    have "unat i \<in> set [1..<Suc (unat n)]"
      using that by (auto simp: word_le_nat_alt)
    then have "(word_of_nat (unat i) :: u64) \<in> word_of_nat ` set [1..<Suc (unat n)]"
      by (rule imageI)
    then show ?thesis by (simp add: index_range_def del: set_upt)
  qed
  moreover have "1 \<le> i \<and> i \<le> ucast n" if "i \<in> set (index_range n)" for i
  proof -
    from that obtain k where k: "i = word_of_nat k" "1 \<le> k" "k \<le> unat n"
      by (auto simp: index_range_def)
    moreover have "unat n < 2 ^ 32" using unat_lt_2p [of n] by simp
    ultimately have "unat i = k" by (simp add: unat_of_nat)
    with k show ?thesis by (simp add: word_le_nat_alt)
  qed
  ultimately show ?thesis by blast
qed

lemma distinct_index_range: "distinct (index_range n)"
proof -
  have "unat n < 2 ^ 32" using unat_lt_2p [of n] by simp
  then have "inj_on (word_of_nat :: nat \<Rightarrow> u64) (set [1..<Suc (unat n)])"
    by (intro inj_onI) (auto simp: word_of_nat_eq_iff take_bit_nat_eq_self)
  then show ?thesis by (simp add: index_range_def distinct_map)
qed

lemma index_range_bounds:
  "i \<in> set (index_range n) \<Longrightarrow> i \<noteq> 0"
  by (auto simp: set_index_range)

section \<open>The registry invariant\<close>

definition registered :: "validator_set \<Rightarrow> address set" where
  "registered vs = {a. address_to_index vs a \<noteq> 0}"

definition registry_inv :: "validator_set \<Rightarrow> bool" where
  "registry_inv vs \<longleftrightarrow>
     (\<forall>i. 1 \<le> i \<and> i \<le> ucast (validator_count vs) \<longrightarrow>
        index_to_address vs i \<noteq> 0 \<and> address_to_index vs (index_to_address vs i) = i) \<and>
     (\<forall>a. address_to_index vs a \<noteq> 0 \<longrightarrow>
        address_to_index vs a \<le> ucast (validator_count vs) \<and>
        index_to_address vs (address_to_index vs a) = a)"

definition key_inv :: "crypto \<Rightarrow> validator_set \<Rightarrow> bool" where
  "key_inv c vs \<longleftrightarrow>
     (\<forall>a \<in> registered vs.
        consensus_pubkey_hash_to_address vs (keccak256 c (read_consensus_pubkey vs a)) = a) \<and>
     (\<forall>h. consensus_pubkey_hash_to_address vs h \<noteq> 0 \<longrightarrow>
        consensus_pubkey_hash_to_address vs h \<in> registered vs \<and>
        keccak256 c (read_consensus_pubkey vs (consensus_pubkey_hash_to_address vs h)) = h)"

lemma registry_inv_index:
  "registry_inv vs \<Longrightarrow> i \<in> set (index_range (validator_count vs)) \<Longrightarrow>
     index_to_address vs i \<noteq> 0 \<and> address_to_index vs (index_to_address vs i) = i"
  by (auto simp: registry_inv_def set_index_range)

lemma registry_inv_address:
  assumes "registry_inv vs" and "a \<in> registered vs"
  shows "address_to_index vs a \<in> set (index_range (validator_count vs))"
    and "index_to_address vs (address_to_index vs a) = a" and "a \<noteq> 0"
proof -
  have "1 \<le> address_to_index vs a"
    using assms(2) by (simp add: registered_def word_le_nat_alt unat_eq_zero Suc_le_eq unat_gt_0)
  with assms show idx: "address_to_index vs a \<in> set (index_range (validator_count vs))"
    by (auto simp: registry_inv_def registered_def set_index_range)
  show "index_to_address vs (address_to_index vs a) = a"
    using assms by (auto simp: registry_inv_def registered_def)
  with registry_inv_index [OF assms(1) idx] show "a \<noteq> 0" by simp
qed

lemma zero_not_registered: "registry_inv vs \<Longrightarrow> 0 \<notin> registered vs"
  using registry_inv_address(3) by blast

lemma get_validator_fields:
  "get_validator vs a = Some v \<Longrightarrow> validator_address v = a"
  "get_validator vs a = Some v \<Longrightarrow> status_of v = val_status vs a"
  "get_validator vs a = Some v \<Longrightarrow> has_bls_share v = val_has_bls_share vs a"
  "get_validator vs a = Some v \<Longrightarrow> slash_count v = val_slash_count vs a"
  by (auto simp: get_validator_def split: if_splits)

lemma get_validator_registered: "a \<in> registered vs \<Longrightarrow> \<exists>v. get_validator vs a = Some v"
  by (simp add: registered_def get_validator_def)

lemma map_filter_all:
  "(\<And>x. x \<in> set xs \<Longrightarrow> \<exists>y. f x = Some y) \<Longrightarrow> List.map_filter f xs = map (\<lambda>x. the (f x)) xs"
proof (induction xs)
  case (Cons x xs)
  from Cons.prems [of x] obtain y where "f x = Some y" by auto
  with Cons show ?case by (simp add: List.map_filter_simps)
qed (simp add: List.map_filter_simps)

lemma get_all_validators_eq:
  assumes "registry_inv vs"
  shows "get_all_validators vs =
    map (\<lambda>i. the (get_validator vs (index_to_address vs i))) (index_range (validator_count vs))"
proof -
  let ?f = "\<lambda>i. let a = index_to_address vs i in if a = 0 then None else get_validator vs a"
  have f: "?f i = get_validator vs (index_to_address vs i)"
    and ex: "\<exists>v. get_validator vs (index_to_address vs i) = Some v"
    if "i \<in> set (index_range (validator_count vs))" for i
    using registry_inv_index [OF assms that] index_range_bounds [OF that]
    by (simp_all add: Let_def get_validator_registered registered_def)
  have "List.map_filter ?f (index_range (validator_count vs))
      = map (\<lambda>i. the (?f i)) (index_range (validator_count vs))"
    by (rule map_filter_all) (simp only: f ex)
  also have "\<dots> = map (\<lambda>i. the (get_validator vs (index_to_address vs i)))
      (index_range (validator_count vs))"
    by (rule map_cong [OF refl]) (simp only: f)
  finally show ?thesis by (simp add: get_all_validators_def)
qed

lemma address_the_get_validator:
  assumes "registry_inv vs" and "i \<in> set (index_range (validator_count vs))"
  shows "validator_address (the (get_validator vs (index_to_address vs i))) = index_to_address vs i"
    and "index_to_address vs i \<in> registered vs"
proof -
  from registry_inv_index [OF assms] index_range_bounds [OF assms(2)]
  show reg: "index_to_address vs i \<in> registered vs" by (simp add: registered_def)
  then show "validator_address (the (get_validator vs (index_to_address vs i))) = index_to_address vs i"
    by (auto simp: get_validator_def registered_def)
qed

lemma addresses_get_all:
  "registry_inv vs \<Longrightarrow> map validator_address (get_all_validators vs) =
     map (index_to_address vs) (index_range (validator_count vs))"
  by (simp add: get_all_validators_eq address_the_get_validator)

lemma set_addresses_get_all:
  assumes "registry_inv vs"
  shows "validator_address ` set (get_all_validators vs) = registered vs"
proof -
  have "validator_address ` set (get_all_validators vs)
      = index_to_address vs ` set (index_range (validator_count vs))"
    using addresses_get_all [OF assms] by (metis list.set_map)
  also have "\<dots> = registered vs"
  proof (intro equalityI subsetI)
    fix a assume "a \<in> registered vs"
    then show "a \<in> index_to_address vs ` set (index_range (validator_count vs))"
      using registry_inv_address(1,2) [OF assms, of a] by (metis imageI)
  qed (use address_the_get_validator(2) [OF assms] in blast)
  finally show ?thesis .
qed

lemma distinct_addresses_get_all:
  assumes "registry_inv vs"
  shows "distinct (map validator_address (get_all_validators vs))"
proof -
  have "inj_on (index_to_address vs) (set (index_range (validator_count vs)))"
    by (rule inj_onI) (metis registry_inv_index [OF assms])
  then show ?thesis
    by (simp add: addresses_get_all [OF assms] distinct_map distinct_index_range)
qed

lemma in_get_all_validators:
  assumes "registry_inv vs"
  shows "v \<in> set (get_all_validators vs) \<longleftrightarrow>
    validator_address v \<in> registered vs \<and> get_validator vs (validator_address v) = Some v"
proof
  assume "v \<in> set (get_all_validators vs)"
  then obtain i where i: "i \<in> set (index_range (validator_count vs))"
    and v: "v = the (get_validator vs (index_to_address vs i))"
    by (auto simp: get_all_validators_eq [OF assms])
  have addr: "validator_address v = index_to_address vs i"
    and reg: "index_to_address vs i \<in> registered vs"
    using address_the_get_validator [OF assms i] v by simp_all
  obtain w where "get_validator vs (index_to_address vs i) = Some w"
    using get_validator_registered [OF reg] by blast
  with addr reg v
  show "validator_address v \<in> registered vs \<and> get_validator vs (validator_address v) = Some v"
    by simp
next
  assume r: "validator_address v \<in> registered vs \<and> get_validator vs (validator_address v) = Some v"
  let ?i = "address_to_index vs (validator_address v)"
  from r registry_inv_address [OF assms, of "validator_address v"]
  have "?i \<in> set (index_range (validator_count vs))"
    and "the (get_validator vs (index_to_address vs ?i)) = v" by simp_all
  then show "v \<in> set (get_all_validators vs)"
    by (metis (no_types, lifting) get_all_validators_eq [OF assms] image_eqI list.set_map)
qed

section \<open>Operations that leave the registry alone\<close>

definition same_registry :: "validator_set \<Rightarrow> validator_set \<Rightarrow> bool" where
  "same_registry vs vs' \<longleftrightarrow>
     address_to_index vs' = address_to_index vs \<and>
     index_to_address vs' = index_to_address vs \<and>
     validator_count vs' = validator_count vs \<and>
     val_consensus_pubkey_lo vs' = val_consensus_pubkey_lo vs \<and>
     val_consensus_pubkey_hi vs' = val_consensus_pubkey_hi vs \<and>
     consensus_pubkey_hash_to_address vs' = consensus_pubkey_hash_to_address vs"

lemma same_registry_refl [simp]: "same_registry vs vs"
  by (simp add: same_registry_def)

lemma same_registry_trans:
  "same_registry a b \<Longrightarrow> same_registry b c \<Longrightarrow> same_registry a c"
  by (simp add: same_registry_def)

lemma same_registry_registered: "same_registry vs vs' \<Longrightarrow> registered vs' = registered vs"
  by (simp add: same_registry_def registered_def)

lemma same_registry_inv: "same_registry vs vs' \<Longrightarrow> registry_inv vs' = registry_inv vs"
  by (simp add: same_registry_def registry_inv_def)

lemma same_registry_key_inv: "same_registry vs vs' \<Longrightarrow> key_inv c vs' = key_inv c vs"
  by (simp add: same_registry_def key_inv_def registered_def read_consensus_pubkey_def)

text \<open>
  The contract most entry points share: an operation that succeeds without touching the
  index array, the address map, the keys or the key map keeps both invariants and the set
  of registered validators.
\<close>

locale registry_preserving =
  fixes run :: "validator_set \<Rightarrow> precompile_error + validator_set"
  assumes frame: "run vs = Inr vs' \<Longrightarrow> same_registry vs vs'"
begin

lemma keeps_registry_inv: "run vs = Inr vs' \<Longrightarrow> registry_inv vs \<Longrightarrow> registry_inv vs'"
  using frame same_registry_inv by blast

lemma keeps_key_inv: "run vs = Inr vs' \<Longrightarrow> key_inv c vs \<Longrightarrow> key_inv c vs'"
  using frame same_registry_key_inv by blast

lemma keeps_registered: "run vs = Inr vs' \<Longrightarrow> registered vs' = registered vs"
  by (rule same_registry_registered) (rule frame)

end

lemma fold_same_registry:
  assumes "\<And>x vs. same_registry vs (f x vs)"
  shows "same_registry vs (fold f xs vs)"
proof (induction xs arbitrary: vs)
  case (Cons x xs)
  show ?case using same_registry_trans [OF assms [of vs x] Cons.IH [of "f x vs"]] by simp
qed simp

lemma fold_res_same_registry:
  assumes "fold_res f xs vs = Inr vs'"
    and "\<And>x s t. f x s = Inr t \<Longrightarrow> same_registry s t"
  shows "same_registry vs vs'"
  by (rule fold_res_invariant [OF assms(1), where P = "same_registry vs"])
    (auto intro: same_registry_trans assms(2))

lemma same_registry_emit [simp]: "same_registry vs (emit e vs') = same_registry vs vs'"
  by (simp add: same_registry_def emit_def)

lemma same_registry_clear_shares: "same_registry vs (clear_shares all vs)"
  unfolding clear_shares_def by (rule fold_same_registry) (simp add: same_registry_def)

lemma same_registry_retire_exiting: "same_registry vs (retire_exiting new_set all vs)"
  unfolding retire_exiting_def by (rule fold_same_registry) (simp add: same_registry_def)

lemma same_registry_grant_share: "grant_share a vs = Inr vs' \<Longrightarrow> same_registry vs vs'"
  by (auto simp: grant_share_def same_registry_def split: if_splits)

interpretation mark_pending: registry_preserving "mark_pending a" for a
  by unfold_locales (auto simp: mark_pending_def same_registry_def split: if_splits)

interpretation confirm_ready: registry_preserving "confirm_validator_ready a" for a
  by unfold_locales (auto simp: confirm_validator_ready_def same_registry_def split: if_splits)

interpretation activate: registry_preserving "activate_validator a" for a
  by unfold_locales (auto simp: activate_validator_def same_registry_def emit_def split: if_splits)

interpretation deactivate: registry_preserving "deactivate_validator bn caller a" for bn caller a
  by unfold_locales (auto simp: deactivate_validator_def same_registry_def emit_def split: if_splits)

interpretation punish: registry_preserving "punish_validator bn a jail" for bn a jail
  by unfold_locales
    (auto simp: punish_validator_def same_registry_def emit_def Let_def and_then_eq_Inr
      split: if_splits)

interpretation unjail: registry_preserving "unjail_to_pending bn a" for bn a
  by unfold_locales (auto simp: unjail_to_pending_def same_registry_def emit_def split: if_splits)

interpretation p2p: registry_preserving "set_p2p_address caller a ver enc" for caller a ver enc
  by unfold_locales
    (auto simp: set_p2p_address_def same_registry_def split: if_splits sum.splits)

interpretation proposer: registry_preserving "record_proposer a" for a
  by unfold_locales (auto simp: record_proposer_def same_registry_def split: if_splits)

lemma same_registry_absent_vote: "absent_vote known msg a vs = Inr vs' \<Longrightarrow> same_registry vs vs'"
  by (auto simp: absent_vote_def bump_missed_votes_def same_registry_def)

interpretation participation: registry_preserving "record_participation voters absent"
  for voters absent
  by unfold_locales
    (auto simp: record_participation_def
      elim!: fold_res_same_registry intro: same_registry_absent_vote)

interpretation finalized_participation:
  registry_preserving "record_finalized_participation voters absent" for voters absent
  by unfold_locales
    (auto simp: record_finalized_participation_def
      elim!: fold_res_same_registry intro: same_registry_absent_vote)

lemma same_registry_mark_recorded: "same_registry vs (mark_participation_recorded h vs)"
  by (simp add: mark_participation_recorded_def same_registry_def Let_def)

interpretation hook_finalized:
  registry_preserving "hook_record_finalized_participation h voters absent" for h voters absent
  by unfold_locales
    (auto simp: hook_record_finalized_participation_def and_then_eq_Inr split: if_splits
      intro: same_registry_trans finalized_participation.frame same_registry_mark_recorded)

lemma same_registry_reset_counters: "same_registry vs (reset_counters v vs)"
  by (simp add: reset_counters_def same_registry_def Let_def)

interpretation epoch: registry_preserving "update_epoch ts bn" for ts bn
proof unfold_locales
  fix vs vs'
  assume run: "update_epoch ts bn vs = Inr vs'"
  have "same_registry vs (fold reset_counters (get_all_validators vs) vs)"
    by (rule fold_same_registry) (rule same_registry_reset_counters)
  with run show "same_registry vs vs'"
    by (auto simp: update_epoch_def Let_def and_then_eq_Inr emit_def same_registry_def)
qed

interpretation reshare: registry_preserving "activate_reshared_set new_set h" for new_set h
proof unfold_locales
  fix vs vs'
  assume "activate_reshared_set new_set h vs = Inr vs'"
  then obtain vs1 where
      grant: "fold_res grant_share new_set (clear_shares (get_all_validators vs) vs) = Inr vs1"
    and vs': "same_registry (retire_exiting new_set (get_all_validators vs) vs1) vs'"
    by (auto simp: activate_reshared_set_def Let_def and_then_eq_Inr emit_def same_registry_def)
  have "same_registry vs vs1"
    using same_registry_clear_shares fold_res_same_registry [OF grant same_registry_grant_share]
    by (rule same_registry_trans)
  then have "same_registry vs (retire_exiting new_set (get_all_validators vs) vs1)"
    using same_registry_retire_exiting by (rule same_registry_trans)
  then show "same_registry vs vs'" using vs' by (rule same_registry_trans)
qed

section \<open>Keys in storage\<close>

lemma read_write_consensus_pubkey:
  "length pk = 48 \<Longrightarrow>
     read_consensus_pubkey (write_consensus_pubkey a pk vs) b =
       (if b = a then pk else read_consensus_pubkey vs b)"
  by (simp add: read_consensus_pubkey_def write_consensus_pubkey_def take_add [symmetric])

lemma read_consensus_pubkey_upd [simp]:
  "read_consensus_pubkey (vs\<lparr>address_to_index := x\<rparr>) b = read_consensus_pubkey vs b"
  "read_consensus_pubkey (vs\<lparr>index_to_address := y\<rparr>) b = read_consensus_pubkey vs b"
  "read_consensus_pubkey (vs\<lparr>consensus_pubkey_hash_to_address := z\<rparr>) b = read_consensus_pubkey vs b"
  by (simp_all add: read_consensus_pubkey_def)

section \<open>Registration\<close>

lemma ucast_Suc_u32:
  "unat (n :: u32) + 1 < 2 ^ 32 \<Longrightarrow> (ucast (n + 1) :: u64) = ucast n + 1"
proof -
  assume n: "unat n + 1 < 2 ^ 32"
  then have "unat (n + 1) = unat n + 1" by (simp add: unat_add_exact)
  moreover from n have "unat (ucast n + 1 :: u64) = unat n + 1" by (simp add: unat_add_exact)
  ultimately show ?thesis by (simp add: word_unat_eq_iff)
qed

lemma key_owner_free:
  assumes "key_inv c vs" and "a \<notin> registered vs"
    and "consensus_pubkey_hash_to_address vs h = 0 \<or> consensus_pubkey_hash_to_address vs h = a"
    and "a \<noteq> 0"
  shows "consensus_pubkey_hash_to_address vs h = 0"
  using assms by (auto simp: key_inv_def)

lemma registry_inv_register_new:
  assumes inv: "registry_inv vs" and fresh: "a \<notin> registered vs" and a: "a \<noteq> 0"
    and room: "unat (validator_count vs) + 1 < 2 ^ 32"
  shows "registry_inv (register_new c bn a pk vs)"
    and "registered (register_new c bn a pk vs) = insert a (registered vs)"
proof -
  let ?n = "ucast (validator_count vs) :: u64"
  let ?vs' = "register_new c bn a pk vs"
  have new: "ucast (validator_count vs + 1) = ?n + 1" using room by (rule ucast_Suc_u32)
  have un: "unat (?n + 1) = unat (validator_count vs) + 1"
    using room by (simp add: unat_add_exact)
  have le_new: "i \<le> ?n + 1 \<longleftrightarrow> i \<le> ?n \<or> i = ?n + 1" for i
    using un by (auto simp: word_le_nat_alt word_unat_eq_iff)
  have fields: "address_to_index ?vs' = (address_to_index vs)(a := ?n + 1)"
    "index_to_address ?vs' = (index_to_address vs)(?n + 1 := a)"
    "ucast (validator_count ?vs') = ?n + 1"
    by (simp_all add: register_new_def write_consensus_pubkey_def emit_def Let_def new)
  have nz: "?n + 1 \<noteq> 0" using un by (metis add_is_0 one_neq_zero unat_0)
  have idx_ne: "i \<noteq> ?n + 1" if "i \<le> ?n" for i using that un by (auto simp: word_le_nat_alt)
  have old: "index_to_address vs i \<noteq> a" if "1 \<le> i" "i \<le> ?n" for i
    using inv fresh that by (auto simp: registry_inv_def registered_def)
  show "registered ?vs' = insert a (registered vs)"
    using nz by (auto simp: registered_def fields)
  have unused: "address_to_index vs b \<noteq> ?n + 1" for b
    using inv nz idx_ne unfolding registry_inv_def by metis
  show "registry_inv ?vs'"
    using inv fresh a old idx_ne unused
    by (auto simp: registry_inv_def fields le_new registered_def)
qed

lemma key_inv_register_new:
  assumes inv: "key_inv c vs" "registry_inv vs" and fresh: "a \<notin> registered vs" and a: "a \<noteq> 0"
    and len: "length pk = 48"
    and free: "consensus_pubkey_hash_to_address vs (keccak256 c pk) = 0"
    and reg: "registered (register_new c bn a pk vs) = insert a (registered vs)"
  shows "key_inv c (register_new c bn a pk vs)"
proof -
  let ?vs' = "register_new c bn a pk vs"
  have pk: "read_consensus_pubkey ?vs' b = (if b = a then pk else read_consensus_pubkey vs b)" for b
    using read_write_consensus_pubkey [OF len, of a vs b]
    by (simp add: register_new_def emit_def Let_def read_consensus_pubkey_def write_consensus_pubkey_def)
  have owner: "consensus_pubkey_hash_to_address ?vs'
      = (consensus_pubkey_hash_to_address vs)(keccak256 c pk := a)"
    by (simp add: register_new_def emit_def Let_def write_consensus_pubkey_def consensus_pubkey_hash_def)
  have other: "keccak256 c (read_consensus_pubkey vs b) \<noteq> keccak256 c pk" if "b \<in> registered vs" for b
    using inv that free zero_not_registered [OF inv(2)] by (auto simp: key_inv_def)
  show ?thesis
    unfolding key_inv_def reg pk owner
    using inv(1) fresh other by (auto simp: key_inv_def)
qed

lemma registry_reregister:
  "address_to_index (reregister c bn a pk vs) = address_to_index vs"
  "index_to_address (reregister c bn a pk vs) = index_to_address vs"
  "validator_count (reregister c bn a pk vs) = validator_count vs"
  by (simp_all add: reregister_def write_consensus_pubkey_def emit_def Let_def)

lemma registry_inv_reregister: "registry_inv (reregister c bn a pk vs) = registry_inv vs"
  by (simp add: registry_inv_def registry_reregister)

lemma registered_reregister: "registered (reregister c bn a pk vs) = registered vs"
  by (simp add: registered_def registry_reregister)

lemma key_inv_reregister:
  assumes inv: "key_inv c vs" and a: "a \<in> registered vs" and len: "length pk = 48"
    and free: "consensus_pubkey_hash_to_address vs (keccak256 c pk) \<in> {0, a}"
    and zero: "0 \<notin> registered vs"
  shows "key_inv c (reregister c bn a pk vs)"
proof -
  let ?vs' = "reregister c bn a pk vs"
  let ?old = "keccak256 c (read_consensus_pubkey vs a)"
  have pk: "read_consensus_pubkey ?vs' b = (if b = a then pk else read_consensus_pubkey vs b)" for b
    using read_write_consensus_pubkey [OF len, of a vs b]
    by (simp add: reregister_def emit_def Let_def read_consensus_pubkey_def write_consensus_pubkey_def)
  have owner: "consensus_pubkey_hash_to_address ?vs'
      = (consensus_pubkey_hash_to_address vs)(?old := 0, keccak256 c pk := a)"
    by (simp add: reregister_def emit_def Let_def write_consensus_pubkey_def consensus_pubkey_hash_def)
  have a0: "a \<noteq> 0" using a zero by auto
  have other: "keccak256 c (read_consensus_pubkey vs b) \<noteq> keccak256 c pk \<and>
      keccak256 c (read_consensus_pubkey vs b) \<noteq> ?old" if "b \<in> registered vs" "b \<noteq> a" for b
  proof -
    from inv that a have "consensus_pubkey_hash_to_address vs (keccak256 c (read_consensus_pubkey vs b)) = b"
      and "consensus_pubkey_hash_to_address vs ?old = a" by (simp_all add: key_inv_def)
    with that free zero show ?thesis by auto
  qed
  have only_old: "h = ?old" if "consensus_pubkey_hash_to_address vs h = a" for h
    using inv that a0 by (auto simp: key_inv_def)
  show ?thesis
    unfolding key_inv_def registered_reregister pk owner
    using inv a other only_old a0 by (auto simp: key_inv_def)
qed

lemma register_validator_with_sig_cases:
  assumes "register_validator_with_sig c bn caller a pk sig vs = Inr vs'"
  obtains (new) "a \<notin> registered vs" "vs' = register_new c bn a pk vs"
      "config_max_validators vs = 0 \<or> validator_count vs < config_max_validators vs"
    | (again) "a \<in> registered vs" "val_status vs a = INACTIVE" "vs' = reregister c bn a pk vs"
        "\<not> cooldown_running bn a vs"
proof -
  from assms show thesis
    by (auto simp: register_validator_with_sig_def and_then_eq_Inr Let_def registered_def not_le
        intro: that split: if_splits simp flip: word_neq_0_conv)
qed

lemma register_validator_with_sig_key:
  assumes "register_validator_with_sig c bn caller a pk sig vs = Inr vs'"
  shows "consensus_pubkey_hash_to_address vs (keccak256 c pk) \<in> {0, a}"
  using assms
  by (auto simp: register_validator_with_sig_def and_then_eq_Inr Let_def consensus_pubkey_hash_def
      split: if_splits)

lemma register_validator_keeps:
  assumes run: "register_validator_with_sig c bn caller a pk sig vs = Inr vs'"
    and inv: "registry_inv vs" "key_inv c vs" and a: "a \<noteq> 0" and len: "length pk = 48"
    and room: "unat (validator_count vs) + 1 < 2 ^ 32"
  shows "registry_inv vs' \<and> key_inv c vs' \<and> registered vs' = insert a (registered vs)"
proof -
  note key = register_validator_with_sig_key [OF run]
  from run show ?thesis
  proof (cases rule: register_validator_with_sig_cases)
    case new
    note reg = registry_inv_register_new [OF inv(1) new(1) a room]
    have "consensus_pubkey_hash_to_address vs (keccak256 c pk) = 0"
      using key_owner_free [OF inv(2) new(1) _ a, of "keccak256 c pk"] key by blast
    then have "key_inv c vs'"
      using key_inv_register_new [OF inv(2,1) new(1) a len _ reg(2)] new(2) by blast
    with reg new(2) show ?thesis by simp
  next
    case again
    then show ?thesis
      using inv(1) key_inv_reregister [OF inv(2) again(1) len key zero_not_registered [OF inv(1)]]
      by (auto simp: registry_inv_reregister registered_reregister)
  qed
qed

section \<open>Removal\<close>

lemma clear_validator_storage_fields:
  "address_to_index (clear_validator_storage c a vs) = address_to_index vs"
  "index_to_address (clear_validator_storage c a vs) = index_to_address vs"
  "consensus_pubkey_hash_to_address (clear_validator_storage c a vs) =
     (consensus_pubkey_hash_to_address vs)(keccak256 c (read_consensus_pubkey vs a) := 0)"
  "val_status (clear_validator_storage c a vs) = (val_status vs)(a := 0)"
  "val_stake (clear_validator_storage c a vs) = (val_stake vs)(a := 0)"
  "read_consensus_pubkey (clear_validator_storage c a vs) b =
     (if b = a then replicate 48 0 else read_consensus_pubkey vs b)"
  by (simp_all add: clear_validator_storage_def write_consensus_pubkey_def Let_def
      consensus_pubkey_hash_def read_consensus_pubkey_def take_replicate replicate_add [symmetric])

lemma swap_remove_fields:
  "index_to_address (swap_remove i a n vs) =
     (if i < n then (index_to_address vs)(i := index_to_address vs n) else index_to_address vs)(n := 0)"
  "address_to_index (swap_remove i a n vs) =
     (if i < n then (address_to_index vs)(index_to_address vs n := i) else address_to_index vs)(a := 0)"
  "consensus_pubkey_hash_to_address (swap_remove i a n vs) = consensus_pubkey_hash_to_address vs"
  "val_status (swap_remove i a n vs) = val_status vs"
  "val_stake (swap_remove i a n vs) = val_stake vs"
  "read_consensus_pubkey (swap_remove i a n vs) b = read_consensus_pubkey vs b"
  by (simp_all add: swap_remove_def Let_def read_consensus_pubkey_def)

text \<open>One removal, seen from a registry whose count is \<open>count\<close>.\<close>

definition remove_at :: "crypto \<Rightarrow> u64 \<Rightarrow> u32 \<Rightarrow> validator_set \<Rightarrow> validator_set" where
  "remove_at c i count vs =
     swap_remove i (index_to_address vs i) (ucast count)
       (clear_validator_storage c (index_to_address vs i) vs)"

definition registry_at :: "u32 \<Rightarrow> validator_set \<Rightarrow> bool" where
  "registry_at count vs \<longleftrightarrow> registry_inv (vs\<lparr>validator_count := count\<rparr>)"

lemma registered_count_upd [simp]: "registered (vs\<lparr>validator_count := n\<rparr>) = registered vs"
  by (simp add: registered_def)

lemma key_inv_count_upd [simp]: "key_inv c (vs\<lparr>validator_count := n\<rparr>) = key_inv c vs"
  by (simp add: key_inv_def read_consensus_pubkey_def)

lemma registry_at_index:
  assumes "registry_at count vs" and "1 \<le> i" and "i \<le> ucast count"
  shows "index_to_address vs i \<noteq> 0" and "address_to_index vs (index_to_address vs i) = i"
    and "index_to_address vs i \<in> registered vs"
  using assms by (auto simp: registry_at_def registry_inv_def registered_def)

lemma registry_at_address:
  assumes "registry_at count vs" and "a \<in> registered vs"
  shows "1 \<le> address_to_index vs a" and "address_to_index vs a \<le> ucast count"
    and "index_to_address vs (address_to_index vs a) = a"
proof -
  show "1 \<le> address_to_index vs a"
    using assms(2) by (simp add: registered_def word_le_nat_alt unat_eq_zero Suc_le_eq unat_gt_0)
qed (use assms in \<open>auto simp: registry_at_def registry_inv_def registered_def\<close>)

lemma ucast_pred_u32:
  assumes "1 \<le> (i :: u64)" and "i \<le> ucast (n :: u32)"
  shows "unat (n - 1) = unat n - 1" and "1 \<le> unat n"
    and "j \<le> ucast (n - 1) \<longleftrightarrow> j \<le> ucast n \<and> j \<noteq> (ucast n :: u64)"
proof -
  from assms show n: "1 \<le> unat n" by (simp add: word_le_nat_alt)
  then have "n \<noteq> 0" by auto
  then show pred: "unat (n - 1) = unat n - 1" by (rule unat_minus_one)
  show "j \<le> ucast (n - 1) \<longleftrightarrow> j \<le> ucast n \<and> j \<noteq> (ucast n :: u64)"
    using n pred by (auto simp: word_le_nat_alt word_unat_eq_iff)
qed

lemma registered_remove_at:
  assumes reg: "registry_at count vs" and i: "1 \<le> i" "i \<le> ucast count"
  shows "registered (remove_at c i count vs) = registered vs - {index_to_address vs i}"
proof -
  have i0: "i \<noteq> 0" using i(1) by auto
  have last: "index_to_address vs (ucast count) \<in> registered vs"
    by (rule registry_at_index(3) [OF reg]) (use i in auto)
  show ?thesis
    using i0 last
    by (auto simp: registered_def remove_at_def swap_remove_fields clear_validator_storage_fields)
qed

lemma registry_at_remove_at:
  assumes reg: "registry_at count vs" and i: "1 \<le> i" "i \<le> ucast count"
  shows "registry_at (count - 1) (remove_at c i count vs)"
proof -
  let ?n = "ucast count :: u64"
  let ?vs' = "remove_at c i count vs"
  note le = ucast_pred_u32(3) [OF i]
  note idx = registry_at_index [OF reg]
  have n1: "1 \<le> ?n" using i by (rule order_trans)
  have i_n: "i < ?n \<longleftrightarrow> i \<noteq> ?n" using i(2) by (simp add: order_less_le)
  have itoa: "index_to_address ?vs' j =
      (if j = ?n then 0 else if j = i then index_to_address vs ?n else index_to_address vs j)" for j
    by (simp add: remove_at_def swap_remove_fields clear_validator_storage_fields i_n)
  have atoi: "address_to_index ?vs' b =
      (if b = index_to_address vs i then 0
       else if b = index_to_address vs ?n then i else address_to_index vs b)" for b
    by (simp add: remove_at_def swap_remove_fields clear_validator_storage_fields i_n)
  have inj: "index_to_address vs j = index_to_address vs k \<longleftrightarrow> j = k"
    if "1 \<le> j" "j \<le> ?n" "1 \<le> k" "k \<le> ?n" for j k
    using idx(2) that by metis
  have "index_to_address ?vs' j \<noteq> 0 \<and> address_to_index ?vs' (index_to_address ?vs' j) = j"
    if j: "1 \<le> j" "j \<le> ucast (count - 1)" for j
  proof -
    from j le have jn: "j \<le> ?n" "j \<noteq> ?n" by simp_all
    show ?thesis
    proof (cases "j = i")
      case True
      with jn inj [of ?n i] i n1 idx(1) [of ?n] show ?thesis by (simp add: itoa atoi)
    next
      case False
      with jn j(1) inj [of j i] inj [of j ?n] i n1 idx(1,2) [of j] show ?thesis
        by (simp add: itoa atoi)
    qed
  qed
  moreover have "address_to_index ?vs' b \<le> ucast (count - 1) \<and>
      index_to_address ?vs' (address_to_index ?vs' b) = b"
    if b: "address_to_index ?vs' b \<noteq> 0" for b
  proof -
    from b have bi: "b \<noteq> index_to_address vs i" by (auto simp: atoi)
    show ?thesis
    proof (cases "b = index_to_address vs ?n")
      case True
      with bi have "i \<noteq> ?n" by auto
      with True bi i le show ?thesis by (simp add: atoi itoa)
    next
      case False
      with b bi have "b \<in> registered vs" by (simp add: atoi registered_def)
      note bb = registry_at_address [OF reg this]
      from False bb have "address_to_index vs b \<noteq> ?n" by auto
      moreover from bi bb have "address_to_index vs b \<noteq> i" by auto
      ultimately show ?thesis using False bi bb le by (simp add: atoi itoa)
    qed
  qed
  ultimately show ?thesis by (simp add: registry_at_def registry_inv_def)
qed

lemma key_inv_remove_at:
  assumes reg: "registry_at count vs" and key: "key_inv c vs" and i: "1 \<le> i" "i \<le> ucast count"
  shows "key_inv c (remove_at c i count vs)"
proof -
  let ?a = "index_to_address vs i"
  let ?k = "\<lambda>b. keccak256 c (read_consensus_pubkey vs b)"
  have a: "?a \<in> registered vs" by (rule registry_at_index(3) [OF reg i])
  have owner: "consensus_pubkey_hash_to_address (remove_at c i count vs)
      = (consensus_pubkey_hash_to_address vs)(?k ?a := 0)"
    by (simp add: remove_at_def swap_remove_fields clear_validator_storage_fields)
  have pk: "read_consensus_pubkey (remove_at c i count vs) b
      = (if b = ?a then replicate 48 0 else read_consensus_pubkey vs b)" for b
    by (simp add: remove_at_def swap_remove_fields clear_validator_storage_fields)
  have k: "consensus_pubkey_hash_to_address vs (?k b) = b" if "b \<in> registered vs" for b
    using key that by (simp add: key_inv_def)
  have distinct_key: "?k b \<noteq> ?k ?a" if "b \<in> registered vs" "b \<noteq> ?a" for b
    using k [OF that(1)] k [OF a] that(2) by metis
  have "consensus_pubkey_hash_to_address vs h \<noteq> ?a" if "h \<noteq> ?k ?a"
      "consensus_pubkey_hash_to_address vs h \<noteq> 0" for h
    using key that by (auto simp: key_inv_def)
  then show ?thesis
    unfolding key_inv_def owner pk registered_remove_at [OF reg i]
    using k distinct_key key by (auto simp: key_inv_def)
qed

lemma get_validator_remove_at:
  assumes reg: "registry_at count vs" and i: "1 \<le> i" "i \<le> ucast count"
    and b: "b \<in> registered vs" "b \<noteq> index_to_address vs i"
  shows "get_validator (remove_at c i count vs) b = get_validator vs b"
proof -
  from registered_remove_at [OF reg i, of c] b
  have "address_to_index (remove_at c i count vs) b \<noteq> 0" "address_to_index vs b \<noteq> 0"
    by (auto simp: registered_def)
  then show ?thesis using b(2)
    by (simp add: get_validator_def remove_at_def swap_remove_def clear_validator_storage_def
        write_consensus_pubkey_def read_consensus_pubkey_def Let_def)
qed

text \<open>
  What the loop has achieved between two visits: \<open>count\<close> and \<open>removed\<close> account for each
  other, only inactive entries are gone, the rest is as it was, and everything below the
  cursor is known not to be inactive.
\<close>

definition cleanup_post :: "crypto \<Rightarrow> u32 \<Rightarrow> validator_set \<Rightarrow> u32 \<Rightarrow> u32 \<Rightarrow> validator_set \<Rightarrow> bool" where
  "cleanup_post c K vs count removed vs' \<longleftrightarrow>
     registry_at count vs' \<and> key_inv c vs' \<and>
     unat removed + unat count = unat K \<and>
     registered vs' \<subseteq> registered vs \<and>
     (\<forall>a \<in> registered vs - registered vs'. val_status vs a = INACTIVE) \<and>
     (\<forall>a \<in> registered vs'. get_validator vs' a = get_validator vs a)"

lemma get_validator_eq_status:
  "get_validator vs' a = get_validator vs a \<Longrightarrow> a \<in> registered vs' \<Longrightarrow>
     val_status vs' a = val_status vs a"
  by (auto simp: get_validator_def registered_def split: if_splits)

lemma cleanup_post_step:
  assumes post: "cleanup_post c K vs0 count removed vs"
    and i: "1 \<le> i" "i \<le> ucast count" and st: "val_status vs (index_to_address vs i) = INACTIVE"
  shows "cleanup_post c K vs0 (count - 1) (removed + 1) (remove_at c i count vs)"
proof -
  let ?a = "index_to_address vs i"
  from post have reg: "registry_at count vs" and key: "key_inv c vs"
    and sum: "unat removed + unat count = unat K" and sub: "registered vs \<subseteq> registered vs0"
    and gone: "\<And>a. a \<in> registered vs0 \<Longrightarrow> a \<notin> registered vs \<Longrightarrow> val_status vs0 a = INACTIVE"
    and same: "\<And>a. a \<in> registered vs \<Longrightarrow> get_validator vs a = get_validator vs0 a"
    by (auto simp: cleanup_post_def)
  note pred = ucast_pred_u32 [OF i]
  have a: "?a \<in> registered vs" by (rule registry_at_index(3) [OF reg i])
  have st0: "val_status vs0 ?a = INACTIVE"
    using get_validator_eq_status [OF same [OF a] a] st by simp
  have "unat removed + 1 < 2 ^ 32"
    using sum pred(2) unat_lt_2p [of K] by simp
  then have cnt: "unat (removed + 1) + unat (count - 1) = unat K"
    using sum pred by (simp add: unat_add_exact)
  note reg' = registered_remove_at [OF reg i, of c]
  show ?thesis
    unfolding cleanup_post_def reg'
    using registry_at_remove_at [OF reg i, of c] key_inv_remove_at [OF reg key i] cnt sub gone st0
      same get_validator_remove_at [OF reg i]
    by auto
qed

definition cleanup_low :: "u64 \<Rightarrow> u32 \<Rightarrow> validator_set \<Rightarrow> bool" where
  "cleanup_low i count vs \<longleftrightarrow>
     (\<forall>j. 1 \<le> j \<and> j < i \<and> j \<le> ucast count \<longrightarrow> val_status vs (index_to_address vs j) \<noteq> INACTIVE)"

definition cleanup_done ::
  "crypto \<Rightarrow> u32 \<Rightarrow> validator_set \<Rightarrow> u32 \<Rightarrow> (u32 \<times> u32 \<times> validator_set) option \<Rightarrow> bool" where
  "cleanup_done c K vs0 m res \<longleftrightarrow>
     (\<exists>count removed vs. res = Some (count, removed, vs) \<and>
        cleanup_post c K vs0 count removed vs \<and> (0 < m \<longrightarrow> removed \<le> m) \<and>
        (m = 0 \<or> removed < m \<longrightarrow> (\<forall>a \<in> registered vs. val_status vs a \<noteq> INACTIVE)))"

lemma unat_cursor_next: "(i :: u64) \<le> ucast (count :: u32) \<Longrightarrow> unat (i + 1) = unat i + 1"
  using unat_lt_2p [of count] by (simp add: word_le_nat_alt unat_add_exact)

lemma cleanup_low_next:
  assumes "cleanup_low i count vs" and "i \<le> ucast count"
    and "val_status vs (index_to_address vs i) \<noteq> INACTIVE"
  shows "cleanup_low (i + 1) count vs"
proof -
  have "j < i + 1 \<longleftrightarrow> j < i \<or> j = i" for j
    using unat_cursor_next [OF assms(2)] by (auto simp: word_less_nat_alt word_unat_eq_iff)
  with assms(1,3) show ?thesis by (auto simp: cleanup_low_def)
qed

lemma cleanup_low_remove:
  assumes "cleanup_low i count vs" and reg: "registry_at count vs" and i: "1 \<le> i" "i \<le> ucast count"
  shows "cleanup_low i (count - 1) (remove_at c i count vs)"
  unfolding cleanup_low_def
proof (intro allI impI)
  fix j assume j: "1 \<le> j \<and> j < i \<and> j \<le> ucast (count - 1)"
  then have jn: "j \<le> ucast count" "j \<noteq> ucast count" "j \<noteq> i" "1 \<le> j"
    using ucast_pred_u32(3) [OF i] by auto
  have "index_to_address vs j \<noteq> index_to_address vs i"
    using registry_at_index(2) [OF reg jn(4,1)] registry_at_index(2) [OF reg i] jn(3) by metis
  with assms(1) j jn
  show "val_status (remove_at c i count vs) (index_to_address (remove_at c i count vs) j) \<noteq> INACTIVE"
    by (simp add: cleanup_low_def remove_at_def swap_remove_fields clear_validator_storage_fields)
qed

lemma cleanup_done_exit:
  assumes post: "cleanup_post c K vs0 count removed vs" and cap: "0 < m \<Longrightarrow> removed \<le> m"
    and low: "cleanup_low i count vs" and stop: "\<not> i \<le> ucast count \<or> (0 < m \<and> m \<le> removed)"
  shows "cleanup_done c K vs0 m (Some (count, removed, vs))"
proof -
  have reg: "registry_at count vs" using post by (simp add: cleanup_post_def)
  have "val_status vs a \<noteq> INACTIVE" if "m = 0 \<or> removed < m" "a \<in> registered vs" for a
  proof -
    from stop that(1) have "ucast count < i" by auto
    then show ?thesis
      using low registry_at_address [OF reg that(2)] by (fastforce simp: cleanup_low_def)
  qed
  with post cap show ?thesis by (auto simp: cleanup_done_def)
qed

lemma cleanup_loop_correct:
  assumes "cleanup_post c K vs0 count removed vs" and "1 \<le> i"
    and "0 < m \<Longrightarrow> removed \<le> m" and "cleanup_low i count vs"
  shows "cleanup_done c K vs0 m (cleanup_loop c m i count removed vs)"
  using assms
proof (induction "Suc (unat count) - unat i" arbitrary: i count removed vs rule: less_induct)
  case less
  note post = less.prems(1) and i1 = less.prems(2) and cap = less.prems(3) and low = less.prems(4)
  from post have reg: "registry_at count vs" by (simp add: cleanup_post_def)
  show ?case
  proof (cases "\<not> i \<le> ucast count \<or> (0 < m \<and> m \<le> removed)")
    case True
    with cleanup_done_exit [OF post cap low] show ?thesis by (subst cleanup_loop.simps) simp
  next
    case False
    then have i: "i \<le> ucast count" by simp
    note iw = unat_cursor_next [OF i] and pred = ucast_pred_u32 [OF i1 i]
    show ?thesis
    proof (cases "index_to_address vs i = 0 \<or> val_status vs (index_to_address vs i) \<noteq> INACTIVE")
      case True
      with registry_at_index(1) [OF reg i1 i] cleanup_low_next [OF low i]
      have "cleanup_low (i + 1) count vs" by blast
      then have "cleanup_done c K vs0 m (cleanup_loop c m (i + 1) count removed vs)"
        using post cap i iw by (intro less.hyps) (simp_all add: word_le_nat_alt)
      with True False show ?thesis by (subst cleanup_loop.simps) auto
    next
      case inact: False
      then have post': "cleanup_post c K vs0 (count - 1) (removed + 1) (remove_at c i count vs)"
        by (intro cleanup_post_step [OF post i1 i]) simp
      have "unat (removed + 1) = unat removed + 1"
        using post pred(2) unat_lt_2p [of K] by (simp add: cleanup_post_def unat_add_exact)
      then have "removed + 1 \<le> m" if "0 < m" using False that by (auto simp: word_le_nat_alt)
      then have "cleanup_done c K vs0 m
          (cleanup_loop c m i (count - 1) (removed + 1) (remove_at c i count vs))"
        using post' i1 cleanup_low_remove [OF low reg i1 i] i pred
        by (intro less.hyps) (simp_all add: word_le_nat_alt)
      with inact False show ?thesis by (subst cleanup_loop.simps) (auto simp: remove_at_def)
    qed
  qed
qed


section \<open>Properties\<close>

text \<open>A fresh contract: every storage slot reads zero.\<close>

definition empty_validator_set :: validator_set where
  "empty_validator_set =
     \<lparr>config_owner = 0, config_max_validators = 0, config_epoch_length_blocks = 0,
      config_is_initialized = False,
      val_consensus_pubkey_lo = (\<lambda>_. B256_ZERO), val_consensus_pubkey_hi = (\<lambda>_. B256_ZERO),
      val_stake = (\<lambda>_. 0), val_status = (\<lambda>_. 0), val_slash_count = (\<lambda>_. 0),
      val_missed_blocks = (\<lambda>_. 0), val_missed_votes = (\<lambda>_. 0), val_blocks_proposed = (\<lambda>_. 0),
      val_joined_at_height = (\<lambda>_. 0), val_deactivated_at_height = (\<lambda>_. 0),
      val_unbonding_end = (\<lambda>_. 0), address_to_index = (\<lambda>_. 0), index_to_address = (\<lambda>_. 0),
      consensus_pubkey_hash_to_address = (\<lambda>_. 0), validator_count = 0, epoch_number = 0,
      epoch_start_timestamp = 0, epoch_start_block = 0, val_has_bls_share = (\<lambda>_. False),
      pending_set_change = False, active_consensus_set_hash = B256_ZERO,
      config_reregistration_cooldown = 0, val_p2p_address_version = (\<lambda>_. 0),
      val_p2p_address_payload = (\<lambda>_. []), finalized_participation_recorded = (\<lambda>_. False),
      val_join_confirmed = (\<lambda>_. False), config_unjail_cooldown_blocks = 0,
      val_jailed_at_height = (\<lambda>_. 0), finalized_participation_ring = (\<lambda>_. B256_ZERO),
      finalized_participation_ring_seq = 0, vs_events = []\<rparr>"

lemma registry_inv_empty: "registry_inv empty_validator_set"
  by (auto simp: registry_inv_def empty_validator_set_def)

lemma key_inv_empty: "key_inv c empty_validator_set"
  by (auto simp: key_inv_def empty_validator_set_def registered_def)

lemma registered_empty: "registered empty_validator_set = {}"
  by (simp add: registered_def empty_validator_set_def)

text \<open>A concrete instance of the libraries, for the witnesses.\<close>

definition test_crypto :: crypto where
  "test_crypto =
     \<lparr>keccak256 = (\<lambda>bs. bs), bls_public_key_from_bytes = (\<lambda>_. True),
      bls_signature_from_bytes = (\<lambda>_. True), bls_verify = (\<lambda>_ _ _. True)\<rparr>"

text \<open>
  C19. A successful registration keeps the registry and the key map consistent and registers
  exactly the given address; in particular a consensus key never ends up with two owners.
\<close>

theorem register_validator_invariant:
  assumes "register_validator_with_sig c bn caller a pk sig vs = Inr vs'"
    and "registry_inv vs" and "key_inv c vs" and "a \<noteq> 0" and "length pk = 48"
    and "unat (validator_count vs) + 1 < 2 ^ 32"
  shows "registry_inv vs' \<and> key_inv c vs' \<and> registered vs' = insert a (registered vs) \<and>
    (\<forall>b \<in> registered vs'. \<forall>b' \<in> registered vs'.
       read_consensus_pubkey vs' b = read_consensus_pubkey vs' b' \<longrightarrow> b = b')"
proof -
  have keeps: "registry_inv vs' \<and> key_inv c vs' \<and> registered vs' = insert a (registered vs)"
    by (rule register_validator_keeps [OF assms])
  then have "b = b'" if "b \<in> registered vs'" "b' \<in> registered vs'"
      "read_consensus_pubkey vs' b = read_consensus_pubkey vs' b'" for b b'
    using that unfolding key_inv_def by metis
  with keeps show ?thesis by blast
qed

definition one_validator :: validator_set where
  "one_validator = register_new test_crypto 7 5 (replicate 48 1) empty_validator_set"

theorem register_validator_invariant_witness:
  "register_validator_with_sig test_crypto 7 0 5 (replicate 48 1) None empty_validator_set
     = Inr one_validator \<and>
   registry_inv one_validator \<and> registered one_validator = {5}"
proof -
  have run: "register_validator_with_sig test_crypto 7 0 5 (replicate 48 1) None empty_validator_set
      = Inr one_validator"
    by (simp add: register_validator_with_sig_def check_registration_sig_def one_validator_def
        empty_validator_set_def)
  have "unat (validator_count empty_validator_set) + 1 < 2 ^ 32"
    by (simp add: empty_validator_set_def)
  from register_validator_invariant [OF run registry_inv_empty key_inv_empty _ _ this]
  show ?thesis using run by (simp add: registered_empty)
qed

lemma cleanup_result:
  assumes "registry_inv vs" and "key_inv c vs"
  obtains count removed vs1 where
    "cleanup_inactive_validators c m vs = Inr (removed, vs1\<lparr>validator_count := count\<rparr>)"
    and "cleanup_post c (validator_count vs) vs count removed vs1"
    and "0 < m \<longrightarrow> removed \<le> m"
    and "m = 0 \<or> removed < m \<longrightarrow> (\<forall>a \<in> registered vs1. val_status vs1 a \<noteq> INACTIVE)"
proof -
  have "cleanup_post c (validator_count vs) vs (validator_count vs) 0 vs"
    using assms by (simp add: cleanup_post_def registry_at_def)
  moreover have "cleanup_low 1 (validator_count vs) vs"
    by (auto simp: cleanup_low_def)
  ultimately have "cleanup_done c (validator_count vs) vs m
      (cleanup_loop c m 1 (validator_count vs) 0 vs)"
    by (intro cleanup_loop_correct) simp_all
  then show ?thesis
    by (auto simp: cleanup_done_def cleanup_inactive_validators_def intro: that)
qed

lemma cleanup_post_final:
  assumes "cleanup_post c (validator_count vs) vs count removed vs1"
  defines "vs' \<equiv> vs1\<lparr>validator_count := count\<rparr>"
  shows "registry_inv vs'" "key_inv c vs'" "registered vs' \<subseteq> registered vs"
    "unat removed + unat (validator_count vs') = unat (validator_count vs)"
    "a \<in> registered vs - registered vs' \<Longrightarrow> val_status vs a = INACTIVE"
    "a \<in> registered vs' \<Longrightarrow> get_validator vs' a = get_validator vs a"
    "registered vs' = registered vs1" "val_status vs' = val_status vs1"
proof -
  have "get_validator vs' a = get_validator vs1 a" for a
    by (simp add: vs'_def get_validator_def read_consensus_pubkey_def)
  moreover have "registered vs' = registered vs1" by (simp add: vs'_def registered_def)
  moreover have "key_inv c vs' = key_inv c vs1"
    by (simp add: vs'_def key_inv_def registered_def read_consensus_pubkey_def)
  ultimately show "registry_inv vs'" "key_inv c vs'" "registered vs' \<subseteq> registered vs"
    "unat removed + unat (validator_count vs') = unat (validator_count vs)"
    "a \<in> registered vs - registered vs' \<Longrightarrow> val_status vs a = INACTIVE"
    "a \<in> registered vs' \<Longrightarrow> get_validator vs' a = get_validator vs a"
    "registered vs' = registered vs1" "val_status vs' = val_status vs1"
    using assms unfolding cleanup_post_def registry_at_def by auto
qed

text \<open>
  C18. The epoch cleanup always returns, and from a consistent registry it removes only
  \<open>INACTIVE\<close> validators, at most \<open>m\<close> of them when \<open>m > 0\<close>, all of them when the cap is not
  reached; the count it reports is the number removed, every other validator's record is
  unchanged and the registry and key map stay consistent.
\<close>

theorem cleanup_inactive_validators_correct:
  assumes "registry_inv vs" and "key_inv c vs"
  shows "\<exists>removed vs'. cleanup_inactive_validators c m vs = Inr (removed, vs') \<and>
    registry_inv vs' \<and> key_inv c vs' \<and>
    unat removed + unat (validator_count vs') = unat (validator_count vs) \<and>
    registered vs' \<subseteq> registered vs \<and>
    (\<forall>a \<in> registered vs - registered vs'. val_status vs a = INACTIVE) \<and>
    (\<forall>a \<in> registered vs'. get_validator vs' a = get_validator vs a) \<and>
    (0 < m \<longrightarrow> removed \<le> m) \<and>
    (m = 0 \<or> removed < m \<longrightarrow> (\<forall>a \<in> registered vs'. val_status vs' a \<noteq> INACTIVE))"
proof (rule cleanup_result [OF assms, of m])
  fix count removed vs1
  assume run: "cleanup_inactive_validators c m vs = Inr (removed, vs1\<lparr>validator_count := count\<rparr>)"
    and post: "cleanup_post c (validator_count vs) vs count removed vs1"
    and "0 < m \<longrightarrow> removed \<le> m"
    and "m = 0 \<or> removed < m \<longrightarrow> (\<forall>a \<in> registered vs1. val_status vs1 a \<noteq> INACTIVE)"
  with cleanup_post_final [OF post] show ?thesis
    by (intro exI [of _ removed] exI [of _ "vs1\<lparr>validator_count := count\<rparr>"]) simp
qed

lemma one_validator_inv:
  "registry_inv one_validator" "key_inv test_crypto one_validator" "registered one_validator = {5}"
proof -
  have run: "register_validator_with_sig test_crypto 7 0 5 (replicate 48 1) None empty_validator_set
      = Inr one_validator"
    by (simp add: register_validator_with_sig_def check_registration_sig_def one_validator_def
        empty_validator_set_def)
  have "unat (validator_count empty_validator_set) + 1 < 2 ^ 32"
    by (simp add: empty_validator_set_def)
  then show "registry_inv one_validator" "key_inv test_crypto one_validator"
      "registered one_validator = {5}"
    using register_validator_keeps [OF run registry_inv_empty key_inv_empty]
    by (simp_all add: registered_empty)
qed

definition one_inactive :: validator_set where
  "one_inactive = one_validator\<lparr>val_status := (val_status one_validator)(5 := INACTIVE)\<rparr>"

lemma one_inactive_inv:
  "registry_inv one_inactive" "key_inv test_crypto one_inactive" "registered one_inactive = {5}"
proof -
  have same: "same_registry one_validator one_inactive"
    by (simp add: same_registry_def one_inactive_def)
  show "registry_inv one_inactive" "key_inv test_crypto one_inactive" "registered one_inactive = {5}"
    using one_validator_inv same_registry_inv [OF same] same_registry_key_inv [OF same]
      same_registry_registered [OF same] by simp_all
qed

theorem cleanup_inactive_validators_correct_witness:
  "\<exists>removed vs'. cleanup_inactive_validators test_crypto 16 one_inactive = Inr (removed, vs') \<and>
     removed \<le> 16 \<and> registry_inv vs' \<and> registered vs' \<subseteq> {5}"
  using cleanup_inactive_validators_correct [OF one_inactive_inv(1,2), of 16]
  by (auto simp: one_inactive_inv(3))

end
