(* ===== verification/Staking.thy ===== *)
theory Staking
  imports Validator_Registry
begin

text \<open>
  The staking contract (\<^verbatim>\<open>crates/system/staking/src/contract.rs\<close>, \<^verbatim>\<open>logic.rs\<close>) over the
  native balances (\<open>transfer_balance\<close> and \<open>decrease_balance\<close> of
  \<^verbatim>\<open>crates/blockchain/primitives/src/storage/direct.rs\<close>) and the validator set it calls.
  An operation that fails leaves no trace: the precompile call is reverted as a whole, so
  the error carries no state. \<open>ts\<close> is the block timestamp, \<open>bn\<close> the block number.

  Loops over the per-validator lists follow stored pointers and may not end on a
  corrupted list; they are \<^theory_text>\<open>partial_function (option)\<close>, and \<open>NonTermination\<close> is
  returned for them.
\<close>

section \<open>State\<close>

definition STAKING_ADDRESS :: address where
  "STAKING_ADDRESS = 0xEE02"

record staking =
  config_min_stake :: u256
  config_unbonding_period :: u64
  config_max_stake_percent :: u64
  stake_amount :: "address \<Rightarrow> u256"
  total_staked :: u256
  unbonding_count :: u32
  unbonding_validator :: "u32 \<Rightarrow> address"
  unbonding_amount :: "u32 \<Rightarrow> u256"
  unbonding_complete_time :: "u32 \<Rightarrow> u64"
  per_val_unbonding_head :: "address \<Rightarrow> u32"
  unbonding_next :: "u32 \<Rightarrow> u32"
  config_slashed_withdrawal_delay :: u64

text \<open>
  The part of the chain state staking works on. The operations are polymorphic in the rest
  of the record, so that later contracts extend it.
\<close>

record world =
  balances :: "address \<Rightarrow> u256"
  vset :: validator_set
  stk :: staking

section \<open>Native balances\<close>

definition transfer_balance ::
  "address \<Rightarrow> address \<Rightarrow> u256 \<Rightarrow> 'a world_scheme \<Rightarrow> 'a world_scheme result" where
  "transfer_balance from to amount w =
     (if amount = 0 then Inr w
      else if from = to then Inr w
      else if balances w from < amount then Inl (Fatal ''insufficient balance'')
      else Inr (w\<lparr>balances :=
             (balances w)(from := balances w from - amount, to := balances w to + amount)\<rparr>))"

definition increase_balance ::
  "address \<Rightarrow> u256 \<Rightarrow> 'a world_scheme \<Rightarrow> 'a world_scheme result" where
  "increase_balance a amount w =
     (if amount = 0 then Inr w
      else Inr (w\<lparr>balances := (balances w)(a := balances w a + amount)\<rparr>))"

definition decrease_balance ::
  "address \<Rightarrow> u256 \<Rightarrow> 'a world_scheme \<Rightarrow> 'a world_scheme result" where
  "decrease_balance a amount w =
     (if amount = 0 then Inr w
      else if balances w a < amount then Inl (Fatal ''insufficient balance for burn'')
      else Inr (w\<lparr>balances := (balances w)(a := balances w a - amount)\<rparr>))"

section \<open>Stake\<close>

text \<open>The cross-call both paths of \<open>stake\<close> end with.\<close>

definition credit_stake ::
  "address \<Rightarrow> u256 \<Rightarrow> 'a world_scheme \<Rightarrow> 'a world_scheme result" where
  "credit_stake v new_stake w =
     (let vs = vset w;
          vs = vs\<lparr>val_stake := (val_stake vs)(v := new_stake)\<rparr>
      in if is_validator vs v \<and> config_min_stake (stk w) \<le> new_stake \<and> val_status vs v = REGISTERED
         then and_then (mark_pending v vs) (\<lambda>vs. Inr (w\<lparr>vset := vs\<rparr>))
         else Inr (w\<lparr>vset := vs\<rparr>))"

definition stake ::
  "address \<Rightarrow> address \<Rightarrow> u256 \<Rightarrow> 'a world_scheme \<Rightarrow> 'a world_scheme result" where
  "stake caller v amount w =
     (if amount = 0 then Inl (Revert ''amount must be non-zero'')
      else if caller \<noteq> v
      then Inl (Revert ''third-party staking not supported: caller must be validator'')
      else
        let s = stk w;
            new_stake = stake_amount s v + amount;
            max_pct = config_max_stake_percent s;
            total = total_staked s
        in if 0 < max_pct \<and> max_pct < 100 \<and> total = 0
           then credit_stake v new_stake
                  (w\<lparr>stk := s\<lparr>stake_amount := (stake_amount s)(v := new_stake),
                              total_staked := amount\<rparr>\<rparr>)
           else if 0 < max_pct \<and> max_pct < 100
                   \<and> ucast max_pct * (total + amount) < new_stake * 100
           then Inl (Revert ''stake would exceed max_stake_percent'')
           else credit_stake v new_stake
                  (w\<lparr>stk := s\<lparr>stake_amount := (stake_amount s)(v := new_stake),
                              total_staked := total + amount\<rparr>\<rparr>))"

section \<open>The unbonding queue\<close>

definition checked_complete_time :: "u64 \<Rightarrow> u64 \<Rightarrow> u64 result" where
  "checked_complete_time ts period =
     (case checked_add ts period of
        Some t \<Rightarrow> Inr t
      | None \<Rightarrow> Inl (Revert ''unbonding completion timestamp overflow''))"

definition slashed_withdrawal_delay :: "staking \<Rightarrow> u64 result" where
  "slashed_withdrawal_delay s =
     (if 0 < config_slashed_withdrawal_delay s then Inr (config_slashed_withdrawal_delay s)
      else case checked_mul (config_unbonding_period s) 2 of
             Some d \<Rightarrow> Inr d
           | None \<Rightarrow> Inl (Revert ''slashed withdrawal delay overflow''))"

text \<open>Pointers are stored as index plus one; zero ends a list.\<close>

definition enqueue_unbonding :: "address \<Rightarrow> u256 \<Rightarrow> u64 \<Rightarrow> staking \<Rightarrow> staking" where
  "enqueue_unbonding v amount complete_time s =
     (if amount = 0 then s
      else
        let idx = unbonding_count s
        in s\<lparr>unbonding_validator := (unbonding_validator s)(idx := v),
             unbonding_amount := (unbonding_amount s)(idx := amount),
             unbonding_complete_time := (unbonding_complete_time s)(idx := complete_time),
             unbonding_count := idx + 1,
             unbonding_next := (unbonding_next s)(idx := per_val_unbonding_head s v),
             per_val_unbonding_head := (per_val_unbonding_head s)(v := idx + 1)\<rparr>)"

partial_function (option) pending_loop :: "staking \<Rightarrow> u32 \<Rightarrow> bool option" where
  "pending_loop s cur =
     (if cur = 0 then Some False
      else if unbonding_amount s (cur - 1) \<noteq> 0 then Some True
      else pending_loop s (unbonding_next s (cur - 1)))"

definition has_pending_unbonding :: "address \<Rightarrow> staking \<Rightarrow> bool result" where
  "has_pending_unbonding v s =
     (case pending_loop s (per_val_unbonding_head s v) of
        None \<Rightarrow> Inl NonTermination
      | Some b \<Rightarrow> Inr b)"

definition finalize_inactive_if_complete ::
  "address \<Rightarrow> 'a world_scheme \<Rightarrow> 'a world_scheme result" where
  "finalize_inactive_if_complete v w =
     (let vs = vset w
      in if \<not> is_validator vs v then Inr w
         else if val_status vs v = UNBONDING \<and> stake_amount (stk w) v = 0
         then and_then (has_pending_unbonding v (stk w)) (\<lambda>pending.
           if pending then Inr w
           else Inr (w\<lparr>vset := vs
             \<lparr>val_status := (val_status vs)(v := INACTIVE),
              val_unbonding_end := (val_unbonding_end vs)(v := 0),
              val_has_bls_share := (val_has_bls_share vs)(v := False)\<rparr>\<rparr>))
         else Inr w)"

section \<open>Unstake and unjail\<close>

text \<open>The status changes of a validator whose own withdrawal takes it below the minimum.\<close>

definition unstake_status :: "u64 \<Rightarrow> address \<Rightarrow> bool \<Rightarrow> validator_set \<Rightarrow> validator_set" where
  "unstake_status bn v below vs =
     (if \<not> is_validator vs v then vs
      else if below \<and> val_status vs v = ACTIVE
      then vs\<lparr>val_status := (val_status vs)(v := EXITING),
              val_deactivated_at_height := (val_deactivated_at_height vs)(v := bn),
              pending_set_change := True\<rparr>
      else if below \<and> val_status vs v = PENDING
      then vs\<lparr>val_status := (val_status vs)(v := REGISTERED), pending_set_change := True\<rparr>
      else if below \<and> val_status vs v = JAILED
      then vs\<lparr>val_status := (val_status vs)(v := EXITING),
              val_deactivated_at_height := (val_deactivated_at_height vs)(v := bn),
              val_jailed_at_height := (val_jailed_at_height vs)(v := 0),
              pending_set_change := True\<rparr>
      else vs)"

definition unstake ::
  "u64 \<Rightarrow> u64 \<Rightarrow> address \<Rightarrow> u256 \<Rightarrow> 'a world_scheme \<Rightarrow> 'a world_scheme result" where
  "unstake bn ts caller amount w =
     (if amount = 0 then Inl (Revert ''amount must be non-zero'')
      else
        let s = stk w; vs = vset w; current = stake_amount s caller
        in if current < amount then Inl (Revert ''insufficient staked amount'')
           else
             let new_stake = current - amount;
                 s = s\<lparr>stake_amount := (stake_amount s)(caller := new_stake),
                       total_staked := total_staked s - amount\<rparr>;
                 vs = vs\<lparr>val_stake := (val_stake vs)(caller := new_stake)\<rparr>;
                 vs = unstake_status bn caller (new_stake < config_min_stake s) vs
             in and_then (checked_complete_time ts (config_unbonding_period s)) (\<lambda>complete_time.
                  let s = enqueue_unbonding caller amount complete_time s;
                      vs = vs\<lparr>val_unbonding_end := (val_unbonding_end vs)(caller := complete_time)\<rparr>
                  in Inr (w\<lparr>stk := s, vset := vs\<rparr>)))"

definition unjail_validator ::
  "u64 \<Rightarrow> address \<Rightarrow> 'a world_scheme \<Rightarrow> 'a world_scheme result" where
  "unjail_validator bn caller w =
     (if stake_amount (stk w) caller < config_min_stake (stk w)
      then Inl (Revert ''unjailValidator requires stake >= min_stake'')
      else and_then (unjail_to_pending bn caller (vset w)) (\<lambda>vs. Inr (w\<lparr>vset := vs\<rparr>)))"

section \<open>Claim\<close>

text \<open>
  The walk of \<open>claim_unbonded\<close>: mature entries are zeroed and summed, the others are linked
  up again. The result is the storage, the claimable total, the new head and the last
  pending entry.
\<close>

definition zero_entry :: "u32 \<Rightarrow> staking \<Rightarrow> staking" where
  "zero_entry idx s =
     s\<lparr>unbonding_validator := (unbonding_validator s)(idx := 0),
       unbonding_amount := (unbonding_amount s)(idx := 0),
       unbonding_complete_time := (unbonding_complete_time s)(idx := 0),
       unbonding_next := (unbonding_next s)(idx := 0)\<rparr>"

definition link_entry :: "u32 \<Rightarrow> u32 \<Rightarrow> staking \<Rightarrow> staking" where
  "link_entry tail cur s = s\<lparr>unbonding_next := (unbonding_next s)(tail - 1 := cur)\<rparr>"

partial_function (option) claim_loop ::
  "u64 \<Rightarrow> u32 \<Rightarrow> u256 \<Rightarrow> u32 \<Rightarrow> u32 \<Rightarrow> staking \<Rightarrow> (staking \<times> u256 \<times> u32 \<times> u32) option" where
  "claim_loop ts cur claimable new_head tail s =
     (if cur = 0 then Some (s, claimable, new_head, tail)
      else if unbonding_complete_time s (cur - 1) \<le> ts
      then claim_loop ts (unbonding_next s (cur - 1)) (claimable + unbonding_amount s (cur - 1))
             new_head tail (zero_entry (cur - 1) s)
      else if new_head = 0
      then claim_loop ts (unbonding_next s (cur - 1)) claimable cur cur s
      else claim_loop ts (unbonding_next s (cur - 1)) claimable new_head cur (link_entry tail cur s))"

text \<open>The end of the walk: terminate the rebuilt list, store its head, pay out.\<close>

definition finish_claim :: "address \<Rightarrow> u32 \<Rightarrow> u32 \<Rightarrow> staking \<Rightarrow> staking" where
  "finish_claim caller new_head tail s =
     (let s = (if tail \<noteq> 0 then link_entry tail 0 s else s)
      in s\<lparr>per_val_unbonding_head := (per_val_unbonding_head s)(caller := new_head)\<rparr>)"

definition payout :: "address \<Rightarrow> u256 \<Rightarrow> 'a world_scheme \<Rightarrow> 'a world_scheme result" where
  "payout caller claimable w =
     (if claimable \<noteq> 0 then transfer_balance STAKING_ADDRESS caller claimable w else Inr w)"

definition claim_unbonded ::
  "u64 \<Rightarrow> address \<Rightarrow> 'a world_scheme \<Rightarrow> 'a world_scheme result" where
  "claim_unbonded ts caller w =
     (case claim_loop ts (per_val_unbonding_head (stk w) caller) 0 0 0 (stk w) of
        None \<Rightarrow> Inl NonTermination
      | Some (s, claimable, new_head, tail) \<Rightarrow>
          and_then (payout caller claimable (w\<lparr>stk := finish_claim caller new_head tail s\<rparr>))
            (finalize_inactive_if_complete caller))"

section \<open>Slash\<close>

definition percent_of :: "u256 \<Rightarrow> u64 \<Rightarrow> u256" where
  "percent_of amount percent = amount * ucast percent div 100"

definition slash_entry :: "u64 \<Rightarrow> u64 \<Rightarrow> u32 \<Rightarrow> staking \<Rightarrow> staking" where
  "slash_entry percent complete_time idx s =
     (let amount = unbonding_amount s idx
      in if amount = 0 then s
         else
           let cut = percent_of amount percent;
               s = (if cut \<noteq> 0
                    then s\<lparr>unbonding_amount := (unbonding_amount s)(idx := amount - cut)\<rparr>
                    else s)
           in if unbonding_complete_time s idx < complete_time
              then s\<lparr>unbonding_complete_time := (unbonding_complete_time s)(idx := complete_time)\<rparr>
              else s)"

partial_function (option) slash_loop ::
  "u64 \<Rightarrow> u64 \<Rightarrow> u32 \<Rightarrow> u256 \<Rightarrow> staking \<Rightarrow> (staking \<times> u256) option" where
  "slash_loop percent complete_time cur slashed s =
     (if cur = 0 then Some (s, slashed)
      else
        let s' = slash_entry percent complete_time (cur - 1) s
        in slash_loop percent complete_time (unbonding_next s' (cur - 1))
             (slashed + percent_of (unbonding_amount s (cur - 1)) percent) s')"

definition slash_active :: "address \<Rightarrow> u64 \<Rightarrow> staking \<Rightarrow> staking \<times> u256" where
  "slash_active v percent s =
     (let current = stake_amount s v
      in if current = 0 then (s, 0)
         else
           let cut = percent_of current percent
           in (s\<lparr>stake_amount := (stake_amount s)(v := current - cut),
                 total_staked := total_staked s - cut\<rparr>, cut))"

definition slash_status :: "u64 \<Rightarrow> address \<Rightarrow> bool \<Rightarrow> validator_set \<Rightarrow> validator_set" where
  "slash_status bn v below vs =
     (if below \<and> is_validator vs v then
        if val_status vs v = ACTIVE
        then vs\<lparr>val_status := (val_status vs)(v := EXITING),
                val_deactivated_at_height := (val_deactivated_at_height vs)(v := bn),
                pending_set_change := True\<rparr>
        else if val_status vs v = PENDING
        then vs\<lparr>val_status := (val_status vs)(v := REGISTERED), pending_set_change := True\<rparr>
        else vs
      else vs)"

definition burn_slashed :: "u256 \<Rightarrow> 'a world_scheme \<Rightarrow> 'a world_scheme result" where
  "burn_slashed slashed w =
     (if slashed \<noteq> 0 then decrease_balance STAKING_ADDRESS slashed w else Inr w)"

definition slash_stake ::
  "u64 \<Rightarrow> u64 \<Rightarrow> address \<Rightarrow> u64 \<Rightarrow> 'a world_scheme \<Rightarrow> (u256 \<times> 'a world_scheme) result" where
  "slash_stake bn ts v percent w =
     (if 100 < percent then Inl (Revert ''slash percent must be <= 100'')
      else
        let (s, cut) = slash_active v percent (stk w)
        in and_then (slashed_withdrawal_delay s) (\<lambda>delay.
           and_then (checked_complete_time ts delay) (\<lambda>complete_time.
             case slash_loop percent complete_time (per_val_unbonding_head s v) cut s of
               None \<Rightarrow> Inl NonTermination
             | Some (s, slashed) \<Rightarrow>
                 and_then (burn_slashed slashed (w\<lparr>stk := s\<rparr>)) (\<lambda>w.
                   let remaining = stake_amount s v;
                       vs = vset w;
                       vs = vs\<lparr>val_stake := (val_stake vs)(v := remaining)\<rparr>;
                       below = (config_min_stake s \<noteq> 0 \<and> remaining < config_min_stake s)
                   in Inr (slashed, w\<lparr>vset := slash_status bn v below vs\<rparr>)))))"

section \<open>End of the unbonding period\<close>

definition MAX_COMPACTION_PER_BLOCK :: u32 where
  "MAX_COMPACTION_PER_BLOCK = 64"

text \<open>One validator of the loop of \<open>process_unbonding\<close>; \<open>v\<close> is the record read before it.\<close>

definition drain_period :: "validator_record \<Rightarrow> staking \<Rightarrow> u64 result" where
  "drain_period v s =
     (if 0 < slash_count v then slashed_withdrawal_delay s else Inr (config_unbonding_period s))"

definition drain_stake :: "u64 \<Rightarrow> validator_record \<Rightarrow> 'a world_scheme \<Rightarrow> 'a world_scheme result" where
  "drain_stake ts v w =
     (let s = stk w; vs = vset w; a = validator_address v; amount = stake_amount s a
      in if total_staked s < amount then Inl (Revert ''stake accounting underflow for validator'')
         else
           let s = s\<lparr>stake_amount := (stake_amount s)(a := 0),
                     total_staked := total_staked s - amount\<rparr>;
               vs = vs\<lparr>val_stake := (val_stake vs)(a := 0)\<rparr>
           in and_then (drain_period v s) (\<lambda>period.
              and_then (checked_complete_time ts period) (\<lambda>complete_time.
                Inr (w\<lparr>stk := enqueue_unbonding a amount complete_time s,
                       vset := vs\<lparr>val_unbonding_end :=
                                    (val_unbonding_end vs)(a := complete_time)\<rparr>\<rparr>))))"

definition process_validator ::
  "u64 \<Rightarrow> validator_record \<Rightarrow> 'a world_scheme \<Rightarrow> 'a world_scheme result" where
  "process_validator ts v w =
     (if status_of v \<noteq> UNBONDING then Inr w
      else if stake_amount (stk w) (validator_address v) \<noteq> 0 then drain_stake ts v w
      else finalize_inactive_if_complete (validator_address v) w)"

text \<open>The tail trim; the first argument counts the operations left.\<close>

fun trim_tail :: "nat \<Rightarrow> (u32 \<Rightarrow> address) \<Rightarrow> u32 \<Rightarrow> u32" where
  "trim_tail 0 owner count = count"
| "trim_tail (Suc ops) owner count =
     (if 0 < count \<and> owner (count - 1) = 0 then trim_tail ops owner (count - 1) else count)"

definition process_unbonding :: "u64 \<Rightarrow> 'a world_scheme \<Rightarrow> 'a world_scheme result" where
  "process_unbonding ts w =
     and_then (fold_res (process_validator ts) (get_all_validators (vset w)) w) (\<lambda>w.
       let s = stk w
       in Inr (w\<lparr>stk := s\<lparr>unbonding_count :=
            trim_tail (unat MAX_COMPACTION_PER_BLOCK) (unbonding_validator s) (unbonding_count s)\<rparr>\<rparr>))"

definition get_stake :: "address \<Rightarrow> 'a world_scheme \<Rightarrow> u256" where
  "get_stake v w = stake_amount (stk w) v"

definition get_total_staked :: "'a world_scheme \<Rightarrow> u256" where
  "get_total_staked w = total_staked (stk w)"

text \<open>
  The payable arm of the precompile's \<open>dispatch\<close>: the EVM has credited \<open>value\<close> to the contract
  before it runs.
\<close>

definition dispatch_stake ::
  "address \<Rightarrow> u256 \<Rightarrow> address \<Rightarrow> u256 \<Rightarrow> 'a world_scheme \<Rightarrow> 'a world_scheme result" where
  "dispatch_stake caller value v amount w =
     (if value \<noteq> amount then Inl (Revert ''msg.value must equal stake amount'')
      else stake caller v amount w)"

end
