(* ===== verification/Staking_Invariants.thy ===== *)
theory Staking_Invariants
  imports Staking
begin

text \<open>
  Well-formedness of the unbonding queue and solvency of the staking contract, and the
  correctness of its loops: each walk of a per-validator list returns, and its effect is
  described pointwise on the entries of the list.
\<close>

section \<open>Lists through stored pointers\<close>

fun chain :: "(u32 \<Rightarrow> u32) \<Rightarrow> u32 \<Rightarrow> u32 list \<Rightarrow> bool" where
  "chain nxt s [] \<longleftrightarrow> s = 0"
| "chain nxt s (i # is) \<longleftrightarrow> s \<noteq> 0 \<and> s - 1 = i \<and> chain nxt (nxt i) is"

lemma chain_frame: "j \<notin> set is \<Longrightarrow> chain (nxt(j := x)) s is = chain nxt s is"
  by (induction "is" arbitrary: s) auto

lemma chain_cong: "(\<And>i. i \<in> set is \<Longrightarrow> f i = g i) \<Longrightarrow> chain f s is = chain g s is"
  by (induction "is" arbitrary: s) auto

lemma chain_zero [simp]: "chain nxt 0 is \<longleftrightarrow> is = []"
  by (cases "is") auto


section \<open>The queue invariant\<close>

text \<open>
  \<open>L v\<close> lists the queue entries of validator \<open>v\<close>, in the order of the stored list. An entry
  without owner holds nothing, and every owned entry lies below the queue's count.
\<close>

definition queue_lists :: "staking \<Rightarrow> (address \<Rightarrow> u32 list) \<Rightarrow> bool" where
  "queue_lists s L \<longleftrightarrow>
     (\<forall>v. chain (unbonding_next s) (per_val_unbonding_head s v) (L v) \<and> distinct (L v)) \<and>
     (\<forall>v. set (L v) = (if v = 0 then {} else {i. unbonding_validator s i = v})) \<and>
     (\<forall>i. unbonding_validator s i \<noteq> 0 \<longrightarrow> i < unbonding_count s) \<and>
     (\<forall>i. unbonding_validator s i = 0 \<longrightarrow> unbonding_amount s i = 0)"

definition queue_ok :: "staking \<Rightarrow> bool" where
  "queue_ok s \<longleftrightarrow> (\<exists>L. queue_lists s L)"

definition sum_staked :: "staking \<Rightarrow> nat" where
  "sum_staked s = (\<Sum>a\<in>UNIV. unat (stake_amount s a))"

definition sum_unbonding :: "staking \<Rightarrow> nat" where
  "sum_unbonding s = (\<Sum>i\<in>UNIV. unat (unbonding_amount s i))"

definition staking_inv :: "staking \<Rightarrow> bool" where
  "staking_inv s \<longleftrightarrow> queue_ok s \<and> unat (total_staked s) = sum_staked s"

text \<open>
  Solvency: the contract's native balance covers all stake and all unbonding amounts and
  leaves \<open>spare\<close> over.
\<close>

definition covers :: "nat \<Rightarrow> 'a world_scheme \<Rightarrow> bool" where
  "covers spare w \<longleftrightarrow>
     sum_staked (stk w) + sum_unbonding (stk w) + spare \<le> unat (balances w STAKING_ADDRESS)"

definition solvent :: "'a world_scheme \<Rightarrow> bool" where
  "solvent w \<longleftrightarrow> staking_inv (stk w) \<and> covers 0 w"

lemma queue_lists_disjoint:
  "queue_lists s L \<Longrightarrow> u \<noteq> v \<Longrightarrow> set (L u) \<inter> set (L v) = {}"
  by (auto simp: queue_lists_def split: if_splits)

lemma queue_listsD:
  assumes "queue_lists s L"
  shows "chain (unbonding_next s) (per_val_unbonding_head s v) (L v)" "distinct (L v)"
    "set (L v) = (if v = 0 then {} else {i. unbonding_validator s i = v})"
    "unbonding_validator s i \<noteq> 0 \<Longrightarrow> i < unbonding_count s"
    "unbonding_validator s i = 0 \<Longrightarrow> unbonding_amount s i = 0"
  using assms unfolding queue_lists_def by blast+

section \<open>Enqueue\<close>

lemma queue_lists_enqueue:
  assumes q: "queue_lists s L" and v: "v \<noteq> 0" and amount: "amount \<noteq> 0"
    and room: "unat (unbonding_count s) + 1 < 2 ^ 32"
  shows "queue_lists (enqueue_unbonding v amount t s) (L(v := unbonding_count s # L v))"
proof -
  let ?n = "unbonding_count s"
  let ?s = "enqueue_unbonding v amount t s"
  have free: "unbonding_validator s ?n = 0" using queue_listsD(4) [OF q, of ?n] by auto
  have notin: "?n \<notin> set (L u)" for u
    using queue_listsD(3) [OF q, of u] free by (auto split: if_splits)
  have succ: "unat (?n + 1) = unat ?n + 1" using room by (simp add: unat_add_exact)
  then have nz: "?n + 1 \<noteq> 0" by auto
  have lt: "i < ?n + 1" if "i < ?n \<or> i = ?n" for i
    using that succ by (auto simp: word_less_nat_alt)
  have fields: "unbonding_validator ?s = (unbonding_validator s)(?n := v)"
    "unbonding_amount ?s = (unbonding_amount s)(?n := amount)"
    "unbonding_next ?s = (unbonding_next s)(?n := per_val_unbonding_head s v)"
    "per_val_unbonding_head ?s = (per_val_unbonding_head s)(v := ?n + 1)"
    "unbonding_count ?s = ?n + 1"
    using amount by (simp_all add: enqueue_unbonding_def Let_def)
  show ?thesis unfolding queue_lists_def fields
  proof (intro conjI allI)
    fix u
    show "chain ((unbonding_next s)(?n := per_val_unbonding_head s v))
        (((per_val_unbonding_head s)(v := ?n + 1)) u) ((L(v := ?n # L v)) u)"
      using nz notin queue_listsD(1) [OF q] by (auto simp: chain_frame)
    show "distinct ((L(v := ?n # L v)) u)" using notin queue_listsD(2) [OF q] by auto
    show "set ((L(v := ?n # L v)) u) =
        (if u = 0 then {} else {i. ((unbonding_validator s)(?n := v)) i = u})"
      using v free queue_listsD(3) [OF q, of u] by auto
  next
    fix i
    show "((unbonding_validator s)(?n := v)) i \<noteq> 0 \<longrightarrow> i < ?n + 1"
      using lt queue_listsD(4) [OF q, of i] by auto
    show "((unbonding_validator s)(?n := v)) i = 0 \<longrightarrow> ((unbonding_amount s)(?n := amount)) i = 0"
      using v queue_listsD(5) [OF q, of i] by auto
  qed
qed

lemma queue_free_slot:
  assumes "queue_ok s" shows "unbonding_amount s (unbonding_count s) = 0"
  using assms queue_listsD(4,5) unfolding queue_ok_def by blast

lemma enqueue_effect:
  assumes "queue_ok s"
  shows "sum_unbonding (enqueue_unbonding v amount t s) = sum_unbonding s + unat amount"
    and "sum_staked (enqueue_unbonding v amount t s) = sum_staked s"
    and "total_staked (enqueue_unbonding v amount t s) = total_staked s"
proof -
  show "sum_unbonding (enqueue_unbonding v amount t s) = sum_unbonding s + unat amount"
    using sum_unat_fun_upd [of "unbonding_amount s" "unbonding_count s" amount] queue_free_slot [OF assms]
    by (simp add: sum_unbonding_def enqueue_unbonding_def Let_def)
qed (simp_all add: sum_staked_def enqueue_unbonding_def Let_def)

lemma queue_ok_enqueue:
  assumes "queue_ok s" and "v \<noteq> 0" and "unat (unbonding_count s) + 1 < 2 ^ 32"
  shows "queue_ok (enqueue_unbonding v amount t s)"
proof (cases "amount = 0")
  case False
  with assms queue_lists_enqueue show ?thesis unfolding queue_ok_def by blast
qed (use assms in \<open>simp add: enqueue_unbonding_def\<close>)

section \<open>Stake accounting\<close>

lemma queue_ok_cong:
  assumes "unbonding_next s' = unbonding_next s" "unbonding_validator s' = unbonding_validator s"
    "per_val_unbonding_head s' = per_val_unbonding_head s" "unbonding_count s' = unbonding_count s"
    "\<And>i. unbonding_amount s i = 0 \<Longrightarrow> unbonding_amount s' i = 0"
    and "queue_ok s"
  shows "queue_ok s'"
proof -
  from assms(6) obtain L where L: "queue_lists s L" by (auto simp: queue_ok_def)
  have "queue_lists s' L"
    unfolding queue_lists_def assms(1-4)
    using queue_listsD [OF L] assms(5) by blast
  then show ?thesis by (auto simp: queue_ok_def)
qed

definition set_stake :: "address \<Rightarrow> u256 \<Rightarrow> u256 \<Rightarrow> staking \<Rightarrow> staking" where
  "set_stake a x t s = s\<lparr>stake_amount := (stake_amount s)(a := x), total_staked := t\<rparr>"

lemma set_stake_frame [simp]:
  "unbonding_next (set_stake a x t s) = unbonding_next s"
  "unbonding_validator (set_stake a x t s) = unbonding_validator s"
  "per_val_unbonding_head (set_stake a x t s) = per_val_unbonding_head s"
  "unbonding_count (set_stake a x t s) = unbonding_count s"
  "unbonding_amount (set_stake a x t s) = unbonding_amount s"
  "unbonding_complete_time (set_stake a x t s) = unbonding_complete_time s"
  "stake_amount (set_stake a x t s) = (stake_amount s)(a := x)"
  "total_staked (set_stake a x t s) = t"
  "sum_unbonding (set_stake a x t s) = sum_unbonding s"
  "config_min_stake (set_stake a x t s) = config_min_stake s"
  by (simp_all add: set_stake_def sum_unbonding_def)

lemma queue_ok_set_stake [simp]: "queue_ok (set_stake a x t s) = queue_ok s"
  by (auto simp: queue_ok_def queue_lists_def)

lemma sum_set_stake:
  "sum_staked (set_stake a x t s) + unat (stake_amount s a) = sum_staked s + unat x"
  using sum_unat_fun_upd [of "stake_amount s" a x] by (simp add: sum_staked_def)

lemma stake_le_sum: "unat (stake_amount s a) \<le> sum_staked s"
  unfolding sum_staked_def by (rule member_le_sum_UNIV [of "\<lambda>a. unat (stake_amount s a)"])

lemma unbonding_le_sum: "unat (unbonding_amount s i) \<le> sum_unbonding s"
  unfolding sum_unbonding_def by (rule member_le_sum_UNIV [of "\<lambda>i. unat (unbonding_amount s i)"])

lemma staking_inv_withdraw:
  assumes "staking_inv s" and "x \<le> stake_amount s a"
  shows "staking_inv (set_stake a (stake_amount s a - x) (total_staked s - x) s)"
    and "sum_staked (set_stake a (stake_amount s a - x) (total_staked s - x) s) + unat x = sum_staked s"
proof -
  have x: "unat x \<le> unat (stake_amount s a)" using assms(2) by (simp add: word_le_nat_alt)
  have "unat x \<le> unat (total_staked s)"
    using x stake_le_sum [of s a] assms(1) by (simp add: staking_inv_def)
  then have t: "unat (total_staked s - x) = sum_staked s - unat x"
    using assms(1) by (simp add: unat_sub_exact word_le_nat_alt staking_inv_def)
  show sum: "sum_staked (set_stake a (stake_amount s a - x) (total_staked s - x) s) + unat x = sum_staked s"
    using sum_set_stake [of a "stake_amount s a - x" "total_staked s - x" s] x assms(2)
      stake_le_sum [of s a]
    by (simp add: unat_sub_exact)
  show "staking_inv (set_stake a (stake_amount s a - x) (total_staked s - x) s)"
    using assms(1) t sum by (simp add: staking_inv_def)
qed

lemma staking_inv_deposit:
  assumes "staking_inv s" and "sum_staked s + unat x < 2 ^ 256"
  shows "staking_inv (set_stake a (stake_amount s a + x) (total_staked s + x) s)"
    and "sum_staked (set_stake a (stake_amount s a + x) (total_staked s + x) s) = sum_staked s + unat x"
proof -
  have "unat (stake_amount s a) + unat x < 2 ^ 256"
    using assms(2) stake_le_sum [of s a] by simp
  then have "unat (stake_amount s a + x) = unat (stake_amount s a) + unat x"
    by (simp add: unat_add_exact)
  then show sum: "sum_staked (set_stake a (stake_amount s a + x) (total_staked s + x) s) = sum_staked s + unat x"
    using sum_set_stake [of a "stake_amount s a + x" "total_staked s + x" s] by simp
  have "unat (total_staked s + x) = sum_staked s + unat x"
    using assms by (simp add: staking_inv_def unat_add_exact)
  with sum show "staking_inv (set_stake a (stake_amount s a + x) (total_staked s + x) s)"
    using assms(1) by (simp add: staking_inv_def)
qed

section \<open>Sums over entries\<close>

lemma sum_zeroed:
  fixes f :: "'k::finite \<Rightarrow> nat"
  shows "(\<Sum>i\<in>UNIV. if i \<in> A then 0 else f i) + sum f A = sum f UNIV"
proof -
  have "sum f UNIV = sum f A + sum f (- A)"
    using sum.Int_Diff [of UNIV f A] by (simp add: Compl_eq_Diff_UNIV Int_commute)
  moreover have "(\<Sum>i\<in>UNIV. if i \<in> A then 0 else f i) = sum f (- A)"
    by (rule sum.mono_neutral_cong_right) auto
  ultimately show ?thesis by simp
qed

lemma unat_sum_list_exact:
  fixes f :: "'k \<Rightarrow> 'n::len word"
  shows "unat c + (\<Sum>x\<leftarrow>xs. unat (f x)) < 2 ^ LENGTH('n) \<Longrightarrow>
    unat (c + (\<Sum>x\<leftarrow>xs. f x)) = unat c + (\<Sum>x\<leftarrow>xs. unat (f x))"
proof (induction xs arbitrary: c)
  case (Cons x xs)
  then have "unat (c + f x) = unat c + unat (f x)" by (simp add: unat_add_exact)
  with Cons.IH [of "c + f x"] Cons.prems show ?case by (simp add: add.assoc)
qed simp

section \<open>List segments\<close>

fun seg :: "(u32 \<Rightarrow> u32) \<Rightarrow> u32 \<Rightarrow> u32 list \<Rightarrow> u32 \<Rightarrow> bool" where
  "seg nxt s [] t \<longleftrightarrow> s = t"
| "seg nxt s (i # is) t \<longleftrightarrow> s \<noteq> 0 \<and> s - 1 = i \<and> seg nxt (nxt i) is t"

lemma seg_zero: "seg nxt s is 0 = chain nxt s is"
  by (induction "is" arbitrary: s) auto

lemma seg_append: "seg nxt s (is @ js) t \<longleftrightarrow> (\<exists>m. seg nxt s is m \<and> seg nxt m js t)"
  by (induction "is" arbitrary: s) auto

lemma seg_frame: "j \<notin> set is \<Longrightarrow> seg (nxt(j := x)) s is t = seg nxt s is t"
  by (induction "is" arbitrary: s) auto

text \<open>The list \<open>ks\<close> relinked so far: first entry \<open>nh\<close>, last entry \<open>tn\<close>.\<close>

definition linked :: "(u32 \<Rightarrow> u32) \<Rightarrow> u32 \<Rightarrow> u32 \<Rightarrow> u32 list \<Rightarrow> bool" where
  "linked nxt nh tn ks \<longleftrightarrow>
     (if ks = [] then nh = 0 \<and> tn = 0
      else tn \<noteq> 0 \<and> tn - 1 = last ks \<and> seg nxt nh (butlast ks) tn)"

lemma linked_Nil_iff: "linked nxt nh tn ks \<Longrightarrow> nh = 0 \<longleftrightarrow> ks = []"
  by (cases "butlast ks") (auto simp: linked_def split: if_splits)

lemma linked_tail_iff: "linked nxt nh tn ks \<Longrightarrow> tn = 0 \<longleftrightarrow> ks = []"
  by (auto simp: linked_def split: if_splits)

lemma linked_frame:
  assumes "j \<notin> set ks" shows "linked (nxt(j := x)) nh tn ks = linked nxt nh tn ks"
proof -
  have "j \<notin> set (butlast ks)" using assms in_set_butlastD by fast
  then show ?thesis by (simp add: linked_def seg_frame)
qed

lemma linked_close:
  assumes "linked nxt nh tn ks" "ks \<noteq> []" "distinct ks"
  shows "seg (nxt(tn - 1 := t)) nh ks t"
proof -
  from assms(1,2) have l: "tn \<noteq> 0" "tn - 1 = last ks" "seg nxt nh (butlast ks) tn"
    by (simp_all add: linked_def)
  have "last ks \<notin> set (butlast ks)"
    using assms(2,3) by (metis append_butlast_last_id distinct_append disjoint_iff list.set_intros(1))
  then have "seg (nxt(last ks := t)) nh (butlast ks @ [last ks]) t"
    using l by (auto simp: seg_append seg_frame)
  then show ?thesis using l(2) assms(2) by simp
qed

lemma linked_snoc:
  assumes "linked nxt nh tn ks" "ks \<noteq> []" "distinct ks" "cur \<noteq> 0"
  shows "linked (nxt(tn - 1 := cur)) nh cur (ks @ [cur - 1])"
  using linked_close [OF assms(1-3), of cur] assms(4) by (simp add: linked_def)

section \<open>The claim walk\<close>

abbreviation mature :: "u64 \<Rightarrow> staking \<Rightarrow> u32 \<Rightarrow> bool" where
  "mature ts s i \<equiv> unbonding_complete_time s i \<le> ts"

definition zero_entries :: "u32 set \<Rightarrow> staking \<Rightarrow> staking" where
  "zero_entries A s = s
     \<lparr>unbonding_validator := (\<lambda>i. if i \<in> A then 0 else unbonding_validator s i),
      unbonding_amount := (\<lambda>i. if i \<in> A then 0 else unbonding_amount s i),
      unbonding_complete_time := (\<lambda>i. if i \<in> A then 0 else unbonding_complete_time s i)\<rparr>"

lemma zero_entries_fields [simp]:
  "unbonding_validator (zero_entries A s) = (\<lambda>i. if i \<in> A then 0 else unbonding_validator s i)"
  "unbonding_amount (zero_entries A s) = (\<lambda>i. if i \<in> A then 0 else unbonding_amount s i)"
  "unbonding_complete_time (zero_entries A s) = (\<lambda>i. if i \<in> A then 0 else unbonding_complete_time s i)"
  "unbonding_next (zero_entries A s) = unbonding_next s"
  "unbonding_count (zero_entries A s) = unbonding_count s"
  "per_val_unbonding_head (zero_entries A s) = per_val_unbonding_head s"
  "stake_amount (zero_entries A s) = stake_amount s"
  "total_staked (zero_entries A s) = total_staked s"
  "sum_staked (zero_entries A s) = sum_staked s"
  by (simp_all add: zero_entries_def sum_staked_def)

lemma zero_entries_zero_entry:
  "(zero_entries A (zero_entry i s))\<lparr>unbonding_next := nx\<rparr> =
     (zero_entries (insert i A) s)\<lparr>unbonding_next := nx\<rparr>"
  by (auto simp: zero_entries_def zero_entry_def fun_eq_iff intro!: staking.equality)

lemma zero_entries_link_entry:
  "(zero_entries A (link_entry tn cur s))\<lparr>unbonding_next := nx\<rparr> =
     (zero_entries A s)\<lparr>unbonding_next := nx\<rparr>"
  by (auto simp: zero_entries_def link_entry_def fun_eq_iff intro!: staking.equality)

definition claim_post ::
  "u64 \<Rightarrow> u32 list \<Rightarrow> u32 list \<Rightarrow> u256 \<Rightarrow> staking \<Rightarrow> (staking \<times> u256 \<times> u32 \<times> u32) option \<Rightarrow> bool" where
  "claim_post ts ks is c s r \<longleftrightarrow>
     (\<exists>nx nh tn. r = Some ((zero_entries (set (filter (mature ts s) is)) s)\<lparr>unbonding_next := nx\<rparr>,
        c + (\<Sum>i\<leftarrow>filter (mature ts s) is. unbonding_amount s i), nh, tn) \<and>
      linked nx nh tn (ks @ filter (\<lambda>i. \<not> mature ts s i) is) \<and>
      (\<forall>j. j \<notin> set ks \<union> set is \<longrightarrow> nx j = unbonding_next s j))"

lemma claim_post_step:
  assumes "claim_post ts ks' is c' s' r"
    and "\<And>nx. (zero_entries (set (filter (mature ts s') is)) s')\<lparr>unbonding_next := nx\<rparr> =
      (zero_entries (set (filter (mature ts s) js)) s)\<lparr>unbonding_next := nx\<rparr>"
    and "c' + (\<Sum>i\<leftarrow>filter (mature ts s') is. unbonding_amount s' i) =
      c + (\<Sum>i\<leftarrow>filter (mature ts s) js. unbonding_amount s i)"
    and "ks' @ filter (\<lambda>i. \<not> mature ts s' i) is = ks @ filter (\<lambda>i. \<not> mature ts s i) js"
    and "\<And>j. j \<notin> set ks \<union> set js \<Longrightarrow>
      j \<notin> set ks' \<union> set is \<and> unbonding_next s' j = unbonding_next s j"
  shows "claim_post ts ks js c s r"
  using assms unfolding claim_post_def by metis

lemma claim_loop_correct:
  assumes "chain (unbonding_next s) cur is" and "distinct (ks @ is)"
    and "linked (unbonding_next s) nh tn ks"
  shows "claim_post ts ks is c s (claim_loop ts cur c nh tn s)"
  using assms
proof (induction "is" arbitrary: cur ks nh tn c s)
  case Nil
  then show ?case
    by (auto simp: claim_post_def zero_entries_def claim_loop.simps
        intro!: exI [of _ "unbonding_next s"])
next
  case (Cons i "is")
  then have cur: "cur \<noteq> 0" "cur - 1 = i" and ch: "chain (unbonding_next s) (unbonding_next s i) is"
    and dist: "i \<notin> set is" "i \<notin> set ks" "distinct is" "distinct ks" "set ks \<inter> set is = {}"
    by auto
  note link = Cons.prems(3)
  consider (mature) "mature ts s i" | (first) "\<not> mature ts s i" "ks = []"
    | (more) "\<not> mature ts s i" "ks \<noteq> []" by blast
  then show ?case
  proof cases
    case mature
    let ?s = "zero_entry i s"
    have nxt: "unbonding_next ?s = (unbonding_next s)(i := 0)" by (simp add: zero_entry_def)
    have same: "filter (mature ts ?s) is = filter (mature ts s) is"
      "filter (\<lambda>j. \<not> mature ts ?s j) is = filter (\<lambda>j. \<not> mature ts s j) is"
      "map (unbonding_amount ?s) (filter (mature ts s) is) = map (unbonding_amount s) (filter (mature ts s) is)"
      using dist(1) by (auto simp: zero_entry_def intro!: filter_cong)
    have "claim_post ts ks is (c + unbonding_amount s i) ?s
        (claim_loop ts (unbonding_next s i) (c + unbonding_amount s i) nh tn ?s)"
    proof (rule Cons.IH)
      show "chain (unbonding_next ?s) (unbonding_next s i) is"
        unfolding nxt using ch dist(1) by (subst chain_frame)
      show "distinct (ks @ is)" using dist by simp
      show "linked (unbonding_next ?s) nh tn ks"
        unfolding nxt using link dist(2) by (subst linked_frame)
    qed
    then have "claim_post ts ks (i # is) c s
        (claim_loop ts (unbonding_next s i) (c + unbonding_amount s i) nh tn ?s)"
      by (rule claim_post_step)
        (use mature in \<open>simp_all add: same zero_entries_zero_entry nxt add.assoc\<close>)
    then show ?thesis using cur mature by (subst claim_loop.simps) simp
  next
    case first
    then have nh: "nh = 0" using linked_Nil_iff [OF link] by simp
    have "claim_post ts [i] is c s (claim_loop ts (unbonding_next s i) c cur cur s)"
      using dist ch cur by (intro Cons.IH) (simp_all add: linked_def)
    then have "claim_post ts ks (i # is) c s (claim_loop ts (unbonding_next s i) c cur cur s)"
      by (rule claim_post_step) (use first in simp_all)
    then show ?thesis using cur first nh by (subst claim_loop.simps) simp
  next
    case more
    let ?s = "link_entry tn cur s"
    have nh: "nh \<noteq> 0" using linked_Nil_iff [OF link] more by simp
    have tn: "tn - 1 \<in> set ks" using link more by (simp add: linked_def)
    have nxt: "unbonding_next ?s = (unbonding_next s)(tn - 1 := cur)" by (simp add: link_entry_def)
    have same: "unbonding_complete_time ?s = unbonding_complete_time s"
      "unbonding_amount ?s = unbonding_amount s" by (simp_all add: link_entry_def)
    have "claim_post ts (ks @ [i]) is c ?s (claim_loop ts (unbonding_next s i) c nh cur ?s)"
    proof (rule Cons.IH)
      show "chain (unbonding_next ?s) (unbonding_next s i) is"
        using ch tn dist(5) by (subst nxt, subst chain_frame) auto
      show "distinct ((ks @ [i]) @ is)" using Cons.prems(2) by simp
      show "linked (unbonding_next ?s) nh cur (ks @ [i])"
        using linked_snoc [OF link more(2) dist(4) cur(1)] cur(2) by (simp add: nxt)
    qed
    then have "claim_post ts ks (i # is) c s (claim_loop ts (unbonding_next s i) c nh cur ?s)"
      by (rule claim_post_step)
        (use more tn in \<open>auto simp: same zero_entries_link_entry nxt\<close>)
    then show ?thesis using cur more nh by (subst claim_loop.simps) simp
  qed
qed

section \<open>The queue after a claim\<close>

definition claimed :: "u64 \<Rightarrow> address \<Rightarrow> staking \<Rightarrow> u32 set" where
  "claimed ts v s = {i. v \<noteq> 0 \<and> unbonding_validator s i = v \<and> mature ts s i}"

definition claimable_amount :: "u64 \<Rightarrow> address \<Rightarrow> staking \<Rightarrow> nat" where
  "claimable_amount ts v s = (\<Sum>i\<in>claimed ts v s. unat (unbonding_amount s i))"

lemma claimable_le: "claimable_amount ts v s \<le> sum_unbonding s"
  unfolding claimable_amount_def sum_unbonding_def by (rule sum_mono2) auto

lemma sum_unbonding_zeroed:
  "sum_unbonding ((zero_entries A s)\<lparr>unbonding_next := nx\<rparr>) + (\<Sum>i\<in>A. unat (unbonding_amount s i))
     = sum_unbonding s"
  using sum_zeroed [of A "\<lambda>i. unat (unbonding_amount s i)"]
  by (simp add: sum_unbonding_def if_distrib [of unat] cong: if_cong)

lemma queue_lists_claimed:
  assumes q: "queue_lists s L" and A: "A = set (filter (mature ts s) (L v))"
    and ch: "chain nx nh (filter (\<lambda>i. \<not> mature ts s i) (L v))"
    and fr: "\<And>j. j \<notin> set (L v) \<Longrightarrow> nx j = unbonding_next s j"
  shows "queue_lists ((zero_entries A s)\<lparr>unbonding_next := nx,
      per_val_unbonding_head := (per_val_unbonding_head s)(v := nh)\<rparr>)
    (L(v := filter (\<lambda>i. \<not> mature ts s i) (L v)))"
proof -
  have other: "chain nx (per_val_unbonding_head s u) (L u)" if "u \<noteq> v" for u
    using queue_listsD(1) [OF q, of u] queue_lists_disjoint [OF q that]
      chain_cong [of "L u" nx "unbonding_next s"] fr by blast
  have notA: "i \<notin> A" if "unbonding_validator s i = u" "u \<noteq> v" for i u
    using that queue_listsD(3) [OF q, of v] by (auto simp: A split: if_splits)
  show ?thesis unfolding queue_lists_def
  proof (intro conjI allI)
    fix u
    show "set ((L(v := filter (\<lambda>i. \<not> mature ts s i) (L v))) u) = (if u = 0 then {}
        else {i. unbonding_validator ((zero_entries A s)\<lparr>unbonding_next := nx,
          per_val_unbonding_head := (per_val_unbonding_head s)(v := nh)\<rparr>) i = u})"
      using notA queue_listsD(3) [OF q, of u] by (auto simp: A split: if_splits)
  qed (use q ch other in \<open>auto simp: queue_lists_def split: if_splits\<close>)
qed

lemma finish_claim_eq:
  "finish_claim v nh tn (s\<lparr>unbonding_next := nx\<rparr>) =
     s\<lparr>unbonding_next := (if tn \<noteq> 0 then nx(tn - 1 := 0) else nx),
       per_val_unbonding_head := (per_val_unbonding_head s)(v := nh)\<rparr>"
  by (simp add: finish_claim_def link_entry_def Let_def)

lemma claim_loop_queue:
  assumes q: "queue_lists s L" and small: "sum_unbonding s < 2 ^ 256"
  obtains nx c nh tn where
    "claim_loop ts (per_val_unbonding_head s v) 0 0 0 s =
       Some ((zero_entries (claimed ts v s) s)\<lparr>unbonding_next := nx\<rparr>, c, nh, tn)"
    and "unat c = claimable_amount ts v s"
    and "queue_lists
      (finish_claim v nh tn ((zero_entries (claimed ts v s) s)\<lparr>unbonding_next := nx\<rparr>))
      (L(v := filter (\<lambda>i. \<not> mature ts s i) (L v)))"
proof -
  let ?ks = "filter (\<lambda>i. \<not> mature ts s i) (L v)"
  let ?ms = "filter (mature ts s) (L v)"
  have A: "set ?ms = claimed ts v s" using queue_listsD(3) [OF q, of v] by (auto simp: claimed_def)
  have "claim_post ts [] (L v) 0 s (claim_loop ts (per_val_unbonding_head s v) 0 0 0 s)"
    using queue_listsD(1,2) [OF q] by (intro claim_loop_correct) (simp_all add: linked_def)
  then obtain nx nh tn where
      r: "claim_loop ts (per_val_unbonding_head s v) 0 0 0 s =
        Some ((zero_entries (claimed ts v s) s)\<lparr>unbonding_next := nx\<rparr>,
          0 + (\<Sum>i\<leftarrow>?ms. unbonding_amount s i), nh, tn)"
    and link: "linked nx nh tn ?ks"
    and fr: "\<And>j. j \<notin> set (L v) \<Longrightarrow> nx j = unbonding_next s j"
    unfolding claim_post_def A by auto
  have sum: "(\<Sum>i\<leftarrow>?ms. unat (unbonding_amount s i)) = claimable_amount ts v s"
    using queue_listsD(2) [OF q] A
    by (simp add: claimable_amount_def sum_list_distinct_conv_sum_set)
  have "unat (0 + (\<Sum>i\<leftarrow>?ms. unbonding_amount s i)) = unat (0 :: u256) + claimable_amount ts v s"
    using claimable_le [of ts v s] small sum by (subst unat_sum_list_exact) simp_all
  moreover have "queue_lists
      ((zero_entries (claimed ts v s) s)\<lparr>unbonding_next := (if tn \<noteq> 0 then nx(tn - 1 := 0) else nx),
        per_val_unbonding_head := (per_val_unbonding_head s)(v := nh)\<rparr>) (L(v := ?ks))"
  proof (rule queue_lists_claimed [OF q A [symmetric]])
    show "chain (if tn \<noteq> 0 then nx(tn - 1 := 0) else nx) nh ?ks"
      using linked_close [OF link, of 0] queue_listsD(2) [OF q] linked_tail_iff [OF link]
        linked_Nil_iff [OF link] by (cases "?ks = []") (simp_all add: seg_zero)
    show "(if tn \<noteq> 0 then nx(tn - 1 := 0) else nx) j = unbonding_next s j" if "j \<notin> set (L v)" for j
      using that fr link by (auto simp: linked_def split: if_splits dest: last_in_set)
  qed
  ultimately show ?thesis using r
    by (intro that) (simp_all add: finish_claim_eq cong del: if_weak_cong)
qed

section \<open>The search for pending entries\<close>

lemma pending_loop_correct:
  "chain (unbonding_next s) cur is \<Longrightarrow>
     pending_loop s cur = Some (\<exists>i\<in>set is. unbonding_amount s i \<noteq> 0)"
proof (induction "is" arbitrary: cur)
  case (Cons i "is")
  then show ?case by (subst pending_loop.simps) auto
qed (simp add: pending_loop.simps)

lemma has_pending_unbonding_correct:
  assumes "queue_ok s" and "v \<noteq> 0"
  shows "has_pending_unbonding v s =
    Inr (\<exists>i. unbonding_validator s i = v \<and> unbonding_amount s i \<noteq> 0)"
proof -
  from assms(1) obtain L where q: "queue_lists s L" by (auto simp: queue_ok_def)
  from pending_loop_correct [OF queue_listsD(1) [OF q, of v]] queue_listsD(3) [OF q, of v] assms(2)
  show ?thesis by (auto simp: has_pending_unbonding_def)
qed

definition pending_of :: "staking \<Rightarrow> address \<Rightarrow> bool" where
  "pending_of s a \<longleftrightarrow> (\<exists>i. unbonding_validator s i = a \<and> unbonding_amount s i \<noteq> 0)"

lemma has_pending_of:
  "queue_ok s \<Longrightarrow> v \<noteq> 0 \<Longrightarrow> has_pending_unbonding v s = Inr (pending_of s v)"
  by (simp add: has_pending_unbonding_correct pending_of_def)

text \<open>The validators of \<open>R\<close> are made inactive.\<close>

definition retire_all :: "address set \<Rightarrow> validator_set \<Rightarrow> validator_set" where
  "retire_all R vs = vs
     \<lparr>val_status := (\<lambda>a. if a \<in> R then INACTIVE else val_status vs a),
      val_unbonding_end := (\<lambda>a. if a \<in> R then 0 else val_unbonding_end vs a),
      val_has_bls_share := (\<lambda>a. a \<notin> R \<and> val_has_bls_share vs a)\<rparr>"

lemma retire_all_empty [simp]: "retire_all {} vs = vs"
  by (simp add: retire_all_def)

lemma retire_all_single:
  "retire_all {a} vs = vs\<lparr>val_status := (val_status vs)(a := INACTIVE),
     val_unbonding_end := (val_unbonding_end vs)(a := 0), val_has_bls_share := (val_has_bls_share vs)(a := False)\<rparr>"
  by (auto simp: retire_all_def fun_eq_iff intro!: validator_set.equality)

definition finished :: "'a world_scheme \<Rightarrow> address \<Rightarrow> bool" where
  "finished w a \<longleftrightarrow> is_validator (vset w) a \<and> val_status (vset w) a = UNBONDING \<and>
     stake_amount (stk w) a = 0 \<and> \<not> pending_of (stk w) a"

lemma finalize_result:
  assumes "queue_ok (stk w)" and "v \<noteq> 0"
  shows "finalize_inactive_if_complete v w =
    Inr (w\<lparr>vset := retire_all (if finished w v then {v} else {}) (vset w)\<rparr>)"
  by (auto simp: finalize_inactive_if_complete_def Let_def has_pending_of [OF assms] finished_def retire_all_single)

section \<open>The slash walk\<close>

lemma percent_of_le:
  assumes "p \<le> 100" shows "percent_of x p \<le> x"
proof -
  have "unat (x * ucast p) \<le> unat x * unat p"
    by (simp add: unat_word_ariths)
  also have "\<dots> \<le> unat x * 100" using assms by (simp add: word_le_nat_alt)
  finally have "unat (x * ucast p) div 100 \<le> unat x" by simp
  then show ?thesis by (simp add: percent_of_def word_le_nat_alt unat_div)
qed

lemma percent_of_zero [simp]: "percent_of 0 p = 0"
  by (simp add: percent_of_def)

definition slash_entries :: "u64 \<Rightarrow> u64 \<Rightarrow> u32 set \<Rightarrow> staking \<Rightarrow> staking" where
  "slash_entries p t A s = s
     \<lparr>unbonding_amount := (\<lambda>i. if i \<in> A
        then unbonding_amount s i - percent_of (unbonding_amount s i) p else unbonding_amount s i),
      unbonding_complete_time := (\<lambda>i. if i \<in> A \<and> unbonding_amount s i \<noteq> 0
        then max (unbonding_complete_time s i) t else unbonding_complete_time s i)\<rparr>"

lemma slash_entries_fields [simp]:
  "unbonding_validator (slash_entries p t A s) = unbonding_validator s"
  "unbonding_next (slash_entries p t A s) = unbonding_next s"
  "unbonding_count (slash_entries p t A s) = unbonding_count s"
  "per_val_unbonding_head (slash_entries p t A s) = per_val_unbonding_head s"
  "stake_amount (slash_entries p t A s) = stake_amount s"
  "total_staked (slash_entries p t A s) = total_staked s"
  "sum_staked (slash_entries p t A s) = sum_staked s"
  "config_min_stake (slash_entries p t A s) = config_min_stake s"
  by (simp_all add: slash_entries_def sum_staked_def)

lemma slash_entry_eq: "slash_entry p t i s = slash_entries p t {i} s"
  by (auto simp: slash_entry_def slash_entries_def Let_def fun_eq_iff max_def
      intro!: staking.equality)

lemma slash_entries_insert:
  "i \<notin> A \<Longrightarrow> slash_entries p t A (slash_entries p t {i} s) = slash_entries p t (insert i A) s"
  by (auto simp: slash_entries_def fun_eq_iff intro!: staking.equality)

lemma slash_loop_correct:
  "chain (unbonding_next s) cur is \<Longrightarrow> distinct is \<Longrightarrow>
     slash_loop p t cur c s = Some (slash_entries p t (set is) s,
       c + (\<Sum>i\<leftarrow>is. percent_of (unbonding_amount s i) p))"
proof (induction "is" arbitrary: cur c s)
  case Nil
  then show ?case by (simp add: slash_loop.simps slash_entries_def)
next
  case (Cons i "is")
  let ?s = "slash_entries p t {i} s"
  have same: "map (\<lambda>j. percent_of (unbonding_amount ?s j) p) is =
      map (\<lambda>j. percent_of (unbonding_amount s j) p) is"
    using Cons.prems(2) by (auto simp: slash_entries_def)
  have "slash_loop p t (unbonding_next s i) (c + percent_of (unbonding_amount s i) p) ?s =
      Some (slash_entries p t (set is) ?s, c + percent_of (unbonding_amount s i) p +
        (\<Sum>j\<leftarrow>is. percent_of (unbonding_amount ?s j) p))"
    using Cons.prems by (intro Cons.IH) auto
  with Cons.prems show ?case
    by (subst slash_loop.simps)
      (simp add: Let_def slash_entry_eq slash_entries_insert same add.assoc)
qed

lemma queue_ok_slash_entries: "queue_ok s \<Longrightarrow> queue_ok (slash_entries p t A s)"
  by (rule queue_ok_cong [of _ s]) (simp_all add: slash_entries_def)

definition slashed_unbonding :: "u64 \<Rightarrow> u32 set \<Rightarrow> staking \<Rightarrow> nat" where
  "slashed_unbonding p A s = (\<Sum>i\<in>A. unat (percent_of (unbonding_amount s i) p))"

lemma sum_unbonding_slash_entries:
  assumes "p \<le> 100"
  shows "sum_unbonding (slash_entries p t A s) + slashed_unbonding p A s = sum_unbonding s"
proof -
  let ?f = "\<lambda>i. unat (unbonding_amount s i)" and ?g = "\<lambda>i. unat (percent_of (unbonding_amount s i) p)"
  have le: "?g i \<le> ?f i" for i using percent_of_le [OF assms] by (simp add: word_le_nat_alt)
  have split: "sum_unbonding s = sum ?f A + sum ?f (- A)"
    unfolding sum_unbonding_def
    using sum.Int_Diff [of UNIV ?f A] by (simp add: Compl_eq_Diff_UNIV Int_commute)
  have "sum_unbonding (slash_entries p t A s) = (\<Sum>i\<in>A. ?f i - ?g i) + sum ?f (- A)"
    unfolding sum_unbonding_def
    by (subst sum.Int_Diff [of UNIV _ A])
      (auto simp: slash_entries_def Compl_eq_Diff_UNIV unat_sub_exact percent_of_le [OF assms]
        intro!: arg_cong2 [where f = "(+)"] sum.cong)
  moreover have "(\<Sum>i\<in>A. ?f i - ?g i) + sum ?g A = sum ?f A"
    using le by (simp flip: sum.distrib)
  ultimately show ?thesis unfolding split slashed_unbonding_def by simp
qed

section \<open>Solvency of each operation\<close>

lemma solventI:
  "queue_ok (stk w) \<Longrightarrow> unat (total_staked (stk w)) = sum_staked (stk w) \<Longrightarrow>
   sum_staked (stk w) + sum_unbonding (stk w) \<le> unat (balances w STAKING_ADDRESS) \<Longrightarrow> solvent w"
  by (simp add: solvent_def staking_inv_def covers_def)

lemma solventD:
  assumes "solvent w"
  shows "queue_ok (stk w)" "unat (total_staked (stk w)) = sum_staked (stk w)" "staking_inv (stk w)"
    "sum_staked (stk w) + sum_unbonding (stk w) \<le> unat (balances w STAKING_ADDRESS)"
    "sum_staked (stk w) + sum_unbonding (stk w) < 2 ^ 256"
  using assms unat_lt_2p [of "balances w STAKING_ADDRESS"]
  by (auto simp: solvent_def staking_inv_def covers_def)

lemma solvent_cong:
  "stk w' = stk w \<Longrightarrow> balances w' = balances w \<Longrightarrow> solvent w' = solvent w"
  by (simp add: solvent_def covers_def)

lemma solvent_vset [simp]: "solvent (w\<lparr>vset := vs\<rparr>) = solvent w"
  by (rule solvent_cong) simp_all

lemma credit_stake_frame:
  "credit_stake v x w = Inr w' \<Longrightarrow> stk w' = stk w \<and> balances w' = balances w"
  by (auto simp: credit_stake_def Let_def and_then_eq_Inr split: if_splits)

lemma stake_effect:
  assumes "stake caller v amount w = Inr w'"
  shows "stk w' = set_stake v (stake_amount (stk w) v + amount) (total_staked (stk w) + amount) (stk w)"
    and "balances w' = balances w"
  using assms
  by (auto simp: stake_def Let_def set_stake_def split: if_splits dest!: credit_stake_frame)

lemma stake_solvent:
  assumes "stake caller v amount w = Inr w'" and "solvent w" and "covers (unat amount) w"
  shows "solvent w'"
proof -
  have "sum_staked (stk w) + unat amount < 2 ^ 256"
    using assms(3) unat_lt_2p [of "balances w STAKING_ADDRESS"] by (simp add: covers_def)
  note dep = staking_inv_deposit [OF solventD(3) [OF assms(2)] this, of v]
  show ?thesis using dep assms(3)
    by (simp add: solvent_def covers_def stake_effect [OF assms(1)])
qed

lemma unstake_effect:
  assumes "unstake bn ts caller amount w = Inr w'"
  obtains t where "unat t = unat ts + unat (config_unbonding_period (stk w))"
    and "amount \<noteq> 0" and "amount \<le> stake_amount (stk w) caller"
    and "stk w' = enqueue_unbonding caller amount t
      (set_stake caller (stake_amount (stk w) caller - amount) (total_staked (stk w) - amount) (stk w))"
    and "balances w' = balances w"
  using assms
  by (auto simp: unstake_def Let_def set_stake_def and_then_eq_Inr checked_complete_time_def
      split: if_splits option.splits dest: checked_add_Some)

lemma unstake_solvent:
  assumes "unstake bn ts caller amount w = Inr w'" and w: "solvent w" and "caller \<noteq> 0"
    and room: "unat (unbonding_count (stk w)) + 1 < 2 ^ 32"
  shows "solvent w'"
proof (rule unstake_effect [OF assms(1)])
  fix t
  let ?s = "set_stake caller (stake_amount (stk w) caller - amount) (total_staked (stk w) - amount) (stk w)"
  assume le: "amount \<le> stake_amount (stk w) caller"
    and stk': "stk w' = enqueue_unbonding caller amount t ?s" and bal: "balances w' = balances w"
  note out = staking_inv_withdraw [OF solventD(3) [OF w] le]
  have q: "queue_ok ?s" using solventD(1) [OF w] by simp
  show ?thesis
  proof (rule solventI)
    show "queue_ok (stk w')" unfolding stk' using q assms(3) room by (intro queue_ok_enqueue) simp_all
    show "unat (total_staked (stk w')) = sum_staked (stk w')"
      using out(1) by (simp only: stk' enqueue_effect [OF q] staking_inv_def)
    show "sum_staked (stk w') + sum_unbonding (stk w') \<le> unat (balances w' STAKING_ADDRESS)"
      using out(2) solventD(4) [OF w] by (simp add: stk' enqueue_effect [OF q] bal)
  qed
qed

lemma finalize_frame:
  "finalize_inactive_if_complete v w = Inr w' \<Longrightarrow> stk w' = stk w \<and> balances w' = balances w"
  by (auto simp: finalize_inactive_if_complete_def Let_def and_then_eq_Inr split: if_splits)

lemma finalize_returns:
  assumes "queue_ok (stk w)" and "v \<noteq> 0"
  shows "\<exists>w'. finalize_inactive_if_complete v w = Inr w'"
  using assms by (simp add: finalize_inactive_if_complete_def Let_def has_pending_unbonding_correct)

lemma finish_claim_fields [simp]:
  "stake_amount (finish_claim v nh tn s) = stake_amount s"
  "total_staked (finish_claim v nh tn s) = total_staked s"
  "unbonding_amount (finish_claim v nh tn s) = unbonding_amount s"
  "unbonding_validator (finish_claim v nh tn s) = unbonding_validator s"
  "unbonding_complete_time (finish_claim v nh tn s) = unbonding_complete_time s"
  "sum_staked (finish_claim v nh tn s) = sum_staked s"
  "sum_unbonding (finish_claim v nh tn s) = sum_unbonding s"
  by (simp_all add: finish_claim_def link_entry_def Let_def sum_staked_def sum_unbonding_def)

definition after_payout :: "address \<Rightarrow> u256 \<Rightarrow> (address \<Rightarrow> u256) \<Rightarrow> address \<Rightarrow> u256" where
  "after_payout a x b = (if a = STAKING_ADDRESS then b
     else b(STAKING_ADDRESS := b STAKING_ADDRESS - x, a := b a + x))"

lemma payout_succeeds:
  "x \<le> balances w STAKING_ADDRESS \<Longrightarrow>
     payout a x w = Inr (w\<lparr>balances := after_payout a x (balances w)\<rparr>)"
  by (auto simp: payout_def transfer_balance_def after_payout_def)

lemma claim_unbonded_exact:
  assumes w: "solvent w" and c: "caller \<noteq> 0"
  obtains x nx nh w1 where "claim_unbonded ts caller w =
      Inr (w1\<lparr>vset := retire_all (if finished w1 caller then {caller} else {}) (vset w)\<rparr>)"
    and "w1 = w\<lparr>stk := (zero_entries (claimed ts caller (stk w)) (stk w))
        \<lparr>unbonding_next := nx, per_val_unbonding_head := (per_val_unbonding_head (stk w))(caller := nh)\<rparr>,
      balances := after_payout caller x (balances w)\<rparr>"
    and "unat x = claimable_amount ts caller (stk w)" and "queue_ok (stk w1)"
    and "sum_unbonding (stk w1) + unat x = sum_unbonding (stk w)"
proof -
  from solventD(1) [OF w] obtain L where q: "queue_lists (stk w) L" by (auto simp: queue_ok_def)
  have small: "sum_unbonding (stk w) < 2 ^ 256" using solventD(5) [OF w] by simp
  let ?z = "zero_entries (claimed ts caller (stk w)) (stk w)"
  obtain nx x nh tn where
      loop: "claim_loop ts (per_val_unbonding_head (stk w) caller) 0 0 0 (stk w) =
        Some (?z\<lparr>unbonding_next := nx\<rparr>, x, nh, tn)"
    and x: "unat x = claimable_amount ts caller (stk w)"
    and q': "queue_lists (finish_claim caller nh tn (?z\<lparr>unbonding_next := nx\<rparr>))
      (L(caller := filter (\<lambda>i. \<not> mature ts (stk w) i) (L caller)))"
    by (rule claim_loop_queue [OF q small])
  define s where "s = finish_claim caller nh tn (?z\<lparr>unbonding_next := nx\<rparr>)"
  define w1 where "w1 = w\<lparr>stk := s, balances := after_payout caller x (balances w)\<rparr>"
  have sum: "sum_unbonding s + unat x = sum_unbonding (stk w)"
    using sum_unbonding_zeroed [where A = "claimed ts caller (stk w)" and s = "stk w" and nx = nx]
    by (simp add: s_def x claimable_amount_def)
  have "x \<le> balances w STAKING_ADDRESS"
    using x claimable_le [of ts caller "stk w"] solventD(4) [OF w] by (simp add: word_le_nat_alt)
  then have claim: "claim_unbonded ts caller w = finalize_inactive_if_complete caller w1"
    by (simp add: claim_unbonded_def loop payout_succeeds w1_def s_def)
  have ok: "queue_ok (stk w1)" using q' by (auto simp: queue_ok_def s_def w1_def)
  show ?thesis
    by (rule that [of w1 x nh "if tn \<noteq> 0 then nx(tn - 1 := 0) else nx"])
      (use claim finalize_result [OF ok c] x ok sum
        in \<open>simp_all add: w1_def s_def finish_claim_eq cong del: if_weak_cong\<close>)
qed

lemma claim_unbonded_result:
  assumes w: "solvent w" and c: "caller \<noteq> 0"
  obtains x w' where "claim_unbonded ts caller w = Inr w'"
    and "unat x = claimable_amount ts caller (stk w)" and "queue_ok (stk w')"
    and "stake_amount (stk w') = stake_amount (stk w)" and "total_staked (stk w') = total_staked (stk w)"
    and "unbonding_amount (stk w') =
      (\<lambda>i. if i \<in> claimed ts caller (stk w) then 0 else unbonding_amount (stk w) i)"
    and "sum_unbonding (stk w') + unat x = sum_unbonding (stk w)"
    and "balances w' = after_payout caller x (balances w)"
proof -
  obtain x nx nh w1 where r: "claim_unbonded ts caller w =
      Inr (w1\<lparr>vset := retire_all (if finished w1 caller then {caller} else {}) (vset w)\<rparr>)"
    and w1: "w1 = w\<lparr>stk := (zero_entries (claimed ts caller (stk w)) (stk w))
        \<lparr>unbonding_next := nx, per_val_unbonding_head := (per_val_unbonding_head (stk w))(caller := nh)\<rparr>,
      balances := after_payout caller x (balances w)\<rparr>"
    and x: "unat x = claimable_amount ts caller (stk w)" "queue_ok (stk w1)"
      "sum_unbonding (stk w1) + unat x = sum_unbonding (stk w)"
    by (rule claim_unbonded_exact [OF w c, of ts])
  show ?thesis by (rule that [OF r x(1)]) (use x(2,3) in simp_all, simp_all add: w1)
qed

lemma claim_unbonded_solvent:
  assumes w: "solvent w" and run: "claim_unbonded ts caller w = Inr w'" and c: "caller \<noteq> 0"
  shows "solvent w'"
proof (rule claim_unbonded_result [OF w c, of ts])
  fix x w''
  assume r: "claim_unbonded ts caller w = Inr w''" "unat x = claimable_amount ts caller (stk w)"
    "queue_ok (stk w'')" "stake_amount (stk w'') = stake_amount (stk w)"
    "total_staked (stk w'') = total_staked (stk w)"
    "sum_unbonding (stk w'') + unat x = sum_unbonding (stk w)"
    "balances w'' = after_payout caller x (balances w)"
  have "unat x \<le> unat (balances w STAKING_ADDRESS)"
    using r(2) claimable_le [of ts caller "stk w"] solventD(4) [OF w] by simp
  then have "unat (balances w'' STAKING_ADDRESS) + unat x \<ge> unat (balances w STAKING_ADDRESS)"
    by (simp add: r(7) after_payout_def unat_sub_exact word_le_nat_alt)
  then have "solvent w''"
    using solventD(2,4) [OF w] r(3-6) by (intro solventI) (simp_all add: sum_staked_def)
  with run r(1) show ?thesis by simp
qed

lemma slash_active_effect:
  "slash_active v p s = (set_stake v (stake_amount s v - percent_of (stake_amount s v) p)
     (total_staked s - percent_of (stake_amount s v) p) s, percent_of (stake_amount s v) p)"
  by (auto simp: slash_active_def Let_def set_stake_def intro!: staking.equality)

definition owned :: "address \<Rightarrow> staking \<Rightarrow> u32 set" where
  "owned v s = {i. v \<noteq> 0 \<and> unbonding_validator s i = v}"

definition slashed_stake :: "address \<Rightarrow> u64 \<Rightarrow> staking \<Rightarrow> staking" where
  "slashed_stake v p s = set_stake v (stake_amount s v - percent_of (stake_amount s v) p)
     (total_staked s - percent_of (stake_amount s v) p) s"

definition slash_total :: "address \<Rightarrow> u64 \<Rightarrow> staking \<Rightarrow> nat" where
  "slash_total v p s = unat (percent_of (stake_amount s v) p) + slashed_unbonding p (owned v s) s"

lemma slashed_withdrawal_delay_cong:
  "slashed_withdrawal_delay (slashed_stake v p s) = slashed_withdrawal_delay s"
  by (simp add: slashed_withdrawal_delay_def slashed_stake_def set_stake_def)

lemma slash_total_le:
  assumes "p \<le> 100" shows "slash_total v p s \<le> sum_staked s + sum_unbonding s"
proof -
  have "unat (percent_of (stake_amount s v) p) \<le> sum_staked s"
    using percent_of_le [OF assms, of "stake_amount s v"] stake_le_sum [of s v]
    by (simp add: word_le_nat_alt)
  with sum_unbonding_slash_entries [OF assms, of 0 "owned v s" s] show ?thesis
    by (simp add: slash_total_def)
qed

lemma slash_walk:
  assumes q: "queue_lists s L" and p: "p \<le> 100" and small: "sum_staked s + sum_unbonding s < 2 ^ 256"
  obtains x where
    "slash_loop p t (per_val_unbonding_head s v) (percent_of (stake_amount s v) p) (slashed_stake v p s) =
       Some (slash_entries p t (owned v s) (slashed_stake v p s), x)"
    and "unat x = slash_total v p s"
proof -
  let ?s = "slashed_stake v p s"
  let ?x = "percent_of (stake_amount s v) p + (\<Sum>i\<leftarrow>L v. percent_of (unbonding_amount s i) p)"
  have L: "set (L v) = owned v s" using queue_listsD(3) [OF q, of v] by (simp add: owned_def)
  have "slash_loop p t (per_val_unbonding_head s v) (percent_of (stake_amount s v) p) ?s =
      Some (slash_entries p t (owned v s) ?s, ?x)"
    using slash_loop_correct [of ?s "per_val_unbonding_head s v" "L v" p t] queue_listsD(1,2) [OF q]
    by (simp add: L slashed_stake_def)
  moreover have sum: "(\<Sum>i\<leftarrow>L v. unat (percent_of (unbonding_amount s i) p)) = slashed_unbonding p (owned v s) s"
    using queue_listsD(2) [OF q, of v] L
    by (simp add: slashed_unbonding_def sum_list_distinct_conv_sum_set)
  have "unat ?x = slash_total v p s"
    using slash_total_le [OF p, of v s] small
    by (subst unat_sum_list_exact) (simp_all add: sum slash_total_def)
  ultimately show ?thesis by (rule that)
qed

lemma burn_slashed_succeeds:
  "x \<le> balances w STAKING_ADDRESS \<Longrightarrow>
     burn_slashed x w = Inr (w\<lparr>balances := (balances w)(STAKING_ADDRESS := balances w STAKING_ADDRESS - x)\<rparr>)"
  by (auto simp: burn_slashed_def decrease_balance_def)

lemma slash_stake_result:
  assumes w: "solvent w" and p: "p \<le> 100"
    and delay: "slashed_withdrawal_delay (stk w) = Inr d" "checked_complete_time ts d = Inr t"
  obtains x w' where "slash_stake bn ts v p w = Inr (x, w')"
    and "unat x = slash_total v p (stk w)"
    and "stk w' = slash_entries p t (owned v (stk w)) (slashed_stake v p (stk w))"
    and "balances w' = (balances w)(STAKING_ADDRESS := balances w STAKING_ADDRESS - x)"
    and "x \<le> balances w STAKING_ADDRESS"
proof -
  let ?s = "slashed_stake v p (stk w)" and ?c = "percent_of (stake_amount (stk w) v) p"
  from solventD(1) [OF w] obtain L where q: "queue_lists (stk w) L" by (auto simp: queue_ok_def)
  obtain x where
      loop: "slash_loop p t (per_val_unbonding_head (stk w) v) ?c ?s =
        Some (slash_entries p t (owned v (stk w)) ?s, x)"
    and x: "unat x = slash_total v p (stk w)"
    by (rule slash_walk [OF q p solventD(5) [OF w]])
  have le: "x \<le> balances w STAKING_ADDRESS"
    using x slash_total_le [OF p, of v "stk w"] solventD(4) [OF w] by (simp add: word_le_nat_alt)
  have head: "per_val_unbonding_head ?s = per_val_unbonding_head (stk w)"
    by (simp add: slashed_stake_def)
  have "\<exists>w'. slash_stake bn ts v p w = Inr (x, w') \<and>
      stk w' = slash_entries p t (owned v (stk w)) ?s \<and>
      balances w' = (balances w)(STAKING_ADDRESS := balances w STAKING_ADDRESS - x)"
    using p le
    by (simp add: slash_stake_def slash_active_effect head loop Let_def not_less
        slashed_stake_def [symmetric] slashed_withdrawal_delay_cong delay burn_slashed_succeeds)
  with that x le show ?thesis by blast
qed

lemma slash_accounting:
  assumes w: "staking_inv s" and p: "p \<le> 100"
  shows "staking_inv (slash_entries p t (owned v s) (slashed_stake v p s))"
    and "sum_staked (slash_entries p t (owned v s) (slashed_stake v p s)) +
      sum_unbonding (slash_entries p t (owned v s) (slashed_stake v p s)) + slash_total v p s
      = sum_staked s + sum_unbonding s"
proof -
  note out = staking_inv_withdraw [OF w percent_of_le [OF p], of v, folded slashed_stake_def]
  show "staking_inv (slash_entries p t (owned v s) (slashed_stake v p s))"
    using out(1) by (simp add: staking_inv_def queue_ok_slash_entries)
  have "slashed_unbonding p (owned v s) (slashed_stake v p s) = slashed_unbonding p (owned v s) s"
    "sum_unbonding (slashed_stake v p s) = sum_unbonding s"
    by (simp_all add: slashed_unbonding_def slashed_stake_def)
  then show "sum_staked (slash_entries p t (owned v s) (slashed_stake v p s)) +
      sum_unbonding (slash_entries p t (owned v s) (slashed_stake v p s)) + slash_total v p s
      = sum_staked s + sum_unbonding s"
    using out(2) sum_unbonding_slash_entries [OF p, of t "owned v s" "slashed_stake v p s"]
    by (simp add: slash_total_def)
qed

lemma slash_stake_solvent:
  assumes w: "solvent w" and run: "slash_stake bn ts v p w = Inr (x, w')"
  shows "solvent w'"
proof -
  have p: "p \<le> 100" using run by (auto simp: slash_stake_def not_less split: if_splits)
  obtain d t where delay: "slashed_withdrawal_delay (stk w) = Inr d" "checked_complete_time ts d = Inr t"
    using run p by (auto simp: slash_stake_def slash_active_effect and_then_eq_Inr
        slashed_stake_def [symmetric] slashed_withdrawal_delay_cong)
  obtain y w'' where r: "slash_stake bn ts v p w = Inr (y, w'')" "unat y = slash_total v p (stk w)"
    "stk w'' = slash_entries p t (owned v (stk w)) (slashed_stake v p (stk w))"
    "balances w'' = (balances w)(STAKING_ADDRESS := balances w STAKING_ADDRESS - y)"
    "y \<le> balances w STAKING_ADDRESS"
    by (rule slash_stake_result [OF w p delay])
  note acc = slash_accounting [OF solventD(3) [OF w] p, of t v]
  have "solvent w''"
    unfolding solvent_def covers_def
    using acc solventD(4) [OF w] r(2,5) by (simp add: r(3,4) unat_sub_exact)
  with r(1) run show ?thesis by simp
qed

section \<open>End of the unbonding period\<close>

lemma pending_of_enqueue:
  assumes "queue_ok s" and "a \<noteq> v" and "a \<noteq> 0"
  shows "pending_of (enqueue_unbonding v amount t s) a = pending_of s a"
  using queue_free_slot [OF assms(1)] assms(2)
  by (auto simp: pending_of_def enqueue_unbonding_def Let_def) metis

lemma pending_of_set_stake [simp]: "pending_of (set_stake a x t s) b = pending_of s b"
  by (simp add: pending_of_def)

lemma trim_tail_keeps:
  "(\<And>i. owner i \<noteq> 0 \<Longrightarrow> i < c) \<Longrightarrow> owner i \<noteq> 0 \<Longrightarrow> i < trim_tail k owner c"
proof (induction k owner c rule: trim_tail.induct)
  case (2 ops owner count)
  have "j < count - 1" if "0 < count" "owner (count - 1) = 0" "owner j \<noteq> 0" for j
  proof -
    have "j < count" "j \<noteq> count - 1" using 2(2) [OF that(3)] that by auto
    moreover have "unat (count - 1) = unat count - 1" "0 < unat count"
      using that(1) by (simp_all add: unat_sub_exact word_le_nat_alt word_less_nat_alt)
    ultimately show ?thesis by (auto simp: word_less_nat_alt word_unat_eq_iff)
  qed
  with 2 show ?case by auto
qed simp

lemma queue_ok_trim:
  assumes "queue_ok s"
  shows "queue_ok (s\<lparr>unbonding_count := trim_tail k (unbonding_validator s) (unbonding_count s)\<rparr>)"
proof -
  from assms obtain L where q: "queue_lists s L" by (auto simp: queue_ok_def)
  have "i < trim_tail k (unbonding_validator s) (unbonding_count s)"
    if "unbonding_validator s i \<noteq> 0" for i
    by (rule trim_tail_keeps [of "unbonding_validator s"]) (use queue_listsD(4) [OF q] that in blast)+
  with q have "queue_lists (s\<lparr>unbonding_count := trim_tail k (unbonding_validator s) (unbonding_count s)\<rparr>) L"
    by (simp add: queue_lists_def)
  then show ?thesis by (auto simp: queue_ok_def)
qed

lemma slashed_withdrawal_delay_set_stake [simp]:
  "slashed_withdrawal_delay (set_stake a x t s) = slashed_withdrawal_delay s"
  "config_unbonding_period (set_stake a x t s) = config_unbonding_period s"
  by (simp_all add: slashed_withdrawal_delay_def set_stake_def)

lemma drain_stake_eq:
  "drain_stake ts v w =
     (let a = validator_address v; x = stake_amount (stk w) a;
          s = set_stake a 0 (total_staked (stk w) - x) (stk w)
      in if total_staked (stk w) < x then Inl (Revert ''stake accounting underflow for validator'')
         else and_then (drain_period v s) (\<lambda>period.
           and_then (checked_complete_time ts period) (\<lambda>t.
             Inr (w\<lparr>stk := enqueue_unbonding a x t s,
               vset := (vset w)\<lparr>val_stake := (val_stake (vset w))(a := 0),
                 val_unbonding_end := (val_unbonding_end (vset w))(a := t)\<rparr>\<rparr>))))"
  by (simp add: drain_stake_def set_stake_def Let_def)

lemma drain_period_set_stake [simp]: "drain_period v (set_stake a x t s) = drain_period v s"
  by (simp add: drain_period_def)

text \<open>
  What the hook does to the queue: every old entry stays as it is, every new one belongs to a
  validator of \<open>D\<close>, the stake of each of these is an entry with its release time \<open>T\<close>, and
  together stake and entries are worth what they were.
\<close>

definition released :: "(address \<Rightarrow> u64) \<Rightarrow> address set \<Rightarrow> staking \<Rightarrow> staking \<Rightarrow> bool" where
  "released T D s s' \<longleftrightarrow>
     (\<forall>i. unbonding_validator s i \<noteq> 0 \<longrightarrow> unbonding_validator s' i = unbonding_validator s i \<and>
        unbonding_amount s' i = unbonding_amount s i \<and> unbonding_complete_time s' i = unbonding_complete_time s i) \<and>
     (\<forall>i. unbonding_validator s i = 0 \<longrightarrow> unbonding_validator s' i \<in> insert 0 D) \<and>
     (\<forall>a\<in>D. \<exists>i. unbonding_validator s i = 0 \<and> unbonding_validator s' i = a \<and>
        unbonding_amount s' i = stake_amount s a \<and> unbonding_complete_time s' i = T a) \<and>
     stake_amount s' = (\<lambda>a. if a \<in> D then 0 else stake_amount s a) \<and>
     sum_staked s' + sum_unbonding s' = sum_staked s + sum_unbonding s"

definition same_config :: "staking \<Rightarrow> staking \<Rightarrow> bool" where
  "same_config s s' \<longleftrightarrow> config_min_stake s' = config_min_stake s \<and>
     config_unbonding_period s' = config_unbonding_period s \<and>
     config_max_stake_percent s' = config_max_stake_percent s \<and>
     config_slashed_withdrawal_delay s' = config_slashed_withdrawal_delay s"

definition release_all :: "(address \<Rightarrow> u64) \<Rightarrow> address set \<Rightarrow> validator_set \<Rightarrow> validator_set" where
  "release_all T D vs = vs
     \<lparr>val_stake := (\<lambda>a. if a \<in> D then 0 else val_stake vs a),
      val_unbonding_end := (\<lambda>a. if a \<in> D then T a else val_unbonding_end vs a)\<rparr>"

text \<open>The stake of the validators of \<open>D\<close> is released, those of \<open>R\<close> become inactive, nothing else changes.\<close>

definition settled :: "(address \<Rightarrow> u64) \<Rightarrow> address set \<Rightarrow> address set \<Rightarrow> 'a world_scheme \<Rightarrow> 'a world_scheme \<Rightarrow> bool" where
  "settled T D R w w' \<longleftrightarrow> solvent w' \<and> same_config (stk w) (stk w') \<and> released T D (stk w) (stk w') \<and>
     w' = w\<lparr>stk := stk w', vset := retire_all R (release_all T D (vset w))\<rparr>"

lemma release_all_empty [simp]: "release_all T {} vs = vs"
  by (simp add: release_all_def)

lemma released_empty [simp]: "released T {} s s"
  by (auto simp: released_def)

lemma same_config_refl [simp]: "same_config s s"
  by (simp add: same_config_def)

lemma released_trans:
  assumes 1: "released T D s s1" and 2: "released T E s1 s2" and "0 \<notin> D" and "D \<inter> E = {}"
  shows "released T (D \<union> E) s s2"
  unfolding released_def
proof (intro conjI allI impI ballI)
  have keep: "unbonding_validator s1 i \<noteq> 0 \<Longrightarrow> unbonding_validator s2 i = unbonding_validator s1 i \<and>
      unbonding_amount s2 i = unbonding_amount s1 i \<and> unbonding_complete_time s2 i = unbonding_complete_time s1 i" for i
    using 2 by (simp add: released_def)
  fix i
  assume "unbonding_validator s i \<noteq> 0"
  then show "unbonding_validator s2 i = unbonding_validator s i" "unbonding_amount s2 i = unbonding_amount s i"
    "unbonding_complete_time s2 i = unbonding_complete_time s i"
    using 1 keep [of i] by (simp_all add: released_def)
next
  fix i assume "unbonding_validator s i = 0"
  then show "unbonding_validator s2 i \<in> insert 0 (D \<union> E)"
    using 1 2 unfolding released_def by (metis UnI1 UnI2 insert_iff)
next
  fix a assume "a \<in> D \<union> E"
  then show "\<exists>i. unbonding_validator s i = 0 \<and> unbonding_validator s2 i = a \<and>
      unbonding_amount s2 i = stake_amount s a \<and> unbonding_complete_time s2 i = T a"
  proof
    assume "a \<in> D"
    then obtain i where "unbonding_validator s i = 0" "unbonding_validator s1 i = a"
      "unbonding_amount s1 i = stake_amount s a" "unbonding_complete_time s1 i = T a"
      using 1 unfolding released_def by blast
    moreover from this \<open>a \<in> D\<close> \<open>0 \<notin> D\<close> have "unbonding_validator s1 i \<noteq> 0" by auto
    ultimately show ?thesis using 2 unfolding released_def by metis
  next
    assume "a \<in> E"
    then have "stake_amount s1 a = stake_amount s a" using 1 \<open>D \<inter> E = {}\<close> by (auto simp: released_def)
    moreover from \<open>a \<in> E\<close> obtain i where "unbonding_validator s1 i = 0" "unbonding_validator s2 i = a"
      "unbonding_amount s2 i = stake_amount s1 a" "unbonding_complete_time s2 i = T a"
      using 2 unfolding released_def by blast
    moreover from this have "unbonding_validator s i = 0" using 1 unfolding released_def by metis
    ultimately show ?thesis by metis
  qed
qed (use 1 2 in \<open>auto simp: released_def\<close>)

lemma released_pending:
  assumes "released T D s s'" "b \<notin> D" "b \<noteq> 0"
  shows "pending_of s' b = pending_of s b"
  using assms unfolding released_def pending_of_def by (metis insert_iff)

lemma settled_trans:
  assumes 1: "settled T D R w w1" and 2: "settled T E Q w1 w2"
    and "0 \<notin> D" and "D \<inter> E = {}" and "R \<inter> E = {}"
  shows "settled T (D \<union> E) (R \<union> Q) w w2"
proof -
  have vs1: "vset w1 = retire_all R (release_all T D (vset w))"
    using 1 unfolding settled_def by (metis world.select_convs(2) world.surjective world.update_convs(2))
  have "retire_all Q (release_all T E (retire_all R (release_all T D (vset w)))) =
      retire_all (R \<union> Q) (release_all T (D \<union> E) (vset w))"
    using assms(5) by (auto simp: retire_all_def release_all_def fun_eq_iff intro!: validator_set.equality)
  moreover have "w2 = w1\<lparr>stk := stk w2, vset := retire_all Q (release_all T E (vset w1))\<rparr>"
    "w1 = w\<lparr>stk := stk w1, vset := retire_all R (release_all T D (vset w))\<rparr>"
    using 1 2 by (simp_all add: settled_def)
  ultimately have "w2 = w\<lparr>stk := stk w2, vset := retire_all (R \<union> Q) (release_all T (D \<union> E) (vset w))\<rparr>"
    by (metis vs1 world.surjective world.update_convs(2,3))
  with 1 2 released_trans [OF _ _ assms(3,4), of T "stk w" "stk w1" "stk w2"] show ?thesis
    by (auto simp: settled_def same_config_def)
qed

text \<open>When the stake of a validator with \<open>n\<close> slashes is paid out; its period has no error on this path.\<close>

definition release_time :: "u64 \<Rightarrow> u64 \<Rightarrow> staking \<Rightarrow> u64" where
  "release_time ts n s =
     (case (if 0 < n then slashed_withdrawal_delay s else Inr (config_unbonding_period s)) of
        Inl _ \<Rightarrow> 0 | Inr p \<Rightarrow> ts + p)"

lemma release_time_cong: "same_config s s' \<Longrightarrow> release_time ts n s' = release_time ts n s"
  by (simp add: release_time_def same_config_def slashed_withdrawal_delay_def)

lemma same_config_period: "same_config s s' \<Longrightarrow>
    config_unbonding_period s' = config_unbonding_period s \<and> slashed_withdrawal_delay s' = slashed_withdrawal_delay s"
  by (simp add: same_config_def slashed_withdrawal_delay_def)

lemma released_enqueue:
  assumes q: "queue_ok s" and nz: "stake_amount s a \<noteq> 0" and a: "a \<noteq> 0"
    and sums: "sum_staked (set_stake a 0 t s) + unat (stake_amount s a) = sum_staked s"
  shows "released (\<lambda>_. c) {a} s (enqueue_unbonding a (stake_amount s a) c (set_stake a 0 t s))"
proof -
  let ?i = "unbonding_count s"
  have free: "unbonding_validator s ?i = 0"
    using q queue_listsD(4) [of s _ ?i] by (auto simp: queue_ok_def)
  have q': "queue_ok (set_stake a 0 t s)" using q by simp
  have fields: "unbonding_validator (enqueue_unbonding a x c (set_stake a 0 t s)) = (unbonding_validator s)(?i := a)"
    "unbonding_amount (enqueue_unbonding a x c (set_stake a 0 t s)) = (unbonding_amount s)(?i := x)"
    "unbonding_complete_time (enqueue_unbonding a x c (set_stake a 0 t s)) = (unbonding_complete_time s)(?i := c)"
    "stake_amount (enqueue_unbonding a x c (set_stake a 0 t s)) = (stake_amount s)(a := 0)" if "x \<noteq> 0" for x
    using that by (simp_all add: enqueue_unbonding_def set_stake_def Let_def)
  show ?thesis
    unfolding released_def fields [OF nz] enqueue_effect [OF q']
    using free sums by (auto simp: sum_unbonding_def)
qed

lemma drain_stake_settled:
  assumes w: "solvent w" and a: "validator_address v \<noteq> 0"
    and room: "unat (unbonding_count (stk w)) + 1 < 2 ^ 32"
    and nz: "stake_amount (stk w) (validator_address v) \<noteq> 0"
    and period: "drain_period v (stk w) = Inr p" "unat ts + unat p < 2 ^ 64"
    and T: "T (validator_address v) = ts + p"
  shows "\<exists>w'. drain_stake ts v w = Inr w' \<and> settled T {validator_address v} {} w w' \<and>
    unat (unbonding_count (stk w')) \<le> unat (unbonding_count (stk w)) + 1"
proof -
  let ?a = "validator_address v"
  let ?x = "stake_amount (stk w) ?a"
  let ?s = "set_stake ?a 0 (total_staked (stk w) - ?x) (stk w)"
  let ?s' = "enqueue_unbonding ?a ?x (ts + p) ?s"
  note out = staking_inv_withdraw [OF solventD(3) [OF w] order_refl, of ?a, unfolded diff_self]
  have le: "\<not> total_staked (stk w) < ?x"
    using solventD(2) [OF w] stake_le_sum [of "stk w" ?a] by (simp add: word_less_nat_alt)
  have ct: "checked_complete_time ts p = Inr (ts + p)"
    using period(2) by (simp add: checked_complete_time_def checked_add_def)
  have per: "drain_period v ?s = Inr p" using period(1) by simp
  have q: "queue_ok ?s" using solventD(1) [OF w] by simp
  have cfg: "same_config (stk w) ?s'" "unbonding_count ?s' = unbonding_count (stk w) + 1"
    using nz by (simp_all add: same_config_def enqueue_unbonding_def set_stake_def Let_def)
  define vs where "vs = (vset w)\<lparr>val_stake := (val_stake (vset w))(?a := 0),
    val_unbonding_end := (val_unbonding_end (vset w))(?a := ts + p)\<rparr>"
  have vs: "vs = release_all T {?a} (vset w)"
    by (auto simp: vs_def release_all_def T intro!: validator_set.equality)
  have run: "drain_stake ts v w = Inr (w\<lparr>stk := ?s', vset := vs\<rparr>)"
    using le ct per by (simp only: drain_stake_eq vs_def Let_def if_False and_then_simps)
  have "solvent (w\<lparr>stk := ?s', vset := vs\<rparr>)"
  proof (rule solventI)
    show "queue_ok (stk (w\<lparr>stk := ?s', vset := vs\<rparr>))"
      using q a room by (simp add: queue_ok_enqueue)
    show "unat (total_staked (stk (w\<lparr>stk := ?s', vset := vs\<rparr>))) = sum_staked (stk (w\<lparr>stk := ?s', vset := vs\<rparr>))"
      using out(1) by (simp add: enqueue_effect [OF q] staking_inv_def del: set_stake_frame)
    show "sum_staked (stk (w\<lparr>stk := ?s', vset := vs\<rparr>)) + sum_unbonding (stk (w\<lparr>stk := ?s', vset := vs\<rparr>))
        \<le> unat (balances (w\<lparr>stk := ?s', vset := vs\<rparr>) STAKING_ADDRESS)"
      using out(2) solventD(4) [OF w] by (simp add: enqueue_effect [OF q])
  qed
  moreover have "released T {?a} (stk w) ?s'"
    using released_enqueue [OF solventD(1) [OF w] nz a, of _ "ts + p"] out(2) T by (auto simp: released_def)
  ultimately show ?thesis using run vs room cfg by (simp add: settled_def unat_add_exact)
qed

lemma finalize_settled:
  assumes w: "solvent w" and a: "a \<noteq> 0"
  shows "\<exists>w'. finalize_inactive_if_complete a w = Inr w' \<and> settled T {} (if finished w a then {a} else {}) w w' \<and>
    unbonding_count (stk w') = unbonding_count (stk w)"
  using w by (simp add: finalize_result [OF solventD(1) [OF w] a] settled_def)

lemma drain_stake_period:
  assumes "drain_stake ts v w = Inr w'"
  obtains p where "drain_period v (stk w) = Inr p" and "unat ts + unat p < 2 ^ 64"
  using assms
  by (auto simp: drain_stake_eq Let_def and_then_eq_Inr checked_complete_time_def checked_add_def
      split: if_splits option.splits)

text \<open>One iteration: the validators it releases and retires, from the record read before the loop.\<close>

definition draining_one :: "validator_record \<Rightarrow> 'a world_scheme \<Rightarrow> address set" where
  "draining_one v w = (if status_of v = UNBONDING \<and> stake_amount (stk w) (validator_address v) \<noteq> 0
     then {validator_address v} else {})"

definition retiring_one :: "validator_record \<Rightarrow> 'a world_scheme \<Rightarrow> address set" where
  "retiring_one v w = (if status_of v = UNBONDING \<and> finished w (validator_address v)
     then {validator_address v} else {})"

lemma process_validator_settled:
  assumes w: "solvent w" and a: "validator_address v \<noteq> 0"
    and room: "unat (unbonding_count (stk w)) + 1 < 2 ^ 32"
    and ok: "(\<exists>w'. process_validator ts v w = Inr w') \<or>
      (\<exists>p. drain_period v (stk w) = Inr p \<and> unat ts + unat p < 2 ^ 64)"
    and T: "T (validator_address v) = release_time ts (slash_count v) (stk w)"
  shows "\<exists>w'. process_validator ts v w = Inr w' \<and> settled T (draining_one v w) (retiring_one v w) w w' \<and>
    unat (unbonding_count (stk w')) \<le> unat (unbonding_count (stk w)) + 1"
proof -
  consider (skip) "status_of v \<noteq> UNBONDING"
    | (drain) "status_of v = UNBONDING" "stake_amount (stk w) (validator_address v) \<noteq> 0"
    | (final) "status_of v = UNBONDING" "stake_amount (stk w) (validator_address v) = 0" by blast
  then show ?thesis
  proof cases
    case skip
    with w show ?thesis by (simp add: process_validator_def settled_def draining_one_def retiring_one_def)
  next
    case drain
    with ok obtain p where p: "drain_period v (stk w) = Inr p" "unat ts + unat p < 2 ^ 64"
      by (auto simp: process_validator_def elim: drain_stake_period)
    with T have "T (validator_address v) = ts + p" by (simp add: release_time_def drain_period_def)
    from drain_stake_settled [where T = T, OF w a room drain(2) p this] drain show ?thesis
      by (simp add: process_validator_def draining_one_def retiring_one_def finished_def)
  next
    case final
    from finalize_settled [OF w a, of T] final show ?thesis
      by (auto simp: process_validator_def draining_one_def retiring_one_def)
  qed
qed

end
