(* ===== verification/Validator_Lifecycle.thy ===== *)
theory Validator_Lifecycle
  imports Validator_Registry
begin

text \<open>
  The effect of a reshare activation on shares and statuses
  (\<open>activate_reshared_set\<close> of \<^verbatim>\<open>crates/system/validatorset/src/runtime.rs\<close>) and the
  lifecycle automaton: the status changes each entry point may make.
\<close>

section \<open>The set of validator records\<close>

lemma set_get_all_validators:
  assumes "registry_inv vs"
  shows "set (get_all_validators vs) = (\<lambda>a. the (get_validator vs a)) ` registered vs"
proof (intro equalityI subsetI)
  fix v assume "v \<in> set (get_all_validators vs)"
  then have "validator_address v \<in> registered vs"
    and "v = the (get_validator vs (validator_address v))"
    by (simp_all add: in_get_all_validators [OF assms])
  then show "v \<in> (\<lambda>a. the (get_validator vs a)) ` registered vs" by (rule image_eqI [rotated])
next
  fix v assume "v \<in> (\<lambda>a. the (get_validator vs a)) ` registered vs"
  then obtain a w where "a \<in> registered vs" "get_validator vs a = Some w" "v = w"
    using get_validator_registered by fastforce
  then show "v \<in> set (get_all_validators vs)"
    using get_validator_fields(1) [of vs a w] by (simp add: in_get_all_validators [OF assms])
qed

lemma the_get_validator_fields [simp]:
  assumes "a \<in> registered vs"
  shows "validator_address (the (get_validator vs a)) = a"
    and "status_of (the (get_validator vs a)) = val_status vs a"
    and "has_bls_share (the (get_validator vs a)) = val_has_bls_share vs a"
    and "slash_count (the (get_validator vs a)) = val_slash_count vs a"
    and "stake_of (the (get_validator vs a)) = val_stake vs a"
  using assms by (simp_all add: get_validator_def registered_def)

section \<open>Reshare activation\<close>

lemma clear_shares_frame:
  "val_status (clear_shares all vs) = val_status vs"
  "address_to_index (clear_shares all vs) = address_to_index vs"
  unfolding clear_shares_def by (induction all arbitrary: vs) simp_all

lemma clear_shares_share:
  "val_has_bls_share (clear_shares all vs) a \<longleftrightarrow>
     val_has_bls_share vs a \<and> \<not> (\<exists>v\<in>set all. has_bls_share v \<and> validator_address v = a)"
  unfolding clear_shares_def by (induction all arbitrary: vs) auto

lemma clear_all_shares:
  assumes "registry_inv vs"
  shows "val_has_bls_share (clear_shares (get_all_validators vs) vs) a \<longleftrightarrow>
    val_has_bls_share vs a \<and> a \<notin> registered vs"
  by (auto simp: clear_shares_share set_get_all_validators [OF assms])

definition reshare_eligible :: "validator_set \<Rightarrow> address \<Rightarrow> bool" where
  "reshare_eligible vs a \<longleftrightarrow> address_to_index vs a \<noteq> 0 \<and>
     (val_status vs a = REGISTERED \<or> val_status vs a = PENDING \<or> val_status vs a = ACTIVE)"

lemma grant_share_Inr:
  "(\<exists>vs'. grant_share a vs = Inr vs') \<longleftrightarrow> reshare_eligible vs a"
  by (auto simp: grant_share_def reshare_eligible_def)

lemma grant_share_effect:
  assumes "grant_share a vs = Inr vs'"
  shows "val_status vs' = (val_status vs)(a := ACTIVE)"
    and "val_has_bls_share vs' = (val_has_bls_share vs)(a := True)"
    and "address_to_index vs' = address_to_index vs"
  using assms by (auto simp: grant_share_def split: if_splits)

lemma reshare_eligible_grant:
  "grant_share a vs = Inr vs' \<Longrightarrow> reshare_eligible vs' b = reshare_eligible vs b"
  using grant_share_effect [of a vs vs'] grant_share_Inr [of a vs]
  by (auto simp: reshare_eligible_def)

lemma grant_shares_succeed:
  "(\<exists>vs'. fold_res grant_share new vs = Inr vs') \<longleftrightarrow> (\<forall>a\<in>set new. reshare_eligible vs a)"
proof (induction new arbitrary: vs)
  case (Cons a new)
  show ?case
  proof (cases "grant_share a vs")
    case (Inl e)
    then show ?thesis using grant_share_Inr [of a vs] by simp
  next
    case (Inr vs1)
    then have "reshare_eligible vs a" using grant_share_Inr by blast
    then show ?thesis by (simp add: Inr Cons.IH reshare_eligible_grant [OF Inr])
  qed
qed simp

lemma grant_shares_effect:
  assumes "fold_res grant_share new vs = Inr vs'"
  shows "val_status vs' a = (if a \<in> set new then ACTIVE else val_status vs a)
    \<and> val_has_bls_share vs' a = (a \<in> set new \<or> val_has_bls_share vs a)"
  using assms
proof (induction new arbitrary: vs)
  case (Cons b new)
  then obtain vs1 where "grant_share b vs = Inr vs1" "fold_res grant_share new vs1 = Inr vs'"
    by (auto simp: and_then_eq_Inr)
  with Cons.IH [of vs1] grant_share_effect [of b vs vs1] show ?case by auto
qed simp

lemma retire_exiting_effect:
  "val_status (retire_exiting new all vs) a =
     (if a \<notin> set new \<and> (\<exists>v\<in>set all. status_of v = EXITING \<and> validator_address v = a)
      then UNBONDING else val_status vs a)"
  "val_has_bls_share (retire_exiting new all vs) a \<longleftrightarrow>
     val_has_bls_share vs a \<and>
     \<not> (a \<notin> set new \<and> (\<exists>v\<in>set all. status_of v = EXITING \<and> validator_address v = a))"
  unfolding retire_exiting_def by (induction all arbitrary: vs) auto

lemma exists_status_get_all:
  assumes "registry_inv vs"
  shows "(\<exists>v\<in>set (get_all_validators vs). status_of v = st \<and> validator_address v = a)
    \<longleftrightarrow> a \<in> registered vs \<and> val_status vs a = st"
  by (auto simp: set_get_all_validators [OF assms])

lemma active_validators_addresses:
  assumes "registry_inv vs"
  shows "validator_address ` set (get_active_validators vs)
    = {a \<in> registered vs. val_status vs a = ACTIVE}"
  by (force simp: get_active_validators_def set_get_all_validators [OF assms])

lemma active_consensus_set_addresses:
  assumes "registry_inv vs"
  shows "validator_address ` set (get_active_consensus_set vs)
    = {a \<in> registered vs. is_current_consensus_participant_status (val_status vs a) (val_has_bls_share vs a)}"
  by (force simp: get_active_consensus_set_def set_get_all_validators [OF assms])

lemma reshare_Inr:
  assumes "activate_reshared_set new h vs = Inr vs'"
  obtains vs1 where "fold_res grant_share new (clear_shares (get_all_validators vs) vs) = Inr vs1"
    and "length new < 2 ^ 32"
    and "val_status vs' = val_status (retire_exiting new (get_all_validators vs) vs1)"
    and "val_has_bls_share vs' = val_has_bls_share (retire_exiting new (get_all_validators vs) vs1)"
    and "active_consensus_set_hash vs' = h"
    and "pending_set_change vs' \<longleftrightarrow> \<not> list_all (\<lambda>v. validator_address v \<in> set new)
      (get_active_validators
        ((retire_exiting new (get_all_validators vs) vs1)\<lparr>active_consensus_set_hash := h\<rparr>))"
  using assms
  by (auto simp: activate_reshared_set_def Let_def and_then_eq_Inr emit_def count_u32_def
      split: if_splits)

lemma reshare_succeeds_iff:
  "(\<exists>vs'. activate_reshared_set new h vs = Inr vs') \<longleftrightarrow>
     (\<forall>a\<in>set new. reshare_eligible vs a) \<and> length new < 2 ^ 32"
proof -
  let ?vs0 = "clear_shares (get_all_validators vs) vs"
  have "(\<exists>vs'. activate_reshared_set new h vs = Inr vs') \<longleftrightarrow>
      (\<exists>vs1. fold_res grant_share new ?vs0 = Inr vs1) \<and> length new < 2 ^ 32"
    by (auto simp: activate_reshared_set_def Let_def and_then_eq_Inr count_u32_def)
  then show ?thesis by (simp add: grant_shares_succeed reshare_eligible_def clear_shares_frame)
qed

lemma reshare_status:
  assumes inv: "registry_inv vs" and run: "activate_reshared_set new h vs = Inr vs'"
  shows "val_status vs' a = (if a \<in> set new then ACTIVE
      else if a \<in> registered vs \<and> val_status vs a = EXITING then UNBONDING else val_status vs a)"
  by (rule reshare_Inr [OF run])
    (simp add: retire_exiting_effect exists_status_get_all [OF inv] grant_shares_effect
      clear_shares_frame)

lemma reshare_share:
  assumes inv: "registry_inv vs" and run: "activate_reshared_set new h vs = Inr vs'"
    and a: "a \<in> registered vs"
  shows "val_has_bls_share vs' a \<longleftrightarrow> a \<in> set new"
  by (rule reshare_Inr [OF run])
    (use a in \<open>auto simp: retire_exiting_effect exists_status_get_all [OF inv] grant_shares_effect
      clear_all_shares [OF inv]\<close>)

lemma reshare_pending:
  assumes inv: "registry_inv vs" and run: "activate_reshared_set new h vs = Inr vs'"
  shows "pending_set_change vs' \<longleftrightarrow> (\<exists>a\<in>registered vs. val_status vs' a = ACTIVE \<and> a \<notin> set new)"
proof (rule reshare_Inr [OF run])
  fix vs1
  assume g: "fold_res grant_share new (clear_shares (get_all_validators vs) vs) = Inr vs1"
    and status: "val_status vs' = val_status (retire_exiting new (get_all_validators vs) vs1)"
    and pend: "pending_set_change vs' \<longleftrightarrow> \<not> list_all (\<lambda>v. validator_address v \<in> set new)
      (get_active_validators
        ((retire_exiting new (get_all_validators vs) vs1)\<lparr>active_consensus_set_hash := h\<rparr>))"
  let ?ws = "(retire_exiting new (get_all_validators vs) vs1)\<lparr>active_consensus_set_hash := h\<rparr>"
  have "same_registry vs vs1"
    using same_registry_clear_shares fold_res_same_registry [OF g same_registry_grant_share]
    by (rule same_registry_trans)
  from same_registry_trans [OF this same_registry_retire_exiting [of vs1 new]]
  have same: "same_registry vs ?ws" by (simp add: same_registry_def)
  have "pending_set_change vs' \<longleftrightarrow> \<not> validator_address ` set (get_active_validators ?ws) \<subseteq> set new"
    unfolding pend by (auto simp: list_all_iff)
  then show ?thesis
    using active_validators_addresses [of ?ws] same_registry_inv [OF same] inv
      same_registry_registered [OF same] status by auto
qed

text \<open>
  C22. Activating a reshared set succeeds exactly when every member is a registered
  \<open>REGISTERED\<close>, \<open>PENDING\<close> or \<open>ACTIVE\<close> validator (and the set fits a \<open>u32\<close>). Afterwards the
  registered holders of a key share, and the active consensus set, are exactly the new set;
  its members are \<open>ACTIVE\<close>, every \<open>EXITING\<close> validator outside it is \<open>UNBONDING\<close>, all other
  statuses are unchanged, and a further reshare is pending exactly when some \<open>ACTIVE\<close>
  validator was left out.
\<close>

theorem activate_reshared_set_correct:
  assumes inv: "registry_inv vs"
  shows "case activate_reshared_set new h vs of
      Inl _ \<Rightarrow> \<not> (\<forall>a\<in>set new. reshare_eligible vs a) \<or> 2 ^ 32 \<le> length new
    | Inr vs' \<Rightarrow> (\<forall>a\<in>set new. reshare_eligible vs a) \<and> length new < 2 ^ 32 \<and>
        validator_address ` set (get_active_consensus_set vs') = set new \<and>
        (\<forall>a\<in>registered vs. val_has_bls_share vs' a \<longleftrightarrow> a \<in> set new) \<and>
        (\<forall>a. val_status vs' a =
           (if a \<in> set new then ACTIVE
            else if a \<in> registered vs \<and> val_status vs a = EXITING then UNBONDING
            else val_status vs a)) \<and>
        active_consensus_set_hash vs' = h \<and>
        (pending_set_change vs' \<longleftrightarrow>
           (\<exists>a\<in>registered vs. val_status vs' a = ACTIVE \<and> a \<notin> set new))"
proof (cases "activate_reshared_set new h vs")
  case (Inl e)
  then show ?thesis using reshare_succeeds_iff [of new h vs] by auto
next
  case (Inr vs')
  have elig: "\<forall>a\<in>set new. reshare_eligible vs a" "length new < 2 ^ 32"
    using reshare_succeeds_iff [of new h vs] Inr by auto
  have new: "set new \<subseteq> registered vs"
    using elig by (auto simp: reshare_eligible_def registered_def)
  have inv': "registry_inv vs'" and reg': "registered vs' = registered vs"
    using reshare.keeps_registry_inv [OF Inr inv] reshare.keeps_registered [OF Inr] by auto
  note status = reshare_status [OF inv Inr] and share = reshare_share [OF inv Inr]
  have "validator_address ` set (get_active_consensus_set vs') = set new"
    using new by (auto simp: active_consensus_set_addresses [OF inv'] reg' share status
        is_current_consensus_participant_status_def)
  moreover have "active_consensus_set_hash vs' = h" by (rule reshare_Inr [OF Inr])
  ultimately show ?thesis
    using elig share reshare_pending [OF inv Inr] by (simp add: Inr status)
qed

theorem activate_reshared_set_correct_witness:
  "\<exists>vs'. activate_reshared_set [5] B256_ZERO one_validator = Inr vs' \<and>
     val_status vs' 5 = ACTIVE \<and> val_has_bls_share vs' 5 \<and>
     validator_address ` set (get_active_consensus_set vs') = {5}"
proof -
  have "reshare_eligible one_validator 5"
    using one_validator_inv(3)
    by (auto simp: reshare_eligible_def registered_def one_validator_def register_new_def Let_def
        emit_def)
  then show ?thesis
    using activate_reshared_set_correct [OF one_validator_inv(1), of "[5]" B256_ZERO]
      one_validator_inv(3)
    by (cases "activate_reshared_set [5] B256_ZERO one_validator") auto
qed

end
