(* ===== verification/Staking_Properties.thy ===== *)
theory Staking_Properties
  imports Staking_Invariants Validator_Lifecycle
begin

text \<open>
  The block hook \<open>process_unbonding\<close> over all validators, and the functional correctness of
  the staking operations on a solvent state.
\<close>

definition unbonding_in :: "validator_record list \<Rightarrow> address \<Rightarrow> bool" where
  "unbonding_in xs a \<longleftrightarrow> (\<exists>v\<in>set xs. validator_address v = a \<and> status_of v = UNBONDING)"

text \<open>The validators whose stake the hook releases, and those it makes inactive.\<close>

definition draining :: "validator_record list \<Rightarrow> 'a world_scheme \<Rightarrow> address set" where
  "draining xs w = {a. unbonding_in xs a \<and> stake_amount (stk w) a \<noteq> 0}"

definition retiring :: "validator_record list \<Rightarrow> 'a world_scheme \<Rightarrow> address set" where
  "retiring xs w = {a. unbonding_in xs a \<and> finished w a}"

abbreviation settled_all :: "(address \<Rightarrow> u64) \<Rightarrow> validator_record list \<Rightarrow> 'a world_scheme \<Rightarrow> 'a world_scheme \<Rightarrow> bool" where
  "settled_all T xs w w' \<equiv> settled T (draining xs w) (retiring xs w) w w'"

lemma settled_Nil: "solvent w \<Longrightarrow> settled_all T [] w w"
  by (simp add: settled_def draining_def retiring_def unbonding_in_def)

lemma settledD:
  assumes "settled T D R w w'"
  shows "solvent w'" "same_config (stk w) (stk w')" "released T D (stk w) (stk w')"
    "w' = w\<lparr>stk := stk w', vset := retire_all R (release_all T D (vset w))\<rparr>"
  using assms unfolding settled_def by blast+

lemma settled_vset: "settled T D R w w' \<Longrightarrow> vset w' = retire_all R (release_all T D (vset w))"
  unfolding settled_def by (metis world.select_convs(2) world.surjective world.update_convs(2))

lemma settled_other:
  assumes "settled T D R w w'" and "b \<notin> D" "b \<notin> R" "b \<noteq> 0"
  shows "stake_amount (stk w') b = stake_amount (stk w) b" "finished w' b = finished w b"
proof -
  show st: "stake_amount (stk w') b = stake_amount (stk w) b"
    using settledD(3) [OF assms(1)] assms(2) by (simp add: released_def)
  have "pending_of (stk w') b = pending_of (stk w) b"
    by (rule released_pending [OF settledD(3) [OF assms(1)] assms(2,4)])
  with st assms(3) show "finished w' b = finished w b"
    by (simp add: finished_def settled_vset [OF assms(1)] retire_all_def release_all_def is_validator_def)
qed

lemma settled_Cons:
  assumes one: "settled T (draining_one v w) (retiring_one v w) w w1" and all: "settled_all T xs w1 w2"
    and new: "validator_address v \<notin> validator_address ` set xs" "0 \<notin> validator_address ` set (v # xs)"
  shows "settled_all T (v # xs) w w2"
proof -
  have sub: "draining_one v w \<subseteq> {validator_address v}" "retiring_one v w \<subseteq> {validator_address v}"
    by (simp_all add: draining_one_def retiring_one_def)
  have in_xs: "b \<noteq> validator_address v \<and> b \<noteq> 0" if "unbonding_in xs b" for b
    using that new by (auto simp: unbonding_in_def image_iff)
  have same: "stake_amount (stk w1) b = stake_amount (stk w) b" "finished w1 b = finished w b"
    if "unbonding_in xs b" for b
    using settled_other [OF one, of b] in_xs [OF that] sub by blast+
  have in_Cons: "unbonding_in (v # xs) b \<longleftrightarrow> b = validator_address v \<and> status_of v = UNBONDING \<or> unbonding_in xs b" for b
    by (auto simp: unbonding_in_def)
  have "draining (v # xs) w = draining_one v w \<union> draining xs w1" "retiring (v # xs) w = retiring_one v w \<union> retiring xs w1"
    using same by (auto simp: draining_def retiring_def in_Cons draining_one_def retiring_one_def)
  moreover have "0 \<notin> draining_one v w" using sub(1) new(2) by auto
  moreover have "draining_one v w \<inter> draining xs w1 = {}" "retiring_one v w \<inter> draining xs w1 = {}"
    using sub in_xs by (auto simp: draining_def)
  ultimately show ?thesis using settled_trans [OF one all] by simp
qed

text \<open>Each release time is that of the record read before the loop.\<close>

definition release_times :: "(address \<Rightarrow> u64) \<Rightarrow> u64 \<Rightarrow> validator_record list \<Rightarrow> staking \<Rightarrow> bool" where
  "release_times T ts xs s \<longleftrightarrow> (\<forall>v\<in>set xs. T (validator_address v) = release_time ts (slash_count v) s)"

lemma release_times_settled:
  "release_times T ts (v # xs) (stk w) \<Longrightarrow> settled T D R w w1 \<Longrightarrow> release_times T ts xs (stk w1)"
  using release_time_cong [OF settledD(2), of T D R w w1] by (auto simp: release_times_def)

lemma process_all_returns:
  assumes "solvent w" and "0 \<notin> validator_address ` set xs" and "release_times T ts xs (stk w)"
    and "unat (unbonding_count (stk w)) + length xs < 2 ^ 32"
    and "unat ts + unat (config_unbonding_period (stk w)) < 2 ^ 64"
    and "slashed_withdrawal_delay (stk w) = Inr d" "unat ts + unat d < 2 ^ 64"
  shows "\<exists>w'. fold_res (process_validator ts) xs w = Inr w'"
  using assms
proof (induction xs arbitrary: w)
  case (Cons v xs)
  have "\<exists>p. drain_period v (stk w) = Inr p \<and> unat ts + unat p < 2 ^ 64"
    using Cons.prems by (auto simp: drain_period_def)
  moreover have "T (validator_address v) = release_time ts (slash_count v) (stk w)"
    using Cons.prems(3) by (simp add: release_times_def)
  ultimately obtain w1 where w1: "process_validator ts v w = Inr w1"
      "settled T (draining_one v w) (retiring_one v w) w w1"
      "unat (unbonding_count (stk w1)) \<le> unat (unbonding_count (stk w)) + 1"
    using process_validator_settled [of w v ts T] Cons.prems by auto
  note settledD [OF w1(2)]
  then have "\<exists>w'. fold_res (process_validator ts) xs w1 = Inr w'"
    using Cons.prems w1(3) release_times_settled [OF Cons.prems(3) w1(2)] same_config_period [of "stk w" "stk w1"]
    by (intro Cons.IH) auto
  with w1(1) show ?case by simp
qed simp

lemma process_all_settled:
  assumes "solvent w" and "distinct (map validator_address xs)" and "0 \<notin> validator_address ` set xs"
    and "release_times T ts xs (stk w)"
    and "unat (unbonding_count (stk w)) + length xs < 2 ^ 32"
    and "fold_res (process_validator ts) xs w = Inr w'"
  shows "settled_all T xs w w'"
  using assms
proof (induction xs arbitrary: w)
  case Nil
  then show ?case by (simp add: settled_Nil)
next
  case (Cons v xs)
  then obtain w1 where w1: "process_validator ts v w = Inr w1" "fold_res (process_validator ts) xs w1 = Inr w'"
    by (auto simp: and_then_eq_Inr)
  have "T (validator_address v) = release_time ts (slash_count v) (stk w)"
    using Cons.prems(4) by (simp add: release_times_def)
  with process_validator_settled [of w v ts T] Cons.prems w1(1)
  have st: "settled T (draining_one v w) (retiring_one v w) w w1"
    "unat (unbonding_count (stk w1)) \<le> unat (unbonding_count (stk w)) + 1" by auto
  have "settled_all T xs w1 w'"
    using Cons.prems w1(2) st release_times_settled [OF Cons.prems(4) st(1)]
      settledD(1) [OF st(1)] by (intro Cons.IH) auto
  with st(1) show ?case using Cons.prems by (intro settled_Cons) auto
qed

lemma get_all_validators_nonzero: "0 \<notin> validator_address ` set (get_all_validators vs)"
  by (auto simp: get_all_validators_def List.map_filter_def Let_def get_validator_def split: if_splits)

lemma solvent_trim:
  assumes "solvent w"
  shows "solvent (w\<lparr>stk := (stk w)\<lparr>unbonding_count :=
    trim_tail k (unbonding_validator (stk w)) (unbonding_count (stk w))\<rparr>\<rparr>)"
  using assms queue_ok_trim [of "stk w"]
  by (auto simp: solvent_def staking_inv_def covers_def sum_staked_def sum_unbonding_def)

lemma settled_trim:
  assumes "settled T D R w w'"
  shows "settled T D R w (w'\<lparr>stk := (stk w')\<lparr>unbonding_count :=
    trim_tail k (unbonding_validator (stk w')) (unbonding_count (stk w'))\<rparr>\<rparr>)"
proof -
  note D = settledD [OF assms]
  from D(4) have "w'\<lparr>stk := s\<rparr> = w\<lparr>stk := s, vset := retire_all R (release_all T D (vset w))\<rparr>" for s
    by (metis world.surjective world.update_convs(2,3))
  moreover have "sum_staked (s\<lparr>unbonding_count := n\<rparr>) = sum_staked s" "sum_unbonding (s\<lparr>unbonding_count := n\<rparr>) = sum_unbonding s"
    for s n by (simp_all add: sum_staked_def sum_unbonding_def)
  ultimately show ?thesis
    using D(2,3) solvent_trim [OF D(1), of k] unfolding settled_def
    by (simp add: released_def same_config_def)
qed

lemma is_validator_registered: "is_validator vs a \<longleftrightarrow> a \<in> registered vs"
  by (simp add: is_validator_def registered_def word_neq_0_conv)

abbreviation hook_releases :: "'a world_scheme \<Rightarrow> address set" where
  "hook_releases w \<equiv> {a \<in> registered (vset w). val_status (vset w) a = UNBONDING \<and> stake_amount (stk w) a \<noteq> 0}"

abbreviation hook_retires :: "'a world_scheme \<Rightarrow> address set" where
  "hook_retires w \<equiv> {a \<in> registered (vset w). val_status (vset w) a = UNBONDING \<and> stake_amount (stk w) a = 0 \<and>
     \<not> pending_of (stk w) a}"

lemma release_times_get_all:
  "registry_inv (vset w) \<Longrightarrow>
   release_times (\<lambda>a. release_time ts (val_slash_count (vset w) a) (stk w)) ts (get_all_validators (vset w)) (stk w)"
  unfolding release_times_def
proof
  fix v assume "registry_inv (vset w)" "v \<in> set (get_all_validators (vset w))"
  then have v: "get_validator (vset w) (validator_address v) = Some v" by (simp add: in_get_all_validators)
  then have "address_to_index (vset w) (validator_address v) \<noteq> 0" by (auto simp: get_validator_def)
  then have "slash_count (the (get_validator (vset w) (validator_address v))) = val_slash_count (vset w) (validator_address v)"
    by (simp add: get_validator_def)
  with v show "release_time ts (val_slash_count (vset w) (validator_address v)) (stk w) =
      release_time ts (slash_count v) (stk w)" by simp
qed

lemma process_unbonding_settled:
  assumes w: "solvent w" and inv: "registry_inv (vset w)" and run: "process_unbonding ts w = Inr w'"
    and room: "unat (unbonding_count (stk w)) + length (get_all_validators (vset w)) < 2 ^ 32"
  shows "settled (\<lambda>a. release_time ts (val_slash_count (vset w) a) (stk w)) (hook_releases w) (hook_retires w) w w'"
proof -
  let ?all = "get_all_validators (vset w)"
  from run obtain w1 where w1: "fold_res (process_validator ts) ?all w = Inr w1"
    and w': "w' = w1\<lparr>stk := (stk w1)\<lparr>unbonding_count := trim_tail (unat MAX_COMPACTION_PER_BLOCK)
      (unbonding_validator (stk w1)) (unbonding_count (stk w1))\<rparr>\<rparr>"
    by (auto simp: process_unbonding_def and_then_eq_Inr Let_def)
  have "unbonding_in ?all a \<longleftrightarrow> a \<in> registered (vset w) \<and> val_status (vset w) a = UNBONDING" for a
    using exists_status_get_all [OF inv, of UNBONDING a] by (auto simp: unbonding_in_def)
  then have "draining ?all w = hook_releases w" "retiring ?all w = hook_retires w"
    by (auto simp: draining_def retiring_def finished_def is_validator_registered)
  with process_all_settled [OF w distinct_addresses_get_all [OF inv] get_all_validators_nonzero
      release_times_get_all [OF inv] room w1]
  show ?thesis unfolding w' by (intro settled_trim) simp
qed

definition settles_unbonding :: "'a world_scheme \<Rightarrow> 'a world_scheme \<Rightarrow> bool" where
  "settles_unbonding w w' \<longleftrightarrow> solvent w' \<and> balances w' = balances w \<and>
    same_registry (vset w) (vset w') \<and>
    (\<forall>a. stake_amount (stk w') a =
       (if a \<in> registered (vset w) \<and> val_status (vset w) a = UNBONDING then 0
        else stake_amount (stk w) a)) \<and>
    (\<forall>a. a \<noteq> 0 \<and> stake_amount (stk w) a = 0 \<longrightarrow> pending_of (stk w') a = pending_of (stk w) a) \<and>
    (\<forall>a. val_status (vset w') a =
       (if a \<in> registered (vset w) \<and> val_status (vset w) a = UNBONDING \<and>
           stake_amount (stk w) a = 0 \<and> \<not> pending_of (stk w) a
        then INACTIVE else val_status (vset w) a))"

lemma settled_frame:
  assumes "settled T D R w w'"
  shows "balances w' = balances w" "same_registry (vset w) (vset w')"
proof -
  from settledD(4) [OF assms] show "balances w' = balances w" by (metis world.select_convs(1) world.surjective world.update_convs(2,3))
  show "same_registry (vset w) (vset w')"
    by (simp add: settled_vset [OF assms] same_registry_def retire_all_def release_all_def)
qed

lemma settles_unbonding_Inr:
  assumes w: "solvent w" and inv: "registry_inv (vset w)" and run: "process_unbonding ts w = Inr w'"
    and room: "unat (unbonding_count (stk w)) + length (get_all_validators (vset w)) < 2 ^ 32"
  shows "settles_unbonding w w'"
proof -
  note st = process_unbonding_settled [OF assms]
  have "pending_of (stk w') a = pending_of (stk w) a" if "a \<noteq> 0" "stake_amount (stk w) a = 0" for a
    using that by (intro released_pending [OF settledD(3) [OF st]]) auto
  moreover have "solvent w'" "stake_amount (stk w') = (\<lambda>a. if a \<in> hook_releases w then 0 else stake_amount (stk w) a)"
    using settledD(1,3) [OF st] by (simp_all add: released_def)
  ultimately show ?thesis
    using settled_frame [OF st] unfolding settles_unbonding_def settled_vset [OF st]
    by (auto simp: retire_all_def release_all_def)
qed

text \<open>
  C21. Every block, the unbonding hook returns (as long as completion times fit in 64 bits
  and the queue has room) and keeps the contract solvent. The stake of every \<open>UNBONDING\<close>
  validator moves into the queue: its stake is 0 in both contracts, a new entry holds exactly
  that amount for it until its release time, which is the unbonding period or, after a slash,
  the longer delay from now, and the validator's end of unbonding is that time. Every entry that
  was there stays as it is, and no other entry is made: stake and entries together are worth
  what they were. An \<open>UNBONDING\<close> validator with neither stake nor a pending entry left becomes
  \<open>INACTIVE\<close> and loses its key share. Nothing else changes but the links and the count of the
  queue: no balance, no other validator, no configuration.
\<close>

theorem process_unbonding_correct:
  assumes w: "solvent w" and inv: "registry_inv (vset w)"
    and room: "unat (unbonding_count (stk w)) + length (get_all_validators (vset w)) < 2 ^ 32"
    and period: "unat ts + unat (config_unbonding_period (stk w)) < 2 ^ 64"
    and delay: "slashed_withdrawal_delay (stk w) = Inr d" "unat ts + unat d < 2 ^ 64"
    and T: "T = (\<lambda>a. ts + (if 0 < val_slash_count (vset w) a then d else config_unbonding_period (stk w)))"
    and D: "D = {a \<in> registered (vset w). val_status (vset w) a = UNBONDING \<and> stake_amount (stk w) a \<noteq> 0}"
    and R: "R = {a \<in> registered (vset w). val_status (vset w) a = UNBONDING \<and> stake_amount (stk w) a = 0 \<and>
      \<not> pending_of (stk w) a}"
  shows "\<exists>w'. process_unbonding ts w = Inr w' \<and> solvent w' \<and>
    stake_amount (stk w') = (\<lambda>a. if a \<in> D then 0 else stake_amount (stk w) a) \<and>
    (\<forall>a\<in>D. \<exists>i. unbonding_validator (stk w) i = 0 \<and> unbonding_validator (stk w') i = a \<and>
       unbonding_amount (stk w') i = stake_amount (stk w) a \<and> unbonding_complete_time (stk w') i = T a) \<and>
    (\<forall>i. unbonding_validator (stk w) i \<noteq> 0 \<longrightarrow> unbonding_validator (stk w') i = unbonding_validator (stk w) i \<and>
       unbonding_amount (stk w') i = unbonding_amount (stk w) i \<and>
       unbonding_complete_time (stk w') i = unbonding_complete_time (stk w) i) \<and>
    (\<forall>i. unbonding_validator (stk w) i = 0 \<longrightarrow> unbonding_validator (stk w') i \<in> insert 0 D) \<and>
    sum_staked (stk w') + sum_unbonding (stk w') = sum_staked (stk w) + sum_unbonding (stk w) \<and>
    same_config (stk w) (stk w') \<and>
    w' = w\<lparr>stk := stk w', vset := (vset w)
      \<lparr>val_stake := (\<lambda>a. if a \<in> D then 0 else val_stake (vset w) a),
       val_unbonding_end := (\<lambda>a. if a \<in> D then T a else if a \<in> R then 0 else val_unbonding_end (vset w) a),
       val_status := (\<lambda>a. if a \<in> R then INACTIVE else val_status (vset w) a),
       val_has_bls_share := (\<lambda>a. a \<notin> R \<and> val_has_bls_share (vset w) a)\<rparr>\<rparr>"
proof -
  obtain w1 where "fold_res (process_validator ts) (get_all_validators (vset w)) w = Inr w1"
    using process_all_returns [OF w get_all_validators_nonzero release_times_get_all [OF inv] room period delay] by blast
  then obtain w' where run: "process_unbonding ts w = Inr w'"
    by (simp add: process_unbonding_def Let_def)
  have T': "(\<lambda>a. release_time ts (val_slash_count (vset w) a) (stk w)) = T"
    by (simp add: T fun_eq_iff release_time_def delay(1))
  have st: "settled T D R w w'"
    using process_unbonding_settled [OF w inv run room] unfolding T' D R .
  have vs: "retire_all R (release_all T D (vset w)) = (vset w)
      \<lparr>val_stake := (\<lambda>a. if a \<in> D then 0 else val_stake (vset w) a),
       val_unbonding_end := (\<lambda>a. if a \<in> D then T a else if a \<in> R then 0 else val_unbonding_end (vset w) a),
       val_status := (\<lambda>a. if a \<in> R then INACTIVE else val_status (vset w) a),
       val_has_bls_share := (\<lambda>a. a \<notin> R \<and> val_has_bls_share (vset w) a)\<rparr>"
    by (auto simp: retire_all_def release_all_def fun_eq_iff D R intro!: validator_set.equality)
  show ?thesis
    using run settledD(1-3) [OF st] settledD(4) [OF st, unfolded vs] unfolding released_def
    by (intro exI [of _ w'] conjI) blast+
qed

text \<open>
  C7. From a solvent state a claim always succeeds, and this is its whole effect. It pays the
  caller exactly the sum of its mature entries out of the contract's balance. These entries
  are cleared (owner, amount and time) and unlinked from the caller's list; every other entry
  keeps its owner, amount and time, and all stake, the total and the configuration stay. If
  the caller is an \<open>UNBONDING\<close> validator without stake and no pending entry of it is left, it
  becomes \<open>INACTIVE\<close>, with its end of unbonding and its key share cleared; otherwise the
  validator set is unchanged. The contract stays solvent, its lists well-formed.
\<close>

theorem claim_unbonded_correct:
  assumes "solvent w" and "caller \<noteq> 0"
    and A: "A = {i. unbonding_validator (stk w) i = caller \<and> unbonding_complete_time (stk w) i \<le> ts}"
  shows "\<exists>x w' nx head. claim_unbonded ts caller w = Inr w' \<and> solvent w' \<and>
    unat x = (\<Sum>i\<in>A. unat (unbonding_amount (stk w) i)) \<and>
    w' = w\<lparr>stk := (stk w)
        \<lparr>unbonding_validator := (\<lambda>i. if i \<in> A then 0 else unbonding_validator (stk w) i),
         unbonding_amount := (\<lambda>i. if i \<in> A then 0 else unbonding_amount (stk w) i),
         unbonding_complete_time := (\<lambda>i. if i \<in> A then 0 else unbonding_complete_time (stk w) i),
         unbonding_next := nx, per_val_unbonding_head := (per_val_unbonding_head (stk w))(caller := head)\<rparr>,
      balances := (if caller = STAKING_ADDRESS then balances w
        else (balances w)(STAKING_ADDRESS := balances w STAKING_ADDRESS - x, caller := balances w caller + x)),
      vset := (if is_validator (vset w) caller \<and> val_status (vset w) caller = UNBONDING \<and>
          stake_amount (stk w) caller = 0 \<and>
          \<not> (\<exists>i. i \<notin> A \<and> unbonding_validator (stk w) i = caller \<and> unbonding_amount (stk w) i \<noteq> 0)
        then (vset w)\<lparr>val_status := (val_status (vset w))(caller := INACTIVE),
          val_unbonding_end := (val_unbonding_end (vset w))(caller := 0),
          val_has_bls_share := (val_has_bls_share (vset w))(caller := False)\<rparr>
        else vset w)\<rparr>"
proof -
  obtain x nx head w1 where run: "claim_unbonded ts caller w =
      Inr (w1\<lparr>vset := retire_all (if finished w1 caller then {caller} else {}) (vset w)\<rparr>)"
    and w1: "w1 = w\<lparr>stk := (zero_entries (claimed ts caller (stk w)) (stk w))
        \<lparr>unbonding_next := nx, per_val_unbonding_head := (per_val_unbonding_head (stk w))(caller := head)\<rparr>,
      balances := after_payout caller x (balances w)\<rparr>"
    and x: "unat x = claimable_amount ts caller (stk w)"
    by (rule claim_unbonded_exact [OF assms(1,2), of ts])
  have c: "claimed ts caller (stk w) = A" using assms(2) by (auto simp: claimed_def A)
  have fin: "finished w1 caller \<longleftrightarrow> is_validator (vset w) caller \<and> val_status (vset w) caller = UNBONDING \<and>
      stake_amount (stk w) caller = 0 \<and>
      \<not> (\<exists>i. i \<notin> A \<and> unbonding_validator (stk w) i = caller \<and> unbonding_amount (stk w) i \<noteq> 0)"
    using assms(2) by (auto simp: finished_def pending_of_def w1 c)
  define vs where "vs = retire_all (if finished w1 caller then {caller} else {}) (vset w)"
  have vs: "vs = (if is_validator (vset w) caller \<and> val_status (vset w) caller = UNBONDING \<and>
      stake_amount (stk w) caller = 0 \<and>
      \<not> (\<exists>i. i \<notin> A \<and> unbonding_validator (stk w) i = caller \<and> unbonding_amount (stk w) i \<noteq> 0)
      then (vset w)\<lparr>val_status := (val_status (vset w))(caller := INACTIVE),
        val_unbonding_end := (val_unbonding_end (vset w))(caller := 0),
        val_has_bls_share := (val_has_bls_share (vset w))(caller := False)\<rparr> else vset w)"
    unfolding vs_def fin by (auto simp: retire_all_single)
  have "unat x = (\<Sum>i\<in>A. unat (unbonding_amount (stk w) i))" by (simp add: x claimable_amount_def c)
  moreover note run [folded vs_def]
  moreover have "solvent (w1\<lparr>vset := vs\<rparr>)"
    by (rule claim_unbonded_solvent [OF assms(1) run [folded vs_def] assms(2)])
  ultimately show ?thesis unfolding vs [symmetric]
    by (intro exI [of _ x] exI [of _ "w1\<lparr>vset := vs\<rparr>"] exI [of _ nx] exI [of _ head])
      (simp add: w1 c after_payout_def zero_entries_def)
qed

text \<open>
  C8. A slash of at most 100 percent, whose withdrawal time fits in 64 bits, always
  succeeds: the validator's stake and each of its unbonding entries lose their percentage,
  other accounts lose nothing, exactly the reported total is burned from the contract's
  balance, and the contract stays solvent.
\<close>

theorem slash_stake_correct:
  assumes "solvent w" and "p \<le> 100"
    and "slashed_withdrawal_delay (stk w) = Inr d" and "unat ts + unat d < 2 ^ 64"
    and "v \<noteq> 0" and "unat (balances w STAKING_ADDRESS) * 100 < 2 ^ 256"
  shows "\<exists>x w'. slash_stake bn ts v p w = Inr (x, w') \<and> solvent w' \<and>
    unat (stake_amount (stk w') v) =
      unat (stake_amount (stk w) v) - unat (stake_amount (stk w) v) * unat p div 100 \<and>
    (\<forall>a. a \<noteq> v \<longrightarrow> stake_amount (stk w') a = stake_amount (stk w) a) \<and>
    (\<forall>i. unat (unbonding_amount (stk w') i) = unat (unbonding_amount (stk w) i) -
       (if unbonding_validator (stk w) i = v then unat (unbonding_amount (stk w) i) * unat p div 100
        else 0)) \<and>
    sum_staked (stk w') + sum_unbonding (stk w') + unat x = sum_staked (stk w) + sum_unbonding (stk w) \<and>
    balances w' = (balances w)(STAKING_ADDRESS := balances w STAKING_ADDRESS - x)"
proof -
  note w = assms(1) and p = assms(2)
  have t: "checked_complete_time ts d = Inr (ts + d)"
    using assms(4) by (simp add: checked_complete_time_def checked_add_def)
  obtain x w' where r: "slash_stake bn ts v p w = Inr (x, w')" "unat x = slash_total v p (stk w)"
    "stk w' = slash_entries p (ts + d) (owned v (stk w)) (slashed_stake v p (stk w))"
    "balances w' = (balances w)(STAKING_ADDRESS := balances w STAKING_ADDRESS - x)"
    by (rule slash_stake_result [OF w p assms(3) t])
  have exact: "unat (percent_of y p) = unat y * unat p div 100"
    if "unat y \<le> unat (balances w STAKING_ADDRESS)" for y
  proof -
    have "unat y * unat p \<le> unat (balances w STAKING_ADDRESS) * 100"
      using that p by (intro mult_mono) (simp_all add: word_le_nat_alt)
    with assms(6) show ?thesis by (simp add: percent_of_def unat_div unat_mult_exact)
  qed
  have cut: "unat (y - percent_of y p) = unat y - unat y * unat p div 100"
    if "unat y \<le> unat (balances w STAKING_ADDRESS)" for y
    using exact [OF that] percent_of_le [OF p] by (simp add: unat_sub_exact)
  have "unat (stake_amount (stk w) v) \<le> unat (balances w STAKING_ADDRESS)"
    "unat (unbonding_amount (stk w) i) \<le> unat (balances w STAKING_ADDRESS)" for i
    using solventD(4) [OF w] stake_le_sum [of "stk w" v] unbonding_le_sum [of "stk w" i] by simp_all
  note cuts = this [THEN cut]
  show ?thesis
    using r slash_stake_solvent [OF w r(1)] cuts assms(5) slash_accounting(2) [OF solventD(3) [OF w] p, of "ts + d" v]
    by (intro exI [of _ x] exI [of _ w'] conjI)
      (simp_all add: slashed_stake_def slash_entries_def owned_def)
qed

section \<open>A concrete state\<close>

definition empty_staking :: staking where
  "empty_staking =
     \<lparr>config_min_stake = 50, config_unbonding_period = 7, config_max_stake_percent = 0,
      stake_amount = (\<lambda>_. 0), total_staked = 0, unbonding_count = 0,
      unbonding_validator = (\<lambda>_. 0), unbonding_amount = (\<lambda>_. 0),
      unbonding_complete_time = (\<lambda>_. 0), per_val_unbonding_head = (\<lambda>_. 0),
      unbonding_next = (\<lambda>_. 0), config_slashed_withdrawal_delay = 0\<rparr>"

text \<open>Validator 5 holds 60 at stake, 40 mature at time 1007.\<close>

definition demo_staking :: staking where
  "demo_staking = empty_staking
     \<lparr>stake_amount := (stake_amount empty_staking)(5 := 60), total_staked := 60,
      unbonding_count := 1,
      unbonding_validator := (unbonding_validator empty_staking)(0 := 5),
      unbonding_amount := (unbonding_amount empty_staking)(0 := 40),
      unbonding_complete_time := (unbonding_complete_time empty_staking)(0 := 1007),
      per_val_unbonding_head := (per_val_unbonding_head empty_staking)(5 := 1)\<rparr>"

definition demo_world :: world where
  "demo_world = \<lparr>balances = (\<lambda>_. 0)(STAKING_ADDRESS := 100), vset = one_validator, stk = demo_staking\<rparr>"

lemma demo_staking_fields [simp]:
  "stake_amount demo_staking = (\<lambda>_. 0)(5 := 60)" "total_staked demo_staking = 60"
  "unbonding_count demo_staking = 1" "unbonding_validator demo_staking = (\<lambda>_. 0)(0 := 5)"
  "unbonding_amount demo_staking = (\<lambda>_. 0)(0 := 40)"
  "unbonding_complete_time demo_staking = (\<lambda>_. 0)(0 := 1007)"
  "per_val_unbonding_head demo_staking = (\<lambda>_. 0)(5 := 1)" "unbonding_next demo_staking = (\<lambda>_. 0)"
  "config_min_stake demo_staking = 50" "config_unbonding_period demo_staking = 7"
  "config_slashed_withdrawal_delay demo_staking = 0"
  by (simp_all add: demo_staking_def empty_staking_def)

lemma demo_world_fields [simp]:
  "balances demo_world = (\<lambda>_. 0)(STAKING_ADDRESS := 100)" "vset demo_world = one_validator"
  "stk demo_world = demo_staking"
  by (simp_all add: demo_world_def)

lemma demo_sums: "sum_staked demo_staking = 60" "sum_unbonding demo_staking = 40"
  using sum_unat_fun_upd [of "\<lambda>_. 0 :: u256" "5 :: address" 60]
    sum_unat_fun_upd [of "\<lambda>_. 0 :: u256" "0 :: u32" 40]
  by (simp_all add: sum_staked_def sum_unbonding_def)

lemma demo_queue: "queue_ok demo_staking"
proof -
  have "queue_lists demo_staking ((\<lambda>_. [])(5 := [0]))"
    by (auto simp: queue_lists_def)
  then show ?thesis by (auto simp: queue_ok_def)
qed

lemma demo_solvent: "solvent demo_world"
  using demo_queue by (intro solventI) (simp_all add: demo_sums)

lemma demo_delay: "slashed_withdrawal_delay demo_staking = Inr 14"
  by (simp add: slashed_withdrawal_delay_def checked_mul_def)

text \<open>The same state after validator 5 has left the committee, with its stake and after it is drained.\<close>

definition exiting_world :: world where
  "exiting_world = demo_world\<lparr>vset := one_validator\<lparr>val_status := (val_status one_validator)(5 := UNBONDING)\<rparr>\<rparr>"

definition leaving_world :: world where
  "leaving_world = exiting_world\<lparr>stk := demo_staking\<lparr>stake_amount := (\<lambda>_. 0), total_staked := 0\<rparr>\<rparr>"

lemma exiting_solvent: "solvent exiting_world"
  using demo_solvent by (simp add: exiting_world_def)

lemma leaving_solvent: "solvent leaving_world"
proof (rule solventI)
  have "stk leaving_world = set_stake 5 0 0 demo_staking"
    by (simp add: leaving_world_def set_stake_def fun_eq_iff)
  then show "queue_ok (stk leaving_world)" using demo_queue by simp
  have "sum_staked (stk leaving_world) = 0" "sum_unbonding (stk leaving_world) = 40"
    using demo_sums(2) by (simp_all add: leaving_world_def sum_staked_def sum_unbonding_def)
  then show "unat (total_staked (stk leaving_world)) = sum_staked (stk leaving_world)"
    "sum_staked (stk leaving_world) + sum_unbonding (stk leaving_world) \<le> unat (balances leaving_world STAKING_ADDRESS)"
    by (simp_all add: leaving_world_def exiting_world_def)
qed

lemma demo_registered: "is_validator one_validator 5" "val_slash_count one_validator 5 = 0"
  by (simp_all add: one_validator_def register_new_def Let_def emit_def is_validator_def write_consensus_pubkey_def
      empty_validator_set_def)

text \<open>Validator 5 claims its last 40 and becomes inactive.\<close>

theorem claim_unbonded_correct_witness:
  "\<exists>w'. claim_unbonded 2000 5 leaving_world = Inr w' \<and> solvent w' \<and> balances w' 5 = 40 \<and>
     balances w' STAKING_ADDRESS = 60 \<and> unbonding_amount (stk w') 0 = 0 \<and> val_status (vset w') 5 = INACTIVE"
proof -
  have entry: "unbonding_validator (stk leaving_world) = (\<lambda>_. 0)(0 := 5)"
    "unbonding_complete_time (stk leaving_world) = (\<lambda>_. 0)(0 := 1007)"
    "unbonding_amount (stk leaving_world) = (\<lambda>_. 0)(0 := 40)" "stake_amount (stk leaving_world) 5 = 0"
    "balances leaving_world = (\<lambda>_. 0)(STAKING_ADDRESS := 100)"
    "is_validator (vset leaving_world) 5" "val_status (vset leaving_world) 5 = UNBONDING"
    using demo_registered(1) by (simp_all add: leaving_world_def exiting_world_def is_validator_def)
  have A: "{0} = {i. unbonding_validator (stk leaving_world) i = 5 \<and> unbonding_complete_time (stk leaving_world) i \<le> 2000}"
    by (auto simp: entry)
  have five: "(5 :: address) \<noteq> 0" "(5 :: address) \<noteq> STAKING_ADDRESS" by (simp_all add: STAKING_ADDRESS_def)
  show ?thesis
    using claim_unbonded_correct [OF leaving_solvent five(1) A]
  proof (elim exE conjE, goal_cases)
    case (1 x w' nx head)
    from 1(3) have "x = 40" by (simp add: entry word_unat_eq_iff)
    with 1(1,2) five(2) show ?case unfolding 1(4) by (simp add: entry)
  qed
qed

theorem slash_stake_correct_witness:
  "\<exists>x w'. slash_stake 9 1000 5 10 demo_world = Inr (x, w') \<and> solvent w' \<and>
     unat (stake_amount (stk w') 5) = 54 \<and> unat (unbonding_amount (stk w') 0) = 36"
proof -
  have d: "slashed_withdrawal_delay (stk demo_world) = Inr 14"
    by (simp add: demo_delay)
  have b: "unat (balances demo_world STAKING_ADDRESS) * 100 < 2 ^ 256" by simp
  obtain x w' where "slash_stake 9 1000 5 10 demo_world = Inr (x, w')" "solvent w'"
    "unat (stake_amount (stk w') 5) = unat (stake_amount (stk demo_world) 5)
       - unat (stake_amount (stk demo_world) 5) * unat (10 :: u64) div 100"
    "\<And>i. unat (unbonding_amount (stk w') i) = unat (unbonding_amount (stk demo_world) i) -
       (if unbonding_validator (stk demo_world) i = 5
        then unat (unbonding_amount (stk demo_world) i) * unat (10 :: u64) div 100 else 0)"
    using slash_stake_correct [OF demo_solvent _ d _ _ b, of 10 1000 5 9] by auto
  then show ?thesis by simp
qed

lemma demo_validators: "length (get_all_validators (vset demo_world)) \<le> 1"
proof -
  have "distinct (map validator_address (get_all_validators one_validator))"
    by (rule distinct_addresses_get_all [OF one_validator_inv(1)])
  then have "length (get_all_validators one_validator)
      = card (set (map validator_address (get_all_validators one_validator)))"
    using distinct_card [of "map validator_address (get_all_validators one_validator)"] by simp
  also have "\<dots> = 1"
    using set_addresses_get_all [OF one_validator_inv(1)] one_validator_inv(3) by simp
  finally show ?thesis by simp
qed

text \<open>The 60 that validator 5 holds at stake at time 1000 are released at time 1007; its entry of 40 stays.\<close>

theorem process_unbonding_correct_witness:
  "\<exists>w' i. process_unbonding 1000 exiting_world = Inr w' \<and> solvent w' \<and> stake_amount (stk w') 5 = 0 \<and> i \<noteq> 0 \<and>
     unbonding_validator (stk w') i = 5 \<and> unbonding_amount (stk w') i = 60 \<and> unbonding_complete_time (stk w') i = 1007 \<and>
     unbonding_amount (stk w') 0 = 40 \<and> val_unbonding_end (vset w') 5 = 1007"
proof -
  have same: "same_registry one_validator (vset exiting_world)" "stk exiting_world = demo_staking"
    by (simp_all add: exiting_world_def same_registry_def)
  have five: "5 \<in> registered (vset exiting_world)" "val_status (vset exiting_world) 5 = UNBONDING"
    "val_slash_count (vset exiting_world) 5 = 0"
    using demo_registered by (simp_all add: exiting_world_def is_validator_def registered_def)
  have "map validator_address (get_all_validators (vset exiting_world)) = map validator_address (get_all_validators one_validator)"
    by (simp add: exiting_world_def get_all_validators_def List.map_filter_def get_validator_def Let_def filter_map comp_def)
  then have "length (get_all_validators (vset exiting_world)) \<le> 1"
    using demo_validators by (metis demo_world_fields(2) length_map)
  then have room: "unat (unbonding_count (stk exiting_world)) + length (get_all_validators (vset exiting_world)) < 2 ^ 32"
    by (simp add: same)
  have times: "unat (1000 :: u64) + unat (config_unbonding_period (stk exiting_world)) < 2 ^ 64"
    "slashed_withdrawal_delay (stk exiting_world) = Inr 14" "unat (1000 :: u64) + unat (14 :: u64) < 2 ^ 64"
    by (simp_all add: same demo_delay)
  show ?thesis
    using process_unbonding_correct [OF exiting_solvent same_registry_inv [OF same(1), THEN iffD2, OF one_validator_inv(1)]
      room times refl refl refl]
  proof (elim exE conjE, goal_cases)
    case (1 w')
    have five_in: "5 \<in> {a \<in> registered (vset exiting_world). val_status (vset exiting_world) a = UNBONDING \<and>
        stake_amount (stk exiting_world) a \<noteq> 0}"
      using five by (simp add: same)
    from bspec [OF 1(4) this] obtain i where i: "unbonding_validator (stk exiting_world) i = 0"
      "unbonding_validator (stk w') i = 5" "unbonding_amount (stk w') i = 60" "unbonding_complete_time (stk w') i = 1007"
      using five(3) by (auto simp: same)
    from i(1) have "i \<noteq> 0" by (auto simp: same)
    moreover have "stake_amount (stk w') 5 = 0" using 1(3) five_in by simp
    moreover have "unbonding_amount (stk w') 0 = 40" using 1(5) by (simp add: same)
    moreover have "val_unbonding_end (vset w') 5 = 1007"
      using arg_cong [OF 1(9), of "\<lambda>w. val_unbonding_end (vset w) 5"] five_in five(3) by (simp add: same)
    ultimately show ?case using 1(1,2) i by blast
  qed
qed

end
