(* ===== verification/Chain_Steps.thy ===== *)
theory Chain_Steps
  imports Staking_Properties
begin

text \<open>
  The validator set and the staking contract together, as a transition system: every entry
  point that changes their state is one rule. Invariants of all reachable states, and the
  lifecycle automaton every validator follows.
\<close>

section \<open>Steps\<close>

text \<open>
  Entry points of the validator set. Side conditions state what the Rust types give (a key
  has 48 bytes) and the two limits the storage layout relies on: no zero address, a count
  that fits 32 bits.
\<close>

inductive vset_step :: "crypto \<Rightarrow> validator_set \<Rightarrow> validator_set \<Rightarrow> bool" for c where
  register: "register_validator_with_sig c bn caller a pk sig vs = Inr vs' \<Longrightarrow> a \<noteq> 0 \<Longrightarrow>
     length pk = 48 \<Longrightarrow> unat (validator_count vs) + 1 < 2 ^ 32 \<Longrightarrow> vset_step c vs vs'"
| confirm_ready: "confirm_validator_ready a vs = Inr vs' \<Longrightarrow> vset_step c vs vs'"
| activate: "activate_validator a vs = Inr vs' \<Longrightarrow> vset_step c vs vs'"
| deactivate: "deactivate_validator bn caller a vs = Inr vs' \<Longrightarrow> vset_step c vs vs'"
| force_exit: "force_exit_validator bn a vs = Inr vs' \<Longrightarrow> vset_step c vs vs'"
| jail: "jail_validator bn a vs = Inr vs' \<Longrightarrow> vset_step c vs vs'"
| p2p: "set_p2p_address caller a ver enc vs = Inr vs' \<Longrightarrow> vset_step c vs vs'"
| proposer: "record_proposer a vs = Inr vs' \<Longrightarrow> vset_step c vs vs'"
| missed: "vset_step c vs (record_missed_block a vs)"
| participation: "record_participation voters absent vs = Inr vs' \<Longrightarrow> vset_step c vs vs'"
| finalized: "hook_record_finalized_participation h voters absent vs = Inr vs' \<Longrightarrow> vset_step c vs vs'"
| epoch: "update_epoch ts bn vs = Inr vs' \<Longrightarrow> vset_step c vs vs'"
| reshare: "activate_reshared_set new h vs = Inr vs' \<Longrightarrow> vset_step c vs vs'"
| cleanup: "cleanup_inactive_validators c m vs = Inr (n, vs') \<Longrightarrow> vset_step c vs vs'"

text \<open>
  Steps of the whole: a validator-set entry point, a staking entry point, or coins moving
  without taking any from the staking contract. A stake call finds its value already
  credited.
\<close>

inductive chain_step :: "crypto \<Rightarrow> 'a world_scheme \<Rightarrow> 'a world_scheme \<Rightarrow> bool" for c where
  vset_op: "vset_step c (vset w) vs' \<Longrightarrow> chain_step c w (w\<lparr>vset := vs'\<rparr>)"
| stake_call: "unat (balances w STAKING_ADDRESS) + unat val < 2 ^ 256 \<Longrightarrow>
     b STAKING_ADDRESS = balances w STAKING_ADDRESS + val \<Longrightarrow>
     dispatch_stake caller val v amount (w\<lparr>balances := b\<rparr>) = Inr w' \<Longrightarrow> chain_step c w w'"
| unstake_call: "unstake bn ts caller amount w = Inr w' \<Longrightarrow> caller \<noteq> 0 \<Longrightarrow>
     unat (unbonding_count (stk w)) + 1 < 2 ^ 32 \<Longrightarrow> chain_step c w w'"
| claim_call: "claim_unbonded ts caller w = Inr w' \<Longrightarrow> caller \<noteq> 0 \<Longrightarrow> chain_step c w w'"
| unjail_call: "unjail_validator bn caller w = Inr w' \<Longrightarrow> chain_step c w w'"
| slash: "slash_stake bn ts v p w = Inr (x, w') \<Longrightarrow> chain_step c w w'"
| unbonding: "process_unbonding ts w = Inr w' \<Longrightarrow>
     unat (unbonding_count (stk w)) + length (get_all_validators (vset w)) < 2 ^ 32 \<Longrightarrow>
     chain_step c w w'"
| coins: "balances w STAKING_ADDRESS \<le> b STAKING_ADDRESS \<Longrightarrow> chain_step c w (w\<lparr>balances := b\<rparr>)"

section \<open>The registry under staking operations\<close>

lemma credit_stake_registry:
  "credit_stake v x w = Inr w' \<Longrightarrow> same_registry (vset w) (vset w')"
  by (auto simp: credit_stake_def Let_def and_then_eq_Inr same_registry_def split: if_splits
      dest!: mark_pending.frame)

lemma stake_registry: "stake caller v amount w = Inr w' \<Longrightarrow> same_registry (vset w) (vset w')"
  by (auto simp: stake_def Let_def split: if_splits dest!: credit_stake_registry)

lemma unstake_vset:
  assumes "unstake bn ts caller amount w = Inr w'"
  obtains g where "vset w' = (unstake_status bn caller
      (stake_amount (stk w) caller - amount < config_min_stake (stk w))
      ((vset w)\<lparr>val_stake := (val_stake (vset w))(caller := stake_amount (stk w) caller - amount)\<rparr>))
    \<lparr>val_unbonding_end := g\<rparr>"
  using assms by (auto simp: unstake_def Let_def and_then_eq_Inr split: if_splits)

lemma unstake_registry:
  "unstake bn ts caller amount w = Inr w' \<Longrightarrow> same_registry (vset w) (vset w')"
  by (erule unstake_vset) (simp add: unstake_status_def same_registry_def)

lemma finalize_registry:
  "finalize_inactive_if_complete v w = Inr w' \<Longrightarrow> same_registry (vset w) (vset w')"
  by (auto simp: finalize_inactive_if_complete_def Let_def and_then_eq_Inr same_registry_def
      split: if_splits)

lemma payout_vset: "payout a x w = Inr w' \<Longrightarrow> vset w' = vset w \<and> stk w' = stk w"
  by (auto simp: payout_def transfer_balance_def split: if_splits)

lemma claim_finalizes:
  assumes "claim_unbonded ts caller w = Inr w'"
  obtains w1 where "vset w1 = vset w" and "finalize_inactive_if_complete caller w1 = Inr w'"
  using assms
  by (auto simp: claim_unbonded_def and_then_eq_Inr split: option.splits dest!: payout_vset)

lemma burn_vset: "burn_slashed x w = Inr w' \<Longrightarrow> vset w' = vset w \<and> stk w' = stk w"
  by (auto simp: burn_slashed_def decrease_balance_def split: if_splits)

lemma slash_vset:
  assumes "slash_stake bn ts v p w = Inr (x, w')"
  obtains r b where "vset w' = slash_status bn v b ((vset w)\<lparr>val_stake := (val_stake (vset w))(v := r)\<rparr>)"
  using assms
  by (auto simp: slash_stake_def slash_active_effect Let_def and_then_eq_Inr split: if_splits option.splits
      dest!: burn_vset)

lemma slash_registry:
  "slash_stake bn ts v p w = Inr (x, w') \<Longrightarrow> same_registry (vset w) (vset w')"
  by (erule slash_vset) (simp add: slash_status_def same_registry_def)

lemma unjail_registry: "unjail_validator bn v w = Inr w' \<Longrightarrow> same_registry (vset w) (vset w')"
  by (auto simp: unjail_validator_def and_then_eq_Inr split: if_splits dest: unjail.frame)

section \<open>Invariants of reachable states\<close>

definition chain_inv :: "crypto \<Rightarrow> 'a world_scheme \<Rightarrow> bool" where
  "chain_inv c w \<longleftrightarrow> registry_inv (vset w) \<and> key_inv c (vset w) \<and> solvent w"

definition vset_inv :: "crypto \<Rightarrow> validator_set \<Rightarrow> bool" where
  "vset_inv c vs \<longleftrightarrow> registry_inv vs \<and> key_inv c vs"

lemma vset_inv_same: "same_registry vs vs' \<Longrightarrow> vset_inv c vs \<Longrightarrow> vset_inv c vs'"
  by (simp add: vset_inv_def same_registry_inv same_registry_key_inv)

lemma cleanup_keeps:
  assumes "cleanup_inactive_validators c m vs = Inr (n, vs')" and "vset_inv c vs"
  shows "vset_inv c vs'" and "registered vs' \<subseteq> registered vs"
    and "a \<in> registered vs - registered vs' \<Longrightarrow> val_status vs a = INACTIVE"
    and "a \<in> registered vs' \<Longrightarrow> val_status vs' a = val_status vs a"
proof -
  from assms(2) have inv: "registry_inv vs" "key_inv c vs" by (simp_all add: vset_inv_def)
  obtain count vs1 where vs': "vs' = vs1\<lparr>validator_count := count\<rparr>"
    and post: "cleanup_post c (validator_count vs) vs count n vs1"
    by (rule cleanup_result [OF inv, of m]) (use assms(1) in auto)
  note final = cleanup_post_final [OF post, folded vs']
  show "vset_inv c vs'" "registered vs' \<subseteq> registered vs"
    "a \<in> registered vs - registered vs' \<Longrightarrow> val_status vs a = INACTIVE"
    using final(1-3,5) by (auto simp: vset_inv_def)
  show "a \<in> registered vs' \<Longrightarrow> val_status vs' a = val_status vs a"
    using final(6) get_validator_eq_status by blast
qed

lemma vset_step_inv:
  assumes "vset_step c vs vs'" and "vset_inv c vs"
  shows "vset_inv c vs'"
  using assms
proof (induction rule: vset_step.induct)
  case (register bn caller a pk sig vs vs')
  then show ?case using register_validator_keeps by (auto simp: vset_inv_def)
next
  case (cleanup m vs n vs')
  then show ?case using cleanup_keeps(1) by blast
next
  case (missed vs a)
  moreover have "same_registry vs (record_missed_block a vs)"
    by (simp add: record_missed_block_def same_registry_def)
  ultimately show ?case by (rule vset_inv_same [rotated])
next
  case (force_exit bn a vs vs')
  then show ?case using punish.frame vset_inv_same unfolding force_exit_validator_def by blast
next
  case (jail bn a vs vs')
  then show ?case using punish.frame vset_inv_same unfolding jail_validator_def by blast
qed (blast intro: vset_inv_same confirm_ready.frame activate.frame deactivate.frame p2p.frame
    proposer.frame participation.frame hook_finalized.frame epoch.frame reshare.frame)+

lemma chain_inv_same:
  "chain_inv c w \<Longrightarrow> same_registry (vset w) (vset w') \<Longrightarrow> solvent w' \<Longrightarrow> chain_inv c w'"
  by (simp add: chain_inv_def same_registry_inv same_registry_key_inv)

lemma dispatch_stake_solvent:
  assumes w: "solvent w" and fits: "unat (balances w STAKING_ADDRESS) + unat val < 2 ^ 256"
    and b: "b STAKING_ADDRESS = balances w STAKING_ADDRESS + val"
    and run: "dispatch_stake caller val v amount (w\<lparr>balances := b\<rparr>) = Inr w'"
  shows "solvent w'" and "same_registry (vset w) (vset w')"
proof -
  let ?w = "w\<lparr>balances := b\<rparr>"
  have run': "stake caller v amount ?w = Inr w'" and "val = amount"
    using run by (auto simp: dispatch_stake_def split: if_splits)
  with fits b have bal: "unat (balances ?w STAKING_ADDRESS) = unat (balances w STAKING_ADDRESS) + unat amount"
    by (simp add: unat_add_exact)
  with w have "solvent ?w" "covers (unat amount) ?w" by (simp_all add: solvent_def covers_def)
  with run' show "solvent w'" by (rule stake_solvent)
  show "same_registry (vset w) (vset w')" using stake_registry [OF run'] by simp
qed

lemma chain_step_inv:
  assumes step: "chain_step c w1 w2" and inv: "chain_inv c w1"
  shows "chain_inv c w2"
proof -
  have w1: "solvent w1" using inv by (simp add: chain_inv_def)
  from step show ?thesis
  proof (cases rule: chain_step.cases)
    case (vset_op vs')
    then have "vset_inv c vs'" using vset_step_inv inv by (auto simp: vset_inv_def chain_inv_def)
    then show ?thesis using w1 vset_op by (simp add: chain_inv_def vset_inv_def)
  next
    case stake_call
    then show ?thesis using chain_inv_same [OF inv] dispatch_stake_solvent [OF w1] by blast
  next
    case unstake_call
    then show ?thesis using chain_inv_same [OF inv] unstake_solvent [OF _ w1] unstake_registry by blast
  next
    case claim_call
    then have "same_registry (vset w1) (vset w2)"
      using finalize_registry by (metis claim_finalizes)
    then show ?thesis using chain_inv_same [OF inv] claim_unbonded_solvent [OF w1] claim_call by blast
  next
    case unjail_call
    then have "solvent w2" using w1
      by (auto simp: unjail_validator_def and_then_eq_Inr split: if_splits)
    then show ?thesis using chain_inv_same [OF inv] unjail_registry unjail_call by blast
  next
    case slash
    then show ?thesis using chain_inv_same [OF inv] slash_stake_solvent [OF w1] slash_registry by blast
  next
    case unbonding
    then have "settles_unbonding w1 w2"
      using settles_unbonding_Inr [OF w1] inv by (auto simp: chain_inv_def)
    then show ?thesis using chain_inv_same [OF inv] unfolding settles_unbonding_def by blast
  next
    case (coins b)
    then have "solvent w2" using w1 by (auto simp: solvent_def covers_def word_le_nat_alt)
    then show ?thesis using chain_inv_same [OF inv, of w2] coins by simp
  qed
qed

text \<open>
  C1. In every state reachable from a consistent one by any sequence of entry points, block
  hooks and coin movements, the index array, address map and key map agree, the unbonding
  lists are intact, the recorded total is the sum of all stakes, and the staking contract's
  balance covers all stake and all unbonding amounts.
\<close>

theorem reachable_chain_inv:
  assumes "(chain_step c)\<^sup>*\<^sup>* w w'" and "chain_inv c w"
  shows "chain_inv c w'"
  using assms
  by (induction rule: rtranclp_induct) (auto intro: chain_step_inv)

section \<open>The lifecycle automaton\<close>

definition vset_edge :: "u8 \<Rightarrow> u8 \<Rightarrow> bool" where
  "vset_edge st st' \<longleftrightarrow> st = st' \<or>
     (st, st') \<in> {(REGISTERED, PENDING), (REGISTERED, ACTIVE), (PENDING, REGISTERED),
       (PENDING, ACTIVE), (ACTIVE, EXITING), (ACTIVE, JAILED), (JAILED, PENDING),
       (JAILED, EXITING), (EXITING, UNBONDING), (INACTIVE, REGISTERED)}"

definition lifecycle_edge :: "u8 \<Rightarrow> u8 \<Rightarrow> bool" where
  "lifecycle_edge st st' \<longleftrightarrow> vset_edge st st' \<or> st = UNBONDING \<and> st' = INACTIVE"

text \<open>
  The contract the validator-set entry points share: statuses change along these edges only.
  The last one, \<open>UNBONDING\<close> to \<open>INACTIVE\<close>, belongs to the staking contract.
\<close>

locale follows_lifecycle =
  fixes run :: "validator_set \<Rightarrow> precompile_error + validator_set"
  assumes edge: "run vs = Inr vs' \<Longrightarrow> vset_edge (val_status vs a) (val_status vs' a)"
begin

lemma exit_one_way:
  "run vs = Inr vs' \<Longrightarrow> val_status vs a \<in> {EXITING, UNBONDING} \<Longrightarrow>
     val_status vs' a \<in> {EXITING, UNBONDING}"
  using edge [of vs vs' a] by (auto simp: vset_edge_def)

end

lemma edge_refl [simp]: "vset_edge st st"
  by (simp add: vset_edge_def)

lemma fold_res_same_status:
  assumes "fold_res f xs vs = Inr vs'" and "\<And>x s t. f x s = Inr t \<Longrightarrow> val_status t = val_status s"
  shows "val_status vs' = val_status vs"
  by (rule fold_res_invariant [OF assms(1), where P = "\<lambda>s. val_status s = val_status vs"])
    (simp_all add: assms(2))

lemma absent_vote_status: "absent_vote known msg a vs = Inr vs' \<Longrightarrow> val_status vs' = val_status vs"
  by (auto simp: absent_vote_def bump_missed_votes_def split: if_splits)

lemma reset_counters_status: "val_status (fold reset_counters xs vs) = val_status vs"
  by (induction xs arbitrary: vs) (simp_all add: reset_counters_def Let_def)

interpretation confirm_lc: follows_lifecycle "confirm_validator_ready a" for a
  by unfold_locales (auto simp: confirm_validator_ready_def split: if_splits)

interpretation mark_pending_lc: follows_lifecycle "mark_pending a" for a
  by unfold_locales (auto simp: mark_pending_def vset_edge_def split: if_splits)

interpretation activate_lc: follows_lifecycle "activate_validator a" for a
  by unfold_locales (auto simp: activate_validator_def vset_edge_def emit_def split: if_splits)

interpretation deactivate_lc: follows_lifecycle "deactivate_validator bn caller a" for bn caller a
  by unfold_locales (auto simp: deactivate_validator_def vset_edge_def emit_def split: if_splits)

interpretation punish_lc: follows_lifecycle "punish_validator bn a jail" for bn a jail
  by unfold_locales
    (auto simp: punish_validator_def vset_edge_def emit_def Let_def and_then_eq_Inr split: if_splits)

interpretation unjail_lc: follows_lifecycle "unjail_to_pending bn a" for bn a
  by unfold_locales (auto simp: unjail_to_pending_def vset_edge_def emit_def split: if_splits)

interpretation p2p_lc: follows_lifecycle "set_p2p_address caller a ver enc" for caller a ver enc
  by unfold_locales (auto simp: set_p2p_address_def split: if_splits sum.splits)

interpretation proposer_lc: follows_lifecycle "record_proposer a" for a
  by unfold_locales (auto simp: record_proposer_def split: if_splits)

interpretation participation_lc: follows_lifecycle "record_participation voters absent" for voters absent
  by unfold_locales
    (auto simp: record_participation_def split: if_splits
      dest!: fold_res_same_status [OF _ absent_vote_status])

lemma mark_recorded_status: "val_status (mark_participation_recorded h vs) = val_status vs"
  by (simp add: mark_participation_recorded_def Let_def)

lemma record_finalized_status:
  "record_finalized_participation voters absent vs = Inr vs' \<Longrightarrow> val_status vs' = val_status vs"
  by (auto simp: record_finalized_participation_def split: if_splits
      dest!: fold_res_same_status [OF _ absent_vote_status])

interpretation finalized_lc: follows_lifecycle "hook_record_finalized_participation h voters absent"
  for h voters absent
  by unfold_locales
    (auto simp: hook_record_finalized_participation_def and_then_eq_Inr mark_recorded_status
      split: if_splits dest!: record_finalized_status)

interpretation epoch_lc: follows_lifecycle "update_epoch ts bn" for ts bn
  by unfold_locales
    (auto simp: update_epoch_def Let_def and_then_eq_Inr emit_def reset_counters_status)

lemma register_edge:
  assumes "register_validator_with_sig c bn caller a pk sig vs = Inr vs'" and "b \<in> registered vs"
  shows "vset_edge (val_status vs b) (val_status vs' b)"
proof -
  have "val_status (reregister c bn a pk vs) = (val_status vs)(a := REGISTERED)"
    "val_status (register_new c bn a pk vs) = (val_status vs)(a := REGISTERED)"
    by (simp_all add: reregister_def register_new_def write_consensus_pubkey_def emit_def Let_def)
  with assms(2) show ?thesis
    by (cases rule: register_validator_with_sig_cases [OF assms(1)]) (auto simp: vset_edge_def)
qed

lemma vset_step_edge:
  assumes "vset_step c vs vs'" and "vset_inv c vs" and "a \<in> registered vs"
  shows "a \<in> registered vs' \<and> vset_edge (val_status vs a) (val_status vs' a) \<or>
    val_status vs a = INACTIVE"
  using assms
proof (induction rule: vset_step.induct)
  case (register bn caller b pk sig vs vs')
  moreover from this have "registered vs' = insert b (registered vs)"
    using register_validator_keeps by (metis vset_inv_def)
  ultimately show ?case using register_edge by blast
next
  case (cleanup m vs n vs')
  then show ?case using cleanup_keeps(3,4) [of c m vs n vs' a] by (cases "a \<in> registered vs'") auto
next
  case (missed vs b)
  then show ?case by (simp add: record_missed_block_def registered_def)
next
  case (reshare new h vs vs')
  then have "vset_edge (val_status vs a) (val_status vs' a)"
    using reshare_status [of vs new h vs' a] reshare_succeeds_iff [of new h vs]
    by (auto simp: vset_inv_def reshare_eligible_def vset_edge_def)
  then show ?case using reshare.keeps_registered reshare by blast
next
  case (force_exit bn b vs vs')
  then show ?case using punish.keeps_registered punish_lc.edge unfolding force_exit_validator_def by blast
next
  case (jail bn b vs vs')
  then show ?case using punish.keeps_registered punish_lc.edge unfolding jail_validator_def by blast
qed (blast dest: confirm_ready.keeps_registered activate.keeps_registered deactivate.keeps_registered
    p2p.keeps_registered proposer.keeps_registered participation.keeps_registered
    hook_finalized.keeps_registered epoch.keeps_registered
    intro: confirm_lc.edge activate_lc.edge deactivate_lc.edge p2p_lc.edge proposer_lc.edge
      participation_lc.edge finalized_lc.edge epoch_lc.edge)+

lemma credit_stake_edge:
  assumes "credit_stake v x w = Inr w'"
  shows "vset_edge (val_status (vset w) a) (val_status (vset w') a)"
proof -
  let ?vs = "(vset w)\<lparr>val_stake := (val_stake (vset w))(v := x)\<rparr>"
  have "vset w' = ?vs \<or> mark_pending v ?vs = Inr (vset w')"
    using assms by (auto simp: credit_stake_def Let_def and_then_eq_Inr split: if_splits)
  then show ?thesis using mark_pending_lc.edge [of v ?vs "vset w'" a] by auto
qed

lemma stake_edge:
  "stake caller v amount w = Inr w' \<Longrightarrow> vset_edge (val_status (vset w) a) (val_status (vset w') a)"
  by (auto simp: stake_def Let_def split: if_splits dest!: credit_stake_edge [where a = a])

lemma unstake_edge:
  "unstake bn ts caller amount w = Inr w' \<Longrightarrow>
     vset_edge (val_status (vset w) a) (val_status (vset w') a)"
  by (erule unstake_vset) (simp add: unstake_status_def vset_edge_def)

lemma slash_edge:
  "slash_stake bn ts v p w = Inr (x, w') \<Longrightarrow>
     vset_edge (val_status (vset w) a) (val_status (vset w') a)"
  by (erule slash_vset) (simp add: slash_status_def vset_edge_def)

lemma unjail_edge:
  "unjail_validator bn v w = Inr w' \<Longrightarrow>
     vset_edge (val_status (vset w) a) (val_status (vset w') a)"
  by (auto simp: unjail_validator_def and_then_eq_Inr split: if_splits dest: unjail_lc.edge)

text \<open>The step to \<open>INACTIVE\<close> is only taken by a validator with nothing left.\<close>

definition drained :: "staking \<Rightarrow> address \<Rightarrow> bool" where
  "drained s a \<longleftrightarrow> stake_amount s a = 0 \<and> \<not> pending_of s a"

definition step_status :: "'a world_scheme \<Rightarrow> 'a world_scheme \<Rightarrow> address \<Rightarrow> bool" where
  "step_status w w' a \<longleftrightarrow> vset_edge (val_status (vset w) a) (val_status (vset w') a) \<or>
     val_status (vset w) a = UNBONDING \<and> val_status (vset w') a = INACTIVE \<and> drained (stk w') a"

lemma finalize_status:
  assumes "finalize_inactive_if_complete v w = Inr w'" and "queue_ok (stk w)" and "v \<noteq> 0"
  shows "step_status w w' a"
  using assms has_pending_of [OF assms(2,3)]
  by (auto simp: finalize_inactive_if_complete_def Let_def step_status_def drained_def split: if_splits)

lemma claim_status:
  assumes "claim_unbonded ts caller w = Inr w'" and "solvent w" and "caller \<noteq> 0"
  shows "step_status w w' a"
proof -
  obtain w1 where w1: "vset w1 = vset w" "finalize_inactive_if_complete caller w1 = Inr w'"
    using assms(1) by (rule claim_finalizes)
  have "queue_ok (stk w1)"
    using finalize_frame [OF w1(2)] claim_unbonded_solvent [OF assms(2,1,3)] by (auto dest: solventD(1))
  from finalize_status [OF w1(2) this assms(3), of a] w1(1) show ?thesis
    by (simp add: step_status_def)
qed

lemma unbonding_status:
  assumes "process_unbonding ts w = Inr w'" and "chain_inv c w"
    and room: "unat (unbonding_count (stk w)) + length (get_all_validators (vset w)) < 2 ^ 32"
  shows "step_status w w' a"
proof -
  have inv: "solvent w" "registry_inv (vset w)" using assms(2) by (simp_all add: chain_inv_def)
  note settles = settles_unbonding_Inr [OF inv assms(1) room]
  then have st: "val_status (vset w') a = (if a \<in> registered (vset w) \<and> val_status (vset w) a = UNBONDING \<and>
      drained (stk w) a then INACTIVE else val_status (vset w) a)"
    unfolding settles_unbonding_def drained_def by blast
  show ?thesis
  proof (cases "a \<in> registered (vset w) \<and> val_status (vset w) a = UNBONDING \<and> drained (stk w) a")
    case True
    moreover from this have "a \<noteq> 0" using zero_not_registered [OF inv(2)] by auto
    ultimately have "drained (stk w') a"
      using settles unfolding settles_unbonding_def drained_def by simp
    with True st show ?thesis by (simp add: step_status_def)
  qed (use st in \<open>auto simp: step_status_def\<close>)
qed

lemma vset_op_status:
  assumes "vset_step c (vset w) vs'" and "chain_inv c w" and "a \<in> registered (vset w)"
    and "val_status (vset w) a \<noteq> INACTIVE"
  shows "a \<in> registered vs' \<and> step_status w (w\<lparr>vset := vs'\<rparr>) a"
  using vset_step_edge [OF assms(1) _ assms(3)] assms(2,4)
  by (auto simp: vset_inv_def chain_inv_def step_status_def)

lemma chain_step_status:
  assumes step: "chain_step c w w'" and inv: "chain_inv c w" and a: "a \<in> registered (vset w)"
    and st: "val_status (vset w) a \<noteq> INACTIVE"
  shows "a \<in> registered (vset w') \<and> step_status w w' a"
proof -
  have w: "solvent w" using inv by (simp add: chain_inv_def)
  have edge: ?thesis if "same_registry (vset w) (vset w')"
    "vset_edge (val_status (vset w) a) (val_status (vset w') a)"
    using that a same_registry_registered by (simp add: step_status_def)
  have same: ?thesis if "same_registry (vset w) (vset w')" "step_status w w' a"
    using that a same_registry_registered by simp
  from step show ?thesis
  proof (cases rule: chain_step.cases)
    case (vset_op vs')
    then show ?thesis using vset_op_status [OF _ inv a st] by simp
  next
    case (stake_call val b caller v amount)
    then have "stake caller v amount (w\<lparr>balances := b\<rparr>) = Inr w'"
      by (auto simp: dispatch_stake_def split: if_splits)
    from stake_edge [OF this] stake_registry [OF this] show ?thesis by (intro edge) simp_all
  next
    case unstake_call
    then show ?thesis using edge unstake_edge unstake_registry by blast
  next
    case claim_call
    then have "same_registry (vset w) (vset w')" using finalize_registry by (metis claim_finalizes)
    then show ?thesis using same claim_status [OF _ w] claim_call by blast
  next
    case unjail_call
    then show ?thesis using edge unjail_edge unjail_registry by blast
  next
    case slash
    then show ?thesis using edge slash_edge slash_registry by blast
  next
    case unbonding
    then have "same_registry (vset w) (vset w')"
      using settles_unbonding_Inr [OF w] inv by (auto simp: chain_inv_def settles_unbonding_def)
    then show ?thesis using same unbonding_status [OF _ inv] unbonding by blast
  next
    case coins
    then show ?thesis by (intro edge) simp_all
  qed
qed

text \<open>
  C14. Every step moves a registered, not yet \<open>INACTIVE\<close> validator along one edge of the
  lifecycle automaton and keeps it registered; it becomes \<open>INACTIVE\<close> only out of
  \<open>UNBONDING\<close>, with no stake and no pending unbonding entry left.
\<close>

theorem lifecycle_automaton:
  assumes "chain_step c w w'" and "chain_inv c w"
    and "a \<in> registered (vset w)" and "val_status (vset w) a \<noteq> INACTIVE"
  shows "a \<in> registered (vset w') \<and>
    lifecycle_edge (val_status (vset w) a) (val_status (vset w') a) \<and>
    (val_status (vset w') a = INACTIVE \<longrightarrow>
       stake_amount (stk w') a = 0 \<and>
       (\<forall>i. unbonding_validator (stk w') i = a \<longrightarrow> unbonding_amount (stk w') i = 0))"
  using chain_step_status [OF assms] assms(4)
  by (auto simp: step_status_def lifecycle_edge_def drained_def pending_of_def vset_edge_def)

lemma exiting_stays:
  assumes "successively (chain_step c) ws" and "ws \<noteq> []" and "chain_inv c (hd ws)"
    and "a \<in> registered (vset (hd ws))" and "val_status (vset (hd ws)) a \<in> {EXITING, UNBONDING}"
    and "\<forall>w\<in>set ws. val_status (vset w) a \<noteq> INACTIVE"
  shows "val_status (vset (last ws)) a \<in> {EXITING, UNBONDING}"
  using assms
proof (induction ws)
  case (Cons w ws)
  show ?case
  proof (cases ws)
    case Nil
    with Cons.prems show ?thesis by simp
  next
    case (Cons w1 ws1)
    with Cons.prems(1) have step: "chain_step c w w1" and rest: "successively (chain_step c) ws"
      by simp_all
    have inv: "chain_inv c w" and a: "a \<in> registered (vset w)" using Cons.prems(3,4) by simp_all
    have st: "val_status (vset w) a \<in> {EXITING, UNBONDING}" "val_status (vset w1) a \<noteq> INACTIVE"
      using Cons.prems(5,6) Cons by simp_all
    then have next_st: "a \<in> registered (vset w1)" "val_status (vset w1) a \<in> {EXITING, UNBONDING}"
      using chain_step_status [OF step inv a] by (auto simp: step_status_def vset_edge_def)
    then have "val_status (vset (last ws)) a \<in> {EXITING, UNBONDING}"
      using Cons.prems(6) rest Cons chain_step_inv [OF step inv] by (intro Cons.IH) simp_all
    then show ?thesis using Cons by simp
  qed
qed simp

text \<open>
  C13. Leaving is one-way: in any run of the system in which a validator is \<open>EXITING\<close> or
  \<open>UNBONDING\<close> first and has any other status last, it was \<open>INACTIVE\<close> in between. So a validator
  that started to leave never votes again without draining its stake and registering anew.
\<close>

theorem exit_through_inactive:
  assumes "successively (chain_step c) ws" and "ws \<noteq> []" and "chain_inv c (hd ws)"
    and "a \<in> registered (vset (hd ws))" and "val_status (vset (hd ws)) a \<in> {EXITING, UNBONDING}"
    and "val_status (vset (last ws)) a \<notin> {EXITING, UNBONDING}"
  shows "\<exists>w\<in>set ws. val_status (vset w) a = INACTIVE"
  using exiting_stays [OF assms(1-5)] assms(6) by blast

section \<open>Concrete runs\<close>

lemma demo_chain_inv: "chain_inv test_crypto demo_world"
  by (simp add: chain_inv_def one_validator_inv demo_solvent)

theorem reachable_chain_inv_witness:
  "\<exists>w'. claim_unbonded 2000 5 demo_world = Inr w' \<and> (chain_step test_crypto)\<^sup>*\<^sup>* demo_world w' \<and>
     chain_inv test_crypto w'"
proof -
  obtain w' where run: "claim_unbonded 2000 5 demo_world = Inr w'"
    by (rule claim_unbonded_result [OF demo_solvent, of 5 2000]) auto
  then have "chain_step test_crypto demo_world w'" by (rule chain_step.claim_call) simp
  then have steps: "(chain_step test_crypto)\<^sup>*\<^sup>* demo_world w'" by (rule r_into_rtranclp)
  from reachable_chain_inv [OF this demo_chain_inv] run steps show ?thesis by blast
qed

theorem lifecycle_automaton_witness:
  "\<exists>vs'. activate_validator 5 one_validator = Inr vs' \<and> val_status vs' 5 = ACTIVE \<and>
     5 \<in> registered vs' \<and> lifecycle_edge (val_status one_validator 5) (val_status vs' 5)"
proof -
  have reg: "5 \<in> registered one_validator" using one_validator_inv(3) by simp
  have st: "val_status one_validator 5 = REGISTERED"
    by (simp add: one_validator_def register_new_def Let_def emit_def)
  obtain vs' where run: "activate_validator 5 one_validator = Inr vs'" and act: "val_status vs' 5 = ACTIVE"
    using reg st by (auto simp: activate_validator_def registered_def emit_def)
  have "chain_step test_crypto demo_world (demo_world\<lparr>vset := vs'\<rparr>)"
    by (rule chain_step.vset_op) (use run in \<open>auto intro: vset_step.activate\<close>)
  from lifecycle_automaton [OF this demo_chain_inv, of 5] reg st run act show ?thesis by auto
qed

text \<open>Validator 5 on its way out, with nothing staked and nothing queued.\<close>

definition leaving_world :: world where
  "leaving_world = \<lparr>balances = (\<lambda>_. 0),
     vset = one_validator\<lparr>val_status := (val_status one_validator)(5 := UNBONDING)\<rparr>,
     stk = empty_staking\<rparr>"

lemma leaving_inv:
  "chain_inv test_crypto leaving_world" "5 \<in> registered (vset leaving_world)"
proof -
  have same: "same_registry one_validator (vset leaving_world)"
    by (simp add: leaving_world_def same_registry_def)
  have "queue_lists empty_staking (\<lambda>_. [])" by (auto simp: queue_lists_def empty_staking_def)
  then have "solvent leaving_world"
    by (intro solventI) (auto simp: queue_ok_def leaving_world_def sum_staked_def sum_unbonding_def
        empty_staking_def)
  with same show "chain_inv test_crypto leaving_world"
    using one_validator_inv by (simp add: chain_inv_def same_registry_inv same_registry_key_inv)
  show "5 \<in> registered (vset leaving_world)"
    using same_registry_registered [OF same] one_validator_inv(3) by simp
qed

theorem exit_through_inactive_witness:
  "\<exists>w'. successively (chain_step test_crypto) [leaving_world, w'] \<and>
     (\<exists>w\<in>set [leaving_world, w']. val_status (vset w) 5 = INACTIVE)"
proof -
  have isv: "is_validator (vset leaving_world) 5"
    using leaving_inv(2) by (simp add: is_validator_registered)
  obtain w' where run: "claim_unbonded 0 5 leaving_world = Inr w'"
    and st: "val_status (vset w') 5 = INACTIVE"
    using isv
    by (simp add: claim_unbonded_def claim_loop.simps pending_loop.simps has_pending_unbonding_def
        payout_def finish_claim_def finalize_inactive_if_complete_def Let_def leaving_world_def
        empty_staking_def)
  then have "chain_step test_crypto leaving_world w'" by (intro chain_step.claim_call) auto
  then have run: "successively (chain_step test_crypto) [leaving_world, w']" by simp
  have "val_status (vset leaving_world) 5 = UNBONDING" by (simp add: leaving_world_def)
  with exit_through_inactive [OF run, of 5] leaving_inv st run show ?thesis by auto
qed

end
