(* ===== verification/Committee_Snapshot.thy ===== *)
theory Committee_Snapshot
  imports Validator_Lifecycle
begin

text \<open>
  Committee snapshots: the canonical hash and storage key
  (\<^verbatim>\<open>crates/blockchain/consensus/src/proof/committee.rs\<close>, \<^verbatim>\<open>fingerprint.rs\<close>), the snapshot
  store in slots 31 to 47 of the validator set with its ring of the last eight epochs
  (\<^verbatim>\<open>crates/system/validatorset/src/state.rs\<close>), the atomic boundary activation
  (\<^verbatim>\<open>hooks.rs\<close>), and the quorum size and signer bitmap of the certificate verifiers
  (\<^verbatim>\<open>verifier.rs\<close>, \<^verbatim>\<open>late_finalize.rs\<close>). The store is a record of its own: its slots are
  disjoint from those of the validator registry.
\<close>

section \<open>Snapshots and their fingerprints\<close>

record committee_entry =
  entry_address :: address
  entry_pubkey :: bytes

record committee_snapshot =
  committee :: "committee_entry list"
  vrf_material_version :: u64
  vrf_group_public_key_bytes :: bytes
  vrf_public_polynomial_hash :: b256

definition ascii :: "string \<Rightarrow> bytes" where
  "ascii s = map of_char s"

definition OUTBE_COMMITTEE_SET_HASH_V2_DOMAIN :: bytes where
  "OUTBE_COMMITTEE_SET_HASH_V2_DOMAIN = ascii ''OUTBE_COMMITTEE_SNAPSHOT_V2''"

definition OUTBE_COMMITTEE_SNAPSHOT_KEY_V2_DOMAIN :: bytes where
  "OUTBE_COMMITTEE_SNAPSHOT_KEY_V2_DOMAIN = ascii ''OUTBE_COMMITTEE_SNAPSHOT_KEY_V2''"

definition VRF_MATERIAL_VERSION_GENESIS :: u64 where
  "VRF_MATERIAL_VERSION_GENESIS = 0"

definition encode_entry :: "committee_entry \<Rightarrow> bytes" where
  "encode_entry e = to_be_bytes 20 (entry_address e) @ entry_pubkey e"

text \<open>The buffer \<open>committee_set_hash_v2\<close> hashes.\<close>

definition committee_preimage :: "u64 \<Rightarrow> committee_snapshot \<Rightarrow> bytes" where
  "committee_preimage epoch s =
     OUTBE_COMMITTEE_SET_HASH_V2_DOMAIN @
     to_be_bytes 8 epoch @
     to_be_bytes 8 (word_of_nat (length (committee s)) :: u64) @
     concat (map encode_entry (committee s)) @
     to_be_bytes 8 (vrf_material_version s) @
     to_be_bytes 8 (word_of_nat (length (vrf_group_public_key_bytes s)) :: u64) @
     vrf_group_public_key_bytes s"

definition committee_set_hash_v2 :: "crypto \<Rightarrow> u64 \<Rightarrow> committee_snapshot \<Rightarrow> b256" where
  "committee_set_hash_v2 c epoch s = keccak256 c (committee_preimage epoch s)"

definition committee_snapshot_key :: "crypto \<Rightarrow> u64 \<Rightarrow> b256 \<Rightarrow> b256" where
  "committee_snapshot_key c epoch set_hash =
     keccak256 c (OUTBE_COMMITTEE_SNAPSHOT_KEY_V2_DOMAIN @ to_be_bytes 8 epoch @ set_hash)"

datatype snapshot_build_error =
    CountMismatch nat nat
  | PubkeyLength nat nat

fun build_entries ::
  "nat \<Rightarrow> (address \<times> bytes) list \<Rightarrow> snapshot_build_error + committee_entry list" where
  "build_entries i [] = Inr []"
| "build_entries i ((a, pk) # rest) =
     (if length pk \<noteq> 48 then Inl (PubkeyLength i (length pk))
      else and_then (build_entries (i + 1) rest) (\<lambda>es.
        Inr (\<lparr>entry_address = a, entry_pubkey = pk\<rparr> # es)))"

definition build_committee_snapshot ::
  "address list \<Rightarrow> bytes list \<Rightarrow> u64 \<Rightarrow> bytes \<Rightarrow> b256 \<Rightarrow> snapshot_build_error + committee_snapshot" where
  "build_committee_snapshot addresses encoded_pubkeys version group_pk poly_hash =
     (if length addresses \<noteq> length encoded_pubkeys
      then Inl (CountMismatch (length addresses) (length encoded_pubkeys))
      else and_then (build_entries 0 (zip addresses encoded_pubkeys)) (\<lambda>es.
        Inr \<lparr>committee = es, vrf_material_version = version,
             vrf_group_public_key_bytes = group_pk, vrf_public_polynomial_hash = poly_hash\<rparr>))"

definition canonical_signer_set_hash :: "crypto \<Rightarrow> bytes \<Rightarrow> b256" where
  "canonical_signer_set_hash c signer_bitmap =
     keccak256 c (to_be_bytes 4 (word_of_nat (length signer_bitmap) :: u32) @ signer_bitmap)"

definition invalid_vrf_evidence_hash_v2 :: "crypto \<Rightarrow> b256 \<Rightarrow> b256 \<Rightarrow> b256" where
  "invalid_vrf_evidence_hash_v2 c child_hash phase1_tx_hash =
     keccak256 c (child_hash @ phase1_tx_hash)"

section \<open>The snapshot store\<close>

record snapshot_store =
  committee_snapshot_exists :: "b256 \<Rightarrow> bool"
  committee_snapshot_len :: "b256 \<Rightarrow> u64"
  committee_snapshot_address_at :: "b256 \<Rightarrow> u64 \<Rightarrow> address"
  committee_snapshot_pubkey_lo_at :: "b256 \<Rightarrow> u64 \<Rightarrow> b256"
  committee_snapshot_pubkey_hi_at :: "b256 \<Rightarrow> u64 \<Rightarrow> b256"
  committee_snapshot_vrf_material_version :: "b256 \<Rightarrow> u64"
  committee_snapshot_vrf_group_public_key_hash :: "b256 \<Rightarrow> b256"
  committee_snapshot_vrf_group_public_key_len :: "b256 \<Rightarrow> u64"
  committee_snapshot_vrf_group_public_key_chunk_at :: "b256 \<Rightarrow> u64 \<Rightarrow> b256"
  committee_snapshot_vrf_public_polynomial_hash :: "b256 \<Rightarrow> b256"
  committee_snapshot_key_ring :: "u64 \<Rightarrow> b256"

definition COMMITTEE_SNAPSHOT_RETAIN_EPOCHS :: u64 where
  "COMMITTEE_SNAPSHOT_RETAIN_EPOCHS = 8"

text \<open>\<open>None\<close> is \<open>ActivationError::VrfVersionOverflow\<close>.\<close>

definition next_vrf_material_version :: "u64 \<Rightarrow> u64 option" where
  "next_vrf_material_version previous = checked_add previous 1"

definition split_pubkey :: "bytes \<Rightarrow> b256 \<times> b256" where
  "split_pubkey pk = (take 32 pk, take 16 (drop 32 pk) @ replicate 16 0)"

definition join_pubkey :: "b256 \<Rightarrow> b256 \<Rightarrow> bytes" where
  "join_pubkey lo hi = take 32 lo @ take 16 hi"

definition div_ceil :: "u64 \<Rightarrow> u64 \<Rightarrow> u64" where
  "div_ceil n d = (if 0 < n mod d then n div d + 1 else n div d)"

text \<open>The loop \<open>for i in 0..n\<close>.\<close>

definition range_u64 :: "u64 \<Rightarrow> u64 list" where
  "range_u64 n = map word_of_nat [0..<unat n]"

definition nested_upd ::
  "('k \<Rightarrow> 'i \<Rightarrow> 'v) \<Rightarrow> 'k \<Rightarrow> 'i \<Rightarrow> 'v \<Rightarrow> 'k \<Rightarrow> 'i \<Rightarrow> 'v" where
  "nested_upd m k i v = m(k := (m k)(i := v))"

definition clear_entry :: "b256 \<Rightarrow> u64 \<Rightarrow> snapshot_store \<Rightarrow> snapshot_store" where
  "clear_entry key i st = st
     \<lparr>committee_snapshot_address_at := nested_upd (committee_snapshot_address_at st) key i 0,
      committee_snapshot_pubkey_lo_at :=
        nested_upd (committee_snapshot_pubkey_lo_at st) key i B256_ZERO,
      committee_snapshot_pubkey_hi_at :=
        nested_upd (committee_snapshot_pubkey_hi_at st) key i B256_ZERO\<rparr>"

definition clear_chunk :: "b256 \<Rightarrow> u64 \<Rightarrow> snapshot_store \<Rightarrow> snapshot_store" where
  "clear_chunk key i st = st
     \<lparr>committee_snapshot_vrf_group_public_key_chunk_at :=
        nested_upd (committee_snapshot_vrf_group_public_key_chunk_at st) key i B256_ZERO\<rparr>"

definition clear_entries :: "b256 \<Rightarrow> snapshot_store \<Rightarrow> snapshot_store" where
  "clear_entries key st =
     (let st = fold (clear_entry key) (range_u64 (committee_snapshot_len st key)) st
      in st\<lparr>committee_snapshot_len := (committee_snapshot_len st)(key := 0)\<rparr>)"

definition clear_vrf_material :: "b256 \<Rightarrow> snapshot_store \<Rightarrow> snapshot_store" where
  "clear_vrf_material key st =
     (let vrf_pk_len = committee_snapshot_vrf_group_public_key_len st key;
          num_chunks = (if 0 < vrf_pk_len then div_ceil vrf_pk_len 32 else 0);
          st = fold (clear_chunk key) (range_u64 num_chunks) st
      in st\<lparr>committee_snapshot_vrf_material_version :=
               (committee_snapshot_vrf_material_version st)(key := 0),
            committee_snapshot_vrf_group_public_key_hash :=
               (committee_snapshot_vrf_group_public_key_hash st)(key := B256_ZERO),
            committee_snapshot_vrf_group_public_key_len :=
               (committee_snapshot_vrf_group_public_key_len st)(key := 0),
            committee_snapshot_vrf_public_polynomial_hash :=
               (committee_snapshot_vrf_public_polynomial_hash st)(key := B256_ZERO)\<rparr>)"

definition clear_committee_snapshot :: "b256 \<Rightarrow> snapshot_store \<Rightarrow> snapshot_store" where
  "clear_committee_snapshot key st =
     (if \<not> committee_snapshot_exists st key then st
      else clear_vrf_material key (clear_entries key
        (st\<lparr>committee_snapshot_exists := (committee_snapshot_exists st)(key := False)\<rparr>)))"

text \<open>\<open>slice.chunks(32)\<close>, each chunk padded to 32 bytes when stored.\<close>

fun chunks32 :: "bytes \<Rightarrow> bytes list" where
  "chunks32 [] = []"
| "chunks32 (b # bs) = take 32 (b # bs) # chunks32 (drop 31 bs)"

definition pad32 :: "bytes \<Rightarrow> b256" where
  "pad32 chunk = chunk @ replicate (32 - length chunk) 0"

definition write_entry :: "b256 \<Rightarrow> nat \<times> committee_entry \<Rightarrow> snapshot_store \<Rightarrow> snapshot_store" where
  "write_entry key = (\<lambda>(i, e) st.
     let idx = word_of_nat i;
         st = st\<lparr>committee_snapshot_address_at :=
                   nested_upd (committee_snapshot_address_at st) key idx (entry_address e)\<rparr>;
         (lo, hi) = split_pubkey (entry_pubkey e)
     in st\<lparr>committee_snapshot_pubkey_lo_at :=
              nested_upd (committee_snapshot_pubkey_lo_at st) key idx lo,
           committee_snapshot_pubkey_hi_at :=
              nested_upd (committee_snapshot_pubkey_hi_at st) key idx hi\<rparr>)"

definition write_chunk :: "b256 \<Rightarrow> nat \<times> bytes \<Rightarrow> snapshot_store \<Rightarrow> snapshot_store" where
  "write_chunk key = (\<lambda>(i, chunk) st.
     st\<lparr>committee_snapshot_vrf_group_public_key_chunk_at :=
          nested_upd (committee_snapshot_vrf_group_public_key_chunk_at st) key (word_of_nat i)
            (pad32 chunk)\<rparr>)"

definition write_entries ::
  "b256 \<Rightarrow> committee_entry list \<Rightarrow> snapshot_store \<Rightarrow> snapshot_store" where
  "write_entries key es st =
     fold (write_entry key) (enumerate 0 es)
       (st\<lparr>committee_snapshot_len := (committee_snapshot_len st)(key := word_of_nat (length es))\<rparr>)"

definition write_vrf_material ::
  "crypto \<Rightarrow> b256 \<Rightarrow> committee_snapshot \<Rightarrow> snapshot_store \<Rightarrow> snapshot_store" where
  "write_vrf_material c key s st =
     fold (write_chunk key) (enumerate 0 (chunks32 (vrf_group_public_key_bytes s)))
       (st\<lparr>committee_snapshot_vrf_material_version :=
              (committee_snapshot_vrf_material_version st)(key := vrf_material_version s),
           committee_snapshot_vrf_group_public_key_hash :=
              (committee_snapshot_vrf_group_public_key_hash st)
                (key := keccak256 c (vrf_group_public_key_bytes s)),
           committee_snapshot_vrf_group_public_key_len :=
              (committee_snapshot_vrf_group_public_key_len st)
                (key := word_of_nat (length (vrf_group_public_key_bytes s))),
           committee_snapshot_vrf_public_polynomial_hash :=
              (committee_snapshot_vrf_public_polynomial_hash st)
                (key := vrf_public_polynomial_hash s)\<rparr>)"

text \<open>All slots of a snapshot, the \<open>exists\<close> flag last.\<close>

definition store_snapshot ::
  "crypto \<Rightarrow> b256 \<Rightarrow> committee_snapshot \<Rightarrow> snapshot_store \<Rightarrow> snapshot_store" where
  "store_snapshot c key s st =
     (let st = write_vrf_material c key s (write_entries key (committee s) st)
      in st\<lparr>committee_snapshot_exists := (committee_snapshot_exists st)(key := True)\<rparr>)"

text \<open>The prune ring: writing epoch \<open>e\<close> evicts what slot \<open>e mod 8\<close> held before.\<close>

definition push_ring :: "u64 \<Rightarrow> b256 \<Rightarrow> snapshot_store \<Rightarrow> snapshot_store" where
  "push_ring epoch key st =
     (let ring_idx = epoch mod COMMITTEE_SNAPSHOT_RETAIN_EPOCHS;
          evicted = committee_snapshot_key_ring st ring_idx;
          st = (if evicted \<noteq> B256_ZERO \<and> evicted \<noteq> key
                then clear_committee_snapshot evicted st else st)
      in st\<lparr>committee_snapshot_key_ring := (committee_snapshot_key_ring st)(ring_idx := key)\<rparr>)"

definition write_committee_snapshot ::
  "crypto \<Rightarrow> u64 \<Rightarrow> committee_snapshot \<Rightarrow> snapshot_store \<Rightarrow> ((b256 \<times> b256) \<times> snapshot_store) result" where
  "write_committee_snapshot c epoch s st =
     (let h = committee_set_hash_v2 c epoch s;
          key = committee_snapshot_key c epoch h
      in if \<not> length (committee s) < 2 ^ 64
         then Inl (Revert ''committee snapshot length exceeds u64'')
         else if \<not> length (vrf_group_public_key_bytes s) < 2 ^ 64
         then Inl (Revert ''vrf group pk bytes length exceeds u64'')
         else Inr ((h, key), push_ring epoch key (store_snapshot c key s st)))"

definition read_entry :: "b256 \<Rightarrow> snapshot_store \<Rightarrow> u64 \<Rightarrow> committee_entry" where
  "read_entry key st i =
     \<lparr>entry_address = committee_snapshot_address_at st key i,
      entry_pubkey = join_pubkey (committee_snapshot_pubkey_lo_at st key i)
        (committee_snapshot_pubkey_hi_at st key i)\<rparr>"

definition read_group_key :: "b256 \<Rightarrow> snapshot_store \<Rightarrow> bytes" where
  "read_group_key key st =
     (let vrf_pk_len = committee_snapshot_vrf_group_public_key_len st key
      in if 0 < vrf_pk_len then
           let num_chunks = div_ceil vrf_pk_len 32;
               last_chunk_take = (if unat (vrf_pk_len mod 32) = 0 then 32 else unat (vrf_pk_len mod 32))
           in concat (map (\<lambda>i.
                take (if i + 1 = num_chunks then last_chunk_take else 32)
                  (committee_snapshot_vrf_group_public_key_chunk_at st key i)) (range_u64 num_chunks))
         else [])"

definition read_committee_snapshot :: "b256 \<Rightarrow> snapshot_store \<Rightarrow> committee_snapshot option" where
  "read_committee_snapshot key st =
     (if \<not> committee_snapshot_exists st key then None
      else Some
        \<lparr>committee = map (read_entry key st) (range_u64 (committee_snapshot_len st key)),
         vrf_material_version = committee_snapshot_vrf_material_version st key,
         vrf_group_public_key_bytes = read_group_key key st,
         vrf_public_polynomial_hash = committee_snapshot_vrf_public_polynomial_hash st key\<rparr>)"

definition read_committee_snapshot_for_epoch :: "u64 \<Rightarrow> snapshot_store \<Rightarrow> committee_snapshot option" where
  "read_committee_snapshot_for_epoch epoch st =
     (let key = committee_snapshot_key_ring st (epoch mod COMMITTEE_SNAPSHOT_RETAIN_EPOCHS)
      in if key = B256_ZERO then None else read_committee_snapshot key st)"

definition snapshot_identity :: "crypto \<Rightarrow> u64 \<Rightarrow> committee_snapshot \<Rightarrow> b256 \<times> b256" where
  "snapshot_identity c epoch s =
     (let h = committee_set_hash_v2 c epoch s in (h, committee_snapshot_key c epoch h))"

section \<open>Boundary activation\<close>

record boundary_activation_inputs =
  outgoing :: "(u64 \<times> committee_snapshot) option"
  incoming_epoch :: u64
  incoming :: committee_snapshot
  new_active_set :: "address list"
  active_set_hash :: b256

text \<open>
  All or nothing: the checkpoint guard rolls an error back, so only the success carries a
  new state.
\<close>

definition activate_boundary_atomic ::
  "crypto \<Rightarrow> boundary_activation_inputs \<Rightarrow> validator_set \<times> snapshot_store
     \<Rightarrow> ((b256 \<times> b256) \<times> validator_set \<times> snapshot_store) result" where
  "activate_boundary_atomic c inp = (\<lambda>(vs, st).
     and_then
       (case outgoing inp of
          Some (epoch, s) \<Rightarrow>
            and_then (write_committee_snapshot c epoch s st) (\<lambda>((_, key), st). Inr (key, st))
        | None \<Rightarrow> Inr (B256_ZERO, st))
       (\<lambda>(outgoing_key, st).
          and_then (activate_reshared_set (new_active_set inp) (active_set_hash inp) vs) (\<lambda>vs.
          and_then (write_committee_snapshot c (incoming_epoch inp) (incoming inp) st)
            (\<lambda>((_, incoming_key), st). Inr ((outgoing_key, incoming_key), vs, st)))))"

section \<open>The cryptographic library and the signing namespaces\<close>

text \<open>
  What the certificate code calls in the commonware library: decoding of keys and signatures,
  the encodings of a round and of a proposal, the canonical order of a key set, verification
  of one signature under the aggregate of a list of keys, under an identity key, and of a
  threshold seed signature, and the readers of the certificate envelope. Keys and signatures
  are their encodings.
\<close>

record proposal =
  proposal_epoch :: u64
  proposal_view :: u64
  proposal_parent :: u64
  proposal_payload :: b256

record commonware =
  decode_pubkey_ok :: "bytes \<Rightarrow> bool"
  decode_signature_ok :: "bytes \<Rightarrow> bool"
  decode_group_key_ok :: "bytes \<Rightarrow> bool"
  decode_seed_signature_ok :: "bytes \<Rightarrow> bool"
  group_key_size :: nat
  encode_round :: "u64 \<Rightarrow> u64 \<Rightarrow> bytes"
  encode_proposal :: "proposal \<Rightarrow> bytes"
  ordered_set :: "bytes list \<Rightarrow> bytes list"
  verify_same_message :: "bytes list \<Rightarrow> bytes \<Rightarrow> bytes \<Rightarrow> bytes \<Rightarrow> bool"
  verify_identity :: "bytes \<Rightarrow> bytes \<Rightarrow> bytes \<Rightarrow> bytes \<Rightarrow> bool"
  verify_message_minsig :: "bytes \<Rightarrow> bytes \<Rightarrow> bytes \<Rightarrow> bytes \<Rightarrow> bool"
  partial_public :: "bytes \<Rightarrow> u32 \<Rightarrow> bytes option"
  read_proposal :: "bytes \<Rightarrow> (proposal \<times> bytes) option"
  read_signers :: "nat \<Rightarrow> bytes \<Rightarrow> ((nat \<times> nat list) \<times> bytes) option"
  read_vote_signature :: "bytes \<Rightarrow> (bytes \<times> bytes) option"
  read_seed_signature :: "bytes \<Rightarrow> (bytes \<times> bytes) option"

text \<open>The namespaces of \<^verbatim>\<open>proof/constants.rs\<close>; the process-wide chain id is an argument.\<close>

definition OUTBE_APP_NAMESPACE_BASE :: bytes where
  "OUTBE_APP_NAMESPACE_BASE = ascii ''outbe''"

definition COMMITTEE_COMMITMENT_DOMAIN :: bytes where
  "COMMITTEE_COMMITMENT_DOMAIN = ascii ''OUTBE_COMMITTEE_V1''"

definition outbe_app_namespace :: "u64 \<Rightarrow> bytes" where
  "outbe_app_namespace chain_id = OUTBE_APP_NAMESPACE_BASE @ to_be_bytes 8 chain_id"

definition participant_set_commitment :: "crypto \<Rightarrow> bytes list \<Rightarrow> bytes" where
  "participant_set_commitment c keys =
     keccak256 c (COMMITTEE_COMMITMENT_DOMAIN @ to_be_bytes 4 (word_of_nat (length keys) :: u32) @ concat keys)"

definition sub_namespace :: "u64 \<Rightarrow> bytes \<Rightarrow> bytes" where
  "sub_namespace chain_id suffix = outbe_app_namespace chain_id @ suffix"

definition vote_sub_namespace :: "crypto \<Rightarrow> u64 \<Rightarrow> bytes \<Rightarrow> bytes list \<Rightarrow> bytes" where
  "vote_sub_namespace c chain_id suffix keys =
     outbe_app_namespace chain_id @ suffix @ participant_set_commitment c keys"

definition notarize_namespace :: "crypto \<Rightarrow> u64 \<Rightarrow> bytes list \<Rightarrow> bytes" where
  "notarize_namespace c chain_id keys = vote_sub_namespace c chain_id (ascii ''_NOTARIZE'') keys"

definition nullify_namespace :: "crypto \<Rightarrow> u64 \<Rightarrow> bytes list \<Rightarrow> bytes" where
  "nullify_namespace c chain_id keys = vote_sub_namespace c chain_id (ascii ''_NULLIFY'') keys"

definition finalize_namespace :: "crypto \<Rightarrow> u64 \<Rightarrow> bytes list \<Rightarrow> bytes" where
  "finalize_namespace c chain_id keys = vote_sub_namespace c chain_id (ascii ''_FINALIZE'') keys"

definition hybrid_seed_namespace :: "u64 \<Rightarrow> bytes" where
  "hybrid_seed_namespace chain_id = sub_namespace chain_id (ascii ''_SEED'')"

definition seed_attest_namespace :: "u64 \<Rightarrow> bytes" where
  "seed_attest_namespace chain_id = sub_namespace chain_id (ascii ''_SEEDATTEST'')"

section \<open>Quorums and signer bitmaps\<close>

definition simplex_n3f1_quorum :: "nat \<Rightarrow> nat" where
  "simplex_n3f1_quorum n = (2 * n) div 3 + 1"

datatype verify_error =
    DecodeError
  | TrailingBytesError
  | NonHybridEncoding string
  | BelowQuorum nat nat
  | BitmapMismatch string
  | SignerIndexOutOfRange nat nat
  | DuplicateSigner nat
  | BlsAggregateInvalid
  | MissingVrfProof
  | MalformedVrfProof
  | WrongVrfMaterialVersion u64 u64
  | WrongVrfGroupKeyHash b256 b256
  | WrongVrfNamespace
  | WrongVrfSeedRound u64 u64
  | InvalidVrfSignature
  | WrongAccountedNumber u64 u64
  | WrongAccountedHash b256 b256
  | WrongProofDomain b256 b256
  | CommitteeSnapshotMissing
  | CommitteeSetHashMismatch b256 b256
  | NonEmptyMissedProposers nat

text \<open>The indices of the set bits, in the order the nested loops visit them.\<close>

definition byte_bits :: "nat \<times> u8 \<Rightarrow> nat list" where
  "byte_bits = (\<lambda>(byte_idx, byte). map (\<lambda>k. byte_idx * 8 + k) (filter (\<lambda>k. bit byte k) [0..<8]))"

definition signer_indices :: "bytes \<Rightarrow> nat list" where
  "signer_indices bitmap = concat (map byte_bits (enumerate 0 bitmap))"

fun check_indices :: "nat \<Rightarrow> nat list \<Rightarrow> verify_error + unit" where
  "check_indices n [] = Inr ()"
| "check_indices n (i # is) = (if n \<le> i then Inl (SignerIndexOutOfRange i n) else check_indices n is)"

record per_block_credit =
  fb_number :: u64
  fb_hash :: b256
  credit_epoch :: u64
  credit_view :: u64
  credit_parent_view :: u64
  credit_committee_set_hash :: b256
  credit_signer_bitmap :: bytes
  aggregate_signature :: bytes

definition credit_proposal :: "per_block_credit \<Rightarrow> proposal" where
  "credit_proposal credit =
     \<lparr>proposal_epoch = credit_epoch credit, proposal_view = credit_view credit,
      proposal_parent = credit_parent_view credit, proposal_payload = fb_hash credit\<rparr>"

definition verify_late_finalize_proof ::
  "crypto \<Rightarrow> commonware \<Rightarrow> u64 \<Rightarrow> committee_snapshot \<Rightarrow> per_block_credit \<Rightarrow> verify_error + nat list" where
  "verify_late_finalize_proof c b chain_id s credit =
     (if committee_set_hash_v2 c (credit_epoch credit) s \<noteq> credit_committee_set_hash credit
      then Inl (CommitteeSetHashMismatch (committee_set_hash_v2 c (credit_epoch credit) s)
        (credit_committee_set_hash credit))
      else if \<not> list_all (\<lambda>e. decode_pubkey_ok b (entry_pubkey e)) (committee s)
      then Inl DecodeError
      else
        let n = length (committee s); bitmap = credit_signer_bitmap credit
        in if length bitmap \<noteq> (n + 7) div 8
           then Inl (BitmapMismatch ''late-finalize bitmap length does not match committee size'')
           else and_then (check_indices n (signer_indices bitmap)) (\<lambda>_.
             let idxs = signer_indices bitmap
             in if idxs = [] then Inl (BitmapMismatch ''empty late-finalize signer bitmap'')
                else if \<not> decode_signature_ok b (aggregate_signature credit) then Inl DecodeError
                else if \<not> verify_same_message b
                          (map (\<lambda>i. entry_pubkey (committee s ! i)) idxs)
                          (finalize_namespace c chain_id (ordered_set b (map entry_pubkey (committee s))))
                          (encode_proposal b (credit_proposal credit))
                          (aggregate_signature credit)
                then Inl BlsAggregateInvalid
                else Inr idxs))"

end
