(* ===== verification/Committee_Properties.thy ===== *)
theory Committee_Properties
  imports Committee_Snapshot
begin

text \<open>
  What the committee snapshots guarantee: the hashed buffer is unambiguous; the store returns
  what was written and refines one cell per epoch residue, so that at most eight snapshots are
  kept; the boundary activation installs both snapshots with the reshared set; the quorum size
  is a Byzantine quorum; the late-finalize verifier accepts exactly the set bits.
\<close>

section \<open>The committee preimage is injective\<close>

definition wf_snapshot :: "committee_snapshot \<Rightarrow> bool" where
  "wf_snapshot s \<longleftrightarrow> (\<forall>e\<in>set (committee s). length (entry_pubkey e) = 48) \<and>
     length (committee s) < 2 ^ 64 \<and> length (vrf_group_public_key_bytes s) < 2 ^ 64"

lemma word_of_nat_u64_eq:
  "m < 2 ^ 64 \<Longrightarrow> n < 2 ^ 64 \<Longrightarrow> (word_of_nat m :: u64) = word_of_nat n \<longleftrightarrow> m = n"
  by (simp add: word_of_nat_eq_iff take_bit_nat_eq_self)

lemma unat_of_nat_u64 [simp]: "m < 2 ^ 64 \<Longrightarrow> unat (word_of_nat m :: u64) = m"
  by (simp add: unat_of_nat)

lemma length_encode_entries:
  "\<forall>e\<in>set es. length (entry_pubkey e) = 48 \<Longrightarrow> length (concat (map encode_entry es)) = 68 * length es"
  by (induction es) (simp_all add: encode_entry_def)

lemma encode_entry_inj: "encode_entry e = encode_entry e' \<Longrightarrow> e = e'"
  by (simp add: encode_entry_def to_be_bytes_eq)

lemma encode_entries_inj:
  "length es = length es' \<Longrightarrow> \<forall>e\<in>set es. length (entry_pubkey e) = 48 \<Longrightarrow>
   \<forall>e\<in>set es'. length (entry_pubkey e) = 48 \<Longrightarrow>
   concat (map encode_entry es) = concat (map encode_entry es') \<Longrightarrow> es = es'"
proof (induction es es' rule: list_induct2)
  case (Cons e es e' es')
  moreover have "length (encode_entry e) = length (encode_entry e')"
    using Cons.prems by (simp add: encode_entry_def)
  ultimately show ?case using encode_entry_inj [of e e'] by simp
qed simp

text \<open>
  C25. The buffer hashed into the committee set hash determines the epoch, the ordered
  committee, the VRF material version and the group public key: two snapshots with the same
  buffer differ at most in the polynomial hash, which is left out on purpose.
\<close>

theorem committee_preimage_injective:
  assumes "wf_snapshot s" and "wf_snapshot s'"
    and eq: "committee_preimage epoch s = committee_preimage epoch' s'"
  shows "epoch = epoch' \<and> committee s = committee s' \<and>
    vrf_material_version s = vrf_material_version s' \<and>
    vrf_group_public_key_bytes s = vrf_group_public_key_bytes s'"
proof -
  have head: "epoch = epoch'"
    "(word_of_nat (length (committee s)) :: u64) = word_of_nat (length (committee s'))"
    using eq by (simp_all add: committee_preimage_def to_be_bytes_eq)
  have len: "length (committee s) = length (committee s')"
    using head(2) assms(1,2) by (simp add: wf_snapshot_def word_of_nat_u64_eq)
  have keys: "\<forall>e\<in>set (committee s). length (entry_pubkey e) = 48"
    "\<forall>e\<in>set (committee s'). length (entry_pubkey e) = 48"
    using assms(1,2) by (simp_all add: wf_snapshot_def)
  have blocks: "length (concat (map encode_entry (committee s)))
      = length (concat (map encode_entry (committee s')))"
    by (simp only: length_encode_entries [OF keys(1)] length_encode_entries [OF keys(2)] len)
  have tail: "concat (map encode_entry (committee s)) @ to_be_bytes 8 (vrf_material_version s) @
        to_be_bytes 8 (word_of_nat (length (vrf_group_public_key_bytes s)) :: u64) @
        vrf_group_public_key_bytes s =
      concat (map encode_entry (committee s')) @ to_be_bytes 8 (vrf_material_version s') @
        to_be_bytes 8 (word_of_nat (length (vrf_group_public_key_bytes s')) :: u64) @
        vrf_group_public_key_bytes s'"
    using eq by (simp add: committee_preimage_def)
  then have "concat (map encode_entry (committee s)) = concat (map encode_entry (committee s'))"
    and "to_be_bytes 8 (vrf_material_version s) = to_be_bytes 8 (vrf_material_version s')"
    and "vrf_group_public_key_bytes s = vrf_group_public_key_bytes s'"
    using blocks by simp_all
  with head(1) encode_entries_inj [OF len keys] show ?thesis by (simp add: to_be_bytes_eq)
qed

section \<open>Keys stored in two halves, bytes stored in chunks\<close>

lemma join_split_pubkey:
  "length pk = 48 \<Longrightarrow> join_pubkey (fst (split_pubkey pk)) (snd (split_pubkey pk)) = pk"
  by (simp add: join_pubkey_def split_pubkey_def take_add [symmetric])

lemma concat_chunks32: "concat (chunks32 bs) = bs"
  by (induction bs rule: chunks32.induct) (simp_all del: take_Suc_Cons add: take_Cons')

lemma div32_cases:
  fixes n :: nat
  shows "(n + 31) div 32 = (if n mod 32 = 0 then n div 32 else Suc (n div 32))"
proof -
  define q r where "q = n div 32" and "r = n mod 32"
  have "n = r + q * 32" "r < 32" by (simp_all add: q_def r_def)
  then have "(n + 31) div 32 = (r + 31) div 32 + q" by simp
  moreover have "(r + 31) div 32 = (if r = 0 then 0 else 1)"
    using \<open>r < 32\<close> by (auto simp: div_nat_eqI)
  ultimately show ?thesis by (simp add: q_def r_def)
qed

lemma length_chunks32: "length (chunks32 bs) = (length bs + 31) div 32"
proof (induction bs rule: chunks32.induct)
  case (2 b bs)
  have "Suc ((length bs - 31 + 31) div 32) = (length bs + 32) div 32"
    by (cases "31 \<le> length bs") (simp_all add: div_nat_eqI)
  with 2 show ?case by simp
qed simp

lemma nth_chunks32: "i < length (chunks32 bs) \<Longrightarrow> chunks32 bs ! i = take 32 (drop (32 * i) bs)"
proof (induction bs arbitrary: i rule: chunks32.induct)
  case (2 b bs)
  then show ?case by (cases i) (simp_all add: numeral_eq_Suc drop_Cons' ac_simps)
qed simp

section \<open>Reading back what was written\<close>

text \<open>Two stores that agree on all slots of a key.\<close>

definition agree :: "b256 \<Rightarrow> snapshot_store \<Rightarrow> snapshot_store \<Rightarrow> bool" where
  "agree k st st' \<longleftrightarrow>
     committee_snapshot_exists st' k = committee_snapshot_exists st k \<and>
     committee_snapshot_len st' k = committee_snapshot_len st k \<and>
     committee_snapshot_address_at st' k = committee_snapshot_address_at st k \<and>
     committee_snapshot_pubkey_lo_at st' k = committee_snapshot_pubkey_lo_at st k \<and>
     committee_snapshot_pubkey_hi_at st' k = committee_snapshot_pubkey_hi_at st k \<and>
     committee_snapshot_vrf_material_version st' k = committee_snapshot_vrf_material_version st k \<and>
     committee_snapshot_vrf_group_public_key_len st' k = committee_snapshot_vrf_group_public_key_len st k \<and>
     committee_snapshot_vrf_group_public_key_chunk_at st' k =
       committee_snapshot_vrf_group_public_key_chunk_at st k \<and>
     committee_snapshot_vrf_public_polynomial_hash st' k = committee_snapshot_vrf_public_polynomial_hash st k"

lemma agree_refl [simp]: "agree k st st"
  by (simp add: agree_def)

lemma agree_trans: "agree k a b \<Longrightarrow> agree k b c \<Longrightarrow> agree k a c"
  by (simp add: agree_def)

lemma agree_read:
  assumes "agree k st st'" shows "read_committee_snapshot k st' = read_committee_snapshot k st"
proof -
  have "read_entry k st' = read_entry k st" using assms by (auto simp: read_entry_def agree_def)
  moreover have "read_group_key k st' = read_group_key k st"
    using assms unfolding agree_def read_group_key_def by (simp add: Let_def)
  ultimately show ?thesis using assms by (simp add: read_committee_snapshot_def agree_def)
qed

lemma fold_agree:
  assumes "\<And>x st. agree k st (f x st)" shows "agree k st (fold f xs st)"
  by (induction xs arbitrary: st) (simp, metis agree_trans assms fold_simps(2))

lemma agree_clear:
  assumes "k \<noteq> key" shows "agree k st (clear_committee_snapshot key st)"
proof -
  have "agree k a (clear_entry key i a)" "agree k a (clear_chunk key i a)" for i a
    using assms by (simp_all add: agree_def clear_entry_def clear_chunk_def nested_upd_def)
  note loops = fold_agree [of k "clear_entry key", OF this(1)] fold_agree [of k "clear_chunk key", OF this(2)]
  have e: "agree k a (clear_entries key a)" for a
    using loops(1) [of a "range_u64 (committee_snapshot_len a key)"] assms
    by (simp add: clear_entries_def Let_def agree_def)
  have v: "agree k a (clear_vrf_material key a)" for a
    using loops(2) [of a] assms by (simp add: clear_vrf_material_def Let_def agree_def)
  have "agree k st (st\<lparr>committee_snapshot_exists := (committee_snapshot_exists st)(key := False)\<rparr>)"
    using assms by (simp add: agree_def)
  from agree_trans [OF agree_trans [OF this e] v]
  have "agree k st (clear_vrf_material key (clear_entries key
      (st\<lparr>committee_snapshot_exists := (committee_snapshot_exists st)(key := False)\<rparr>)))" .
  then show ?thesis by (simp add: clear_committee_snapshot_def)
qed

lemma agree_store:
  assumes "k \<noteq> key" shows "agree k st (store_snapshot c key s st)"
proof -
  have "agree k a (write_entry key x a)" for x a
    using assms by (cases x) (simp add: agree_def write_entry_def split_pubkey_def nested_upd_def Let_def)
  moreover have "agree k a (write_chunk key x a)" for x a
    using assms by (cases x) (simp add: agree_def write_chunk_def nested_upd_def)
  ultimately have loops: "agree k a (fold (write_entry key) xs a)" "agree k a (fold (write_chunk key) ys a)" for a xs ys
    by (auto intro: fold_agree)
  have e: "agree k a (write_entries key es a)" for a es
    unfolding write_entries_def by (rule agree_trans [OF _ loops(1)]) (use assms in \<open>simp add: agree_def\<close>)
  have v: "agree k a (write_vrf_material c key s a)" for a
    unfolding write_vrf_material_def by (rule agree_trans [OF _ loops(2)]) (use assms in \<open>simp add: agree_def\<close>)
  from agree_trans [OF e v] have "agree k st (write_vrf_material c key s (write_entries key (committee s) st))" .
  then show ?thesis using assms by (simp add: store_snapshot_def Let_def agree_def)
qed

lemma clear_entries_exists:
  "committee_snapshot_exists (clear_entries key st) = committee_snapshot_exists st"
proof -
  have "committee_snapshot_exists (fold (clear_entry key) xs a) = committee_snapshot_exists a" for xs a
    by (induction xs arbitrary: a) (simp_all add: clear_entry_def)
  then show ?thesis by (simp add: clear_entries_def Let_def)
qed

lemma clear_vrf_exists:
  "committee_snapshot_exists (clear_vrf_material key st) = committee_snapshot_exists st"
proof -
  have "committee_snapshot_exists (fold (clear_chunk key) xs a) = committee_snapshot_exists a" for xs a
    by (induction xs arbitrary: a) (simp_all add: clear_chunk_def)
  then show ?thesis by (simp add: clear_vrf_material_def Let_def)
qed

lemma clear_exists: "\<not> committee_snapshot_exists (clear_committee_snapshot key st) key"
  unfolding clear_committee_snapshot_def
  by (simp only: if_distrib clear_entries_exists clear_vrf_exists if_False if_True) simp

lemma read_cleared: "read_committee_snapshot key (clear_committee_snapshot key st) = None"
  unfolding read_committee_snapshot_def by (simp only: clear_exists simp_thms if_True)

lemma read_write_entry:
  "length (entry_pubkey e) = 48 \<Longrightarrow>
   read_entry key (write_entry key (i, e) st) j = (if j = word_of_nat i then e else read_entry key st j)"
  using join_split_pubkey [of "entry_pubkey e"]
  by (simp add: read_entry_def write_entry_def nested_upd_def Let_def split_beta)

lemma read_write_loop:
  "\<forall>e\<in>set es. length (entry_pubkey e) = 48 \<Longrightarrow> k + length es < 2 ^ 64 \<Longrightarrow>
   read_entry key (fold (write_entry key) (enumerate k es) st) j =
     (if k \<le> unat j \<and> unat j < k + length es then es ! (unat j - k) else read_entry key st j)"
proof (induction es arbitrary: k st)
  case (Cons e es)
  have "j = word_of_nat k \<longleftrightarrow> unat j = k"
    using Cons.prems(2) by (simp add: word_unat_eq_iff)
  moreover have "es ! (unat j - Suc k) = (e # es) ! (unat j - k)" if "Suc k \<le> unat j"
    using that by (simp add: nth_Cons')
  ultimately show ?case using Cons by (auto simp: read_write_entry)
qed auto

lemma write_loop_frame:
  "committee_snapshot_len (fold (write_entry key) xs st) = committee_snapshot_len st"
  "committee_snapshot_key_ring (fold (write_entry key) xs st) = committee_snapshot_key_ring st"
  by (induction xs arbitrary: st) (auto simp: write_entry_def Let_def split_beta)

lemma map_range_u64:
  assumes "length xs < 2 ^ 64" and "\<And>i. i < length xs \<Longrightarrow> f (word_of_nat i) = xs ! i"
  shows "map f (range_u64 (word_of_nat (length xs))) = xs"
  using assms by (intro nth_equalityI) (simp_all add: range_u64_def)

lemma chunk_frame:
  "committee_snapshot_len (fold (write_chunk key) ys st) = committee_snapshot_len st"
  "committee_snapshot_key_ring (fold (write_chunk key) ys st) = committee_snapshot_key_ring st"
  "committee_snapshot_address_at (fold (write_chunk key) ys st) = committee_snapshot_address_at st"
  "committee_snapshot_pubkey_lo_at (fold (write_chunk key) ys st) = committee_snapshot_pubkey_lo_at st"
  "committee_snapshot_pubkey_hi_at (fold (write_chunk key) ys st) = committee_snapshot_pubkey_hi_at st"
  "committee_snapshot_vrf_material_version (fold (write_chunk key) ys st) = committee_snapshot_vrf_material_version st"
  "committee_snapshot_vrf_group_public_key_len (fold (write_chunk key) ys st) = committee_snapshot_vrf_group_public_key_len st"
  "committee_snapshot_vrf_public_polynomial_hash (fold (write_chunk key) ys st) = committee_snapshot_vrf_public_polynomial_hash st"
  by (induction ys arbitrary: st) (auto simp: write_chunk_def)

lemma chunk_loop:
  "k + length cs < 2 ^ 64 \<Longrightarrow>
   committee_snapshot_vrf_group_public_key_chunk_at (fold (write_chunk key) (enumerate k cs) st) key j =
     (if k \<le> unat j \<and> unat j < k + length cs then pad32 (cs ! (unat j - k))
      else committee_snapshot_vrf_group_public_key_chunk_at st key j)"
proof (induction cs arbitrary: k st)
  case (Cons e es)
  have "j = word_of_nat k \<longleftrightarrow> unat j = k"
    using Cons.prems by (simp add: word_unat_eq_iff)
  moreover have "es ! (unat j - Suc k) = (e # es) ! (unat j - k)" if "Suc k \<le> unat j"
    using that by (simp add: nth_Cons')
  ultimately show ?case using Cons by (auto simp: write_chunk_def nested_upd_def)
qed auto

lemma div_ceil_32:
  "n < 2 ^ 64 \<Longrightarrow> div_ceil (word_of_nat n) 32 = word_of_nat ((n + 31) div 32)"
proof -
  assume n: "n < 2 ^ 64"
  have d: "(word_of_nat n :: u64) div 32 = word_of_nat (n div 32)" 
    using n by (simp add: word_arith_nat_div)
  have m: "(word_of_nat n :: u64) mod 32 = word_of_nat (n mod 32)" 
    using n by (simp add: word_arith_nat_mod)
  have "0 < (word_of_nat (n mod 32) :: u64) \<longleftrightarrow> 0 < n mod 32" by (simp add: word_less_nat_alt take_bit_nat_eq_self unat_of_nat)
  then show ?thesis by (simp add: div_ceil_def d m div32_cases ac_simps)
qed

lemma length_nth_chunks32:
  assumes "i < length (chunks32 bs)"
  shows "length (chunks32 bs ! i) =
    (if Suc i = length (chunks32 bs) \<and> length bs mod 32 \<noteq> 0 then length bs mod 32 else 32)"
proof -
  define n where "n = length bs"
  have i: "i < (n + 31) div 32" using assms by (simp add: length_chunks32 n_def)
  have "min (n - 32 * i) 32 =
      (if Suc i = (n + 31) div 32 \<and> n mod 32 \<noteq> 0 then n mod 32 else 32)"
  proof (cases "n mod 32 = 0")
    case True
    then have "(n + 31) div 32 = n div 32" "n = 32 * (n div 32)"
      using mult_div_mod_eq [of 32 n] by (simp_all add: div32_cases)
    with i have "32 \<le> n - 32 * i" by linarith
    with True show ?thesis by (simp add: min_def)
  next
    case False
    then have "(n + 31) div 32 = Suc (n div 32)" by (simp add: div32_cases)
    with i False mult_div_mod_eq [of 32 n] show ?thesis by (auto simp: min_def minus_mult_div_eq_mod)
  qed
  then show ?thesis using assms by (simp add: nth_chunks32 length_chunks32 n_def)
qed

lemma read_chunks:
  assumes n: "length bs < 2 ^ 64"
    and len: "committee_snapshot_vrf_group_public_key_len st key = word_of_nat (length bs)"
    and at: "\<And>i. i < length (chunks32 bs) \<Longrightarrow>
      committee_snapshot_vrf_group_public_key_chunk_at st key (word_of_nat i) = pad32 (chunks32 bs ! i)"
  shows "read_group_key key st = bs"
proof (cases "bs = []")
  case True
  then show ?thesis by (simp add: read_group_key_def len)
next
  case False
  define m where "m = length (chunks32 bs)"
  have m: "m < 2 ^ 64" "m = (length bs + 31) div 32"
    using n by (simp_all add: m_def length_chunks32)
  have pos: "0 < (word_of_nat (length bs) :: u64)"
    using n False by (simp add: word_less_nat_alt)
  have num: "div_ceil (word_of_nat (length bs)) 32 = word_of_nat m"
    using div_ceil_32 [OF n] m by simp
  have last: "unat ((word_of_nat (length bs) :: u64) mod 32) = length bs mod 32"
    using n by (simp add: unat_mod)
  have last_i: "(word_of_nat i :: u64) + 1 = word_of_nat m \<longleftrightarrow> Suc i = m" if "i < m" for i
    using m(1) that word_of_nat_u64_eq [of "Suc i" m] by (simp add: ac_simps)
  have "map (\<lambda>i. take (if i + 1 = word_of_nat m
            then if length bs mod 32 = 0 then 32 else length bs mod 32 else 32)
          (committee_snapshot_vrf_group_public_key_chunk_at st key i))
        (range_u64 (word_of_nat (length (chunks32 bs)))) = chunks32 bs"
    (is "map ?f _ = _")
  proof (rule map_range_u64)
    show "length (chunks32 bs) < 2 ^ 64" using m(1) by (simp add: m_def)
    fix i assume i: "i < length (chunks32 bs)"
    then show "?f (word_of_nat i) = chunks32 bs ! i"
      using length_nth_chunks32 [OF i] at [OF i] last_i [of i]
      by (auto simp: m_def pad32_def)
  qed
  then show ?thesis
    using pos unfolding read_group_key_def len Let_def num last m_def
    by (simp only: if_True concat_chunks32)
qed

lemma read_store_entries:
  assumes "wf_snapshot s"
  shows "map (read_entry key (store_snapshot c key s st))
      (range_u64 (committee_snapshot_len (store_snapshot c key s st) key)) = committee s"
proof -
  have e: "read_entry key (store_snapshot c key s st) = read_entry key (write_entries key (committee s) st)"
    by (intro ext) (simp add: store_snapshot_def write_vrf_material_def Let_def read_entry_def
        chunk_frame)
  have len: "committee_snapshot_len (store_snapshot c key s st) key = word_of_nat (length (committee s))"
    by (simp add: store_snapshot_def write_vrf_material_def write_entries_def Let_def chunk_frame write_loop_frame)
  have "read_entry key (write_entries key (committee s) st) (word_of_nat i) = committee s ! i"
    if "i < length (committee s)" for i
    using that assms read_write_loop [of "committee s" 0 key]
    by (simp add: write_entries_def wf_snapshot_def)
  then show ?thesis using assms unfolding e len by (intro map_range_u64) (auto simp: wf_snapshot_def)
qed

lemma read_store_group_key:
  assumes "wf_snapshot s"
  shows "read_group_key key (store_snapshot c key s st) = vrf_group_public_key_bytes s"
proof (rule read_chunks)
  show n: "length (vrf_group_public_key_bytes s) < 2 ^ 64" using assms by (simp add: wf_snapshot_def)
  show "committee_snapshot_vrf_group_public_key_len (store_snapshot c key s st) key
      = word_of_nat (length (vrf_group_public_key_bytes s))"
    by (simp add: store_snapshot_def write_vrf_material_def Let_def chunk_frame)
  fix i assume i: "i < length (chunks32 (vrf_group_public_key_bytes s))"
  moreover have "length (chunks32 (vrf_group_public_key_bytes s)) < 2 ^ 64"
    using n by (simp add: length_chunks32)
  ultimately show "committee_snapshot_vrf_group_public_key_chunk_at (store_snapshot c key s st) key (word_of_nat i)
      = pad32 (chunks32 (vrf_group_public_key_bytes s) ! i)"
    using chunk_loop [of 0 "chunks32 (vrf_group_public_key_bytes s)" key]
    by (simp add: store_snapshot_def write_vrf_material_def Let_def)
qed

lemma read_store:
  assumes "wf_snapshot s"
  shows "read_committee_snapshot key (store_snapshot c key s st) = Some s"
proof -
  have "committee_snapshot_exists (store_snapshot c key s st) key"
    "committee_snapshot_vrf_material_version (store_snapshot c key s st) key = vrf_material_version s"
    "committee_snapshot_vrf_public_polynomial_hash (store_snapshot c key s st) key = vrf_public_polynomial_hash s"
    by (simp_all add: store_snapshot_def write_vrf_material_def Let_def chunk_frame)
  then show ?thesis
    using read_store_entries [OF assms] read_store_group_key [OF assms]
    by (simp add: read_committee_snapshot_def)
qed

section \<open>The prune ring refines a map with one cell per epoch residue\<close>

text \<open>
  The abstract store: what an epoch lookup returns, per ring slot. The invariant: every stored
  snapshot is reachable through a slot of the ring, so at most eight are stored.
\<close>

definition slot_map :: "snapshot_store \<Rightarrow> u64 \<Rightarrow> committee_snapshot option" where
  "slot_map st i =
     (let key = committee_snapshot_key_ring st i
      in if key = B256_ZERO then None else read_committee_snapshot key st)"

definition ring_slots :: "u64 set" where
  "ring_slots = {i. i < COMMITTEE_SNAPSHOT_RETAIN_EPOCHS}"

definition ring_inv :: "snapshot_store \<Rightarrow> bool" where
  "ring_inv st \<longleftrightarrow> \<not> committee_snapshot_exists st B256_ZERO \<and>
     (\<forall>k. committee_snapshot_exists st k \<longrightarrow> k \<in> committee_snapshot_key_ring st ` ring_slots) \<and>
     (\<forall>i\<in>ring_slots. \<forall>j\<in>ring_slots. i \<noteq> j \<longrightarrow>
        committee_snapshot_key_ring st i \<noteq> B256_ZERO \<longrightarrow>
        committee_snapshot_key_ring st i \<noteq> committee_snapshot_key_ring st j)"

lemma ring_invD:
  assumes "ring_inv st"
  shows "\<not> committee_snapshot_exists st B256_ZERO"
    and "committee_snapshot_exists st k \<Longrightarrow> \<exists>i\<in>ring_slots. committee_snapshot_key_ring st i = k"
    and "i \<in> ring_slots \<Longrightarrow> j \<in> ring_slots \<Longrightarrow> i \<noteq> j \<Longrightarrow>
      committee_snapshot_key_ring st i \<noteq> B256_ZERO \<Longrightarrow>
      committee_snapshot_key_ring st i \<noteq> committee_snapshot_key_ring st j"
  using assms unfolding ring_inv_def by blast+

lemma slot_in_ring [simp]: "e mod COMMITTEE_SNAPSHOT_RETAIN_EPOCHS \<in> ring_slots"
  by (simp add: ring_slots_def COMMITTEE_SNAPSHOT_RETAIN_EPOCHS_def word_mod_less_divisor)

lemma read_for_epoch_slot:
  "read_committee_snapshot_for_epoch e st = slot_map st (e mod COMMITTEE_SNAPSHOT_RETAIN_EPOCHS)"
  by (simp add: read_committee_snapshot_for_epoch_def slot_map_def)

lemma ring_slots_eq: "ring_slots = word_of_nat ` {..<8}"
proof -
  have "i < 8 \<Longrightarrow> \<exists>n<8. i = word_of_nat n" for i :: u64
    by (intro exI [of _ "unat i"]) (simp add: word_less_nat_alt)
  moreover have "n < 8 \<Longrightarrow> (word_of_nat n :: u64) < 8" for n
    by (simp add: word_less_nat_alt)
  ultimately show ?thesis by (auto simp: ring_slots_def COMMITTEE_SNAPSHOT_RETAIN_EPOCHS_def)
qed

lemma ring_inv_bound:
  assumes "ring_inv st"
  shows "finite {k. committee_snapshot_exists st k} \<and> card {k. committee_snapshot_exists st k} \<le> 8"
proof -
  have sub: "{k. committee_snapshot_exists st k} \<subseteq> committee_snapshot_key_ring st ` ring_slots"
    using assms by (auto simp: ring_inv_def)
  have fin: "finite ring_slots" and "card ring_slots \<le> 8"
    using card_image_le [of "{..<8::nat}" "word_of_nat :: nat \<Rightarrow> u64"] by (simp_all add: ring_slots_eq)
  then have "card (committee_snapshot_key_ring st ` ring_slots) \<le> 8"
    using card_image_le le_trans by blast
  with sub fin show ?thesis using card_mono finite_imageI finite_subset le_trans by metis
qed

text \<open>What writing and clearing do to the ring and to the \<open>exists\<close> flags.\<close>

lemma store_ring: "committee_snapshot_key_ring (store_snapshot c key s st) = committee_snapshot_key_ring st"
  by (simp add: store_snapshot_def write_vrf_material_def write_entries_def Let_def chunk_frame write_loop_frame)

lemma clear_ring: "committee_snapshot_key_ring (clear_committee_snapshot key st) = committee_snapshot_key_ring st"
proof -
  have "committee_snapshot_key_ring (fold (clear_entry key) xs a) = committee_snapshot_key_ring a"
    "committee_snapshot_key_ring (fold (clear_chunk key) xs a) = committee_snapshot_key_ring a" for xs a
    by (induction xs arbitrary: a) (simp_all add: clear_entry_def clear_chunk_def)
  then show ?thesis
    by (simp add: clear_committee_snapshot_def clear_entries_def clear_vrf_material_def Let_def)
qed

lemma store_exists: "committee_snapshot_exists (store_snapshot c key s st) k \<longleftrightarrow> k = key \<or> committee_snapshot_exists st k"
  using agree_store [of k key st c s] by (cases "k = key") (auto simp: agree_def store_snapshot_def Let_def)

lemma clear_exists_iff:
  "committee_snapshot_exists (clear_committee_snapshot key st) k \<longleftrightarrow> k \<noteq> key \<and> committee_snapshot_exists st k"
  using agree_clear [of k key st] clear_exists [of key st] by (cases "k = key") (auto simp: agree_def)

text \<open>The key a slot held before is cleared; the new key is readable; all others are untouched.\<close>

lemma push_ring_slots:
  "committee_snapshot_key_ring (push_ring e key st) =
     (committee_snapshot_key_ring st)(e mod COMMITTEE_SNAPSHOT_RETAIN_EPOCHS := key)"
  by (simp add: push_ring_def Let_def clear_ring)

lemma read_ring_upd:
  "read_committee_snapshot k (st\<lparr>committee_snapshot_key_ring := r\<rparr>) = read_committee_snapshot k st"
  by (rule agree_read) (simp add: agree_def)

lemma push_ring_read:
  assumes "k = key \<or> k \<noteq> committee_snapshot_key_ring st (e mod COMMITTEE_SNAPSHOT_RETAIN_EPOCHS)"
  shows "read_committee_snapshot k (push_ring e key st) = read_committee_snapshot k st"
  using assms agree_read [OF agree_clear]
  by (auto simp: push_ring_def Let_def read_ring_upd)

lemma push_ring_evicts:
  assumes "ev = committee_snapshot_key_ring st (e mod COMMITTEE_SNAPSHOT_RETAIN_EPOCHS)"
    and "ev \<noteq> B256_ZERO" and "ev \<noteq> key"
  shows "read_committee_snapshot ev (push_ring e key st) = None"
  using assms(2,3) unfolding assms(1) by (simp add: push_ring_def Let_def read_ring_upd read_cleared)

lemma push_ring_exists:
  "committee_snapshot_exists (push_ring e key st) k \<longleftrightarrow> committee_snapshot_exists st k \<and>
     (k \<noteq> committee_snapshot_key_ring st (e mod COMMITTEE_SNAPSHOT_RETAIN_EPOCHS) \<or> k = B256_ZERO \<or> k = key)"
  by (auto simp: push_ring_def Let_def clear_exists_iff)

text \<open>A key that is neither zero nor the key of another slot: what a collision-free hash gives.\<close>

definition fresh_key :: "crypto \<Rightarrow> u64 \<Rightarrow> committee_snapshot \<Rightarrow> snapshot_store \<Rightarrow> bool" where
  "fresh_key c e s st \<longleftrightarrow>
     (let key = snd (snapshot_identity c e s)
      in key \<noteq> B256_ZERO \<and> (\<forall>i\<in>ring_slots. i \<noteq> e mod COMMITTEE_SNAPSHOT_RETAIN_EPOCHS \<longrightarrow>
           committee_snapshot_key_ring st i \<noteq> key))"

lemma write_result:
  assumes "wf_snapshot s"
  shows "write_committee_snapshot c e s st =
    Inr (snapshot_identity c e s,
      push_ring e (snd (snapshot_identity c e s)) (store_snapshot c (snd (snapshot_identity c e s)) s st))"
  using assms by (simp add: write_committee_snapshot_def snapshot_identity_def wf_snapshot_def Let_def)

lemma push_store_inv:
  assumes "ring_inv st" and "key \<noteq> B256_ZERO"
    and "\<forall>i\<in>ring_slots. i \<noteq> e mod COMMITTEE_SNAPSHOT_RETAIN_EPOCHS \<longrightarrow> committee_snapshot_key_ring st i \<noteq> key"
  shows "ring_inv (push_ring e key (store_snapshot c key s st))"
proof -
  let ?i = "e mod COMMITTEE_SNAPSHOT_RETAIN_EPOCHS" and ?st = "push_ring e key (store_snapshot c key s st)"
  have ex: "committee_snapshot_exists ?st k \<longleftrightarrow>
      (k = key \<or> committee_snapshot_exists st k) \<and> (k \<noteq> committee_snapshot_key_ring st ?i \<or> k = B256_ZERO \<or> k = key)" for k
    by (simp add: push_ring_exists store_exists store_ring)
  have img: "k \<in> committee_snapshot_key_ring ?st ` ring_slots" if "committee_snapshot_exists ?st k" for k
  proof (cases "k = key")
    case True
    then show ?thesis by (simp add: push_ring_slots image_iff)
  next
    case False
    with that have old: "committee_snapshot_exists st k"
      and ne: "k \<noteq> committee_snapshot_key_ring st ?i \<or> k = B256_ZERO" unfolding ex by auto
    from old ring_invD(1) [OF assms(1)] ne have "k \<noteq> committee_snapshot_key_ring st ?i" by auto
    moreover obtain i where "i \<in> ring_slots" "committee_snapshot_key_ring st i = k"
      using ring_invD(2) [OF assms(1) old] by auto
    ultimately show ?thesis
      unfolding push_ring_slots store_ring by (intro image_eqI [of _ _ i]) auto
  qed
  have "\<not> committee_snapshot_exists ?st B256_ZERO"
    using ring_invD(1) [OF assms(1)] assms(2) unfolding ex by simp
  moreover have "committee_snapshot_key_ring ?st i \<noteq> committee_snapshot_key_ring ?st j"
    if "i \<in> ring_slots" "j \<in> ring_slots" "i \<noteq> j" "committee_snapshot_key_ring ?st i \<noteq> B256_ZERO" for i j
    using that ring_invD(3) [OF assms(1), of i j] assms(3)
    unfolding push_ring_slots store_ring by (auto simp only: fun_upd_apply split: if_splits)
  ultimately show ?thesis using img unfolding ring_inv_def by blast
qed

lemma push_store_slot_map:
  assumes inv: "ring_inv st" and nz: "key \<noteq> B256_ZERO" and wf: "wf_snapshot s"
    and fresh: "\<forall>i\<in>ring_slots. i \<noteq> e mod COMMITTEE_SNAPSHOT_RETAIN_EPOCHS \<longrightarrow> committee_snapshot_key_ring st i \<noteq> key"
    and j: "j \<in> ring_slots"
  shows "slot_map (push_ring e key (store_snapshot c key s st)) j =
    (if j = e mod COMMITTEE_SNAPSHOT_RETAIN_EPOCHS then Some s else slot_map st j)"
proof (cases "j = e mod COMMITTEE_SNAPSHOT_RETAIN_EPOCHS")
  case True
  then show ?thesis
    using nz read_store [OF wf] by (simp add: slot_map_def push_ring_slots push_ring_read)
next
  case False
  define k where "k = committee_snapshot_key_ring st j"
  have "k \<noteq> key" using fresh j False by (simp add: k_def)
  moreover have "k \<noteq> B256_ZERO \<Longrightarrow> k \<noteq> committee_snapshot_key_ring st (e mod COMMITTEE_SNAPSHOT_RETAIN_EPOCHS)"
    using ring_invD(3) [OF inv j slot_in_ring False] by (simp add: k_def)
  ultimately have "k \<noteq> B256_ZERO \<Longrightarrow>
      read_committee_snapshot k (push_ring e key (store_snapshot c key s st)) = read_committee_snapshot k st"
    using agree_read [OF agree_store] by (simp add: push_ring_read store_ring)
  with False show ?thesis by (simp add: slot_map_def push_ring_slots store_ring k_def [symmetric])
qed

text \<open>
  C12. Writing a committee snapshot implements the update of one cell: afterwards a lookup by
  epoch returns the snapshot for the epochs of the written residue class and what it returned
  before for all others; the invariant of the ring is kept, the evicted snapshot is gone, and
  no more than eight snapshots are stored.
\<close>

theorem write_committee_snapshot_refines:
  assumes "ring_inv st" and "wf_snapshot s" and "fresh_key c e s st"
  shows "\<exists>st'. write_committee_snapshot c e s st = Inr (snapshot_identity c e s, st') \<and> ring_inv st' \<and>
    (\<forall>e'. read_committee_snapshot_for_epoch e' st' =
       (if e' mod COMMITTEE_SNAPSHOT_RETAIN_EPOCHS = e mod COMMITTEE_SNAPSHOT_RETAIN_EPOCHS then Some s
        else read_committee_snapshot_for_epoch e' st)) \<and>
    read_committee_snapshot (snd (snapshot_identity c e s)) st' = Some s \<and>
    (let evicted = committee_snapshot_key_ring st (e mod COMMITTEE_SNAPSHOT_RETAIN_EPOCHS)
     in evicted \<noteq> B256_ZERO \<and> evicted \<noteq> snd (snapshot_identity c e s) \<longrightarrow>
       read_committee_snapshot evicted st' = None) \<and>
    card {k. committee_snapshot_exists st' k} \<le> 8"
proof -
  let ?key = "snd (snapshot_identity c e s)"
  let ?st = "push_ring e ?key (store_snapshot c ?key s st)"
  have key: "?key \<noteq> B256_ZERO" "\<forall>i\<in>ring_slots. i \<noteq> e mod COMMITTEE_SNAPSHOT_RETAIN_EPOCHS \<longrightarrow>
      committee_snapshot_key_ring st i \<noteq> ?key"
    using assms(3) by (simp_all add: fresh_key_def Let_def)
  have inv: "ring_inv ?st" by (rule push_store_inv [OF assms(1) key])
  have "read_committee_snapshot_for_epoch e' ?st =
      (if e' mod COMMITTEE_SNAPSHOT_RETAIN_EPOCHS = e mod COMMITTEE_SNAPSHOT_RETAIN_EPOCHS then Some s
       else read_committee_snapshot_for_epoch e' st)" for e'
    unfolding read_for_epoch_slot
    by (rule push_store_slot_map [OF assms(1) key(1) assms(2) key(2) slot_in_ring])
  moreover have "read_committee_snapshot ?key ?st = Some s"
    using push_ring_read [of ?key ?key "store_snapshot c ?key s st" e] read_store [OF assms(2)] by metis
  moreover have "let evicted = committee_snapshot_key_ring st (e mod COMMITTEE_SNAPSHOT_RETAIN_EPOCHS)
     in evicted \<noteq> B256_ZERO \<and> evicted \<noteq> ?key \<longrightarrow> read_committee_snapshot evicted ?st = None"
    unfolding Let_def by (intro impI push_ring_evicts) (auto simp only: store_ring)
  ultimately show ?thesis
    using write_result [OF assms(2)] inv ring_inv_bound [OF inv] by blast
qed

text \<open>A fresh store and a snapshot of one member, for the witnesses.\<close>

definition empty_store :: snapshot_store where
  "empty_store = \<lparr>committee_snapshot_exists = (\<lambda>_. False), committee_snapshot_len = (\<lambda>_. 0),
     committee_snapshot_address_at = (\<lambda>_ _. 0), committee_snapshot_pubkey_lo_at = (\<lambda>_ _. B256_ZERO),
     committee_snapshot_pubkey_hi_at = (\<lambda>_ _. B256_ZERO),
     committee_snapshot_vrf_material_version = (\<lambda>_. 0),
     committee_snapshot_vrf_group_public_key_hash = (\<lambda>_. B256_ZERO),
     committee_snapshot_vrf_group_public_key_len = (\<lambda>_. 0),
     committee_snapshot_vrf_group_public_key_chunk_at = (\<lambda>_ _. B256_ZERO),
     committee_snapshot_vrf_public_polynomial_hash = (\<lambda>_. B256_ZERO),
     committee_snapshot_key_ring = (\<lambda>_. B256_ZERO)\<rparr>"

definition demo_snapshot :: committee_snapshot where
  "demo_snapshot = \<lparr>committee = [\<lparr>entry_address = 5, entry_pubkey = replicate 48 7\<rparr>],
     vrf_material_version = 1, vrf_group_public_key_bytes = [1, 2, 3],
     vrf_public_polynomial_hash = B256_ZERO\<rparr>"

lemma empty_store_inv: "ring_inv empty_store"
  by (simp add: ring_inv_def empty_store_def)

lemma demo_snapshot_wf: "wf_snapshot demo_snapshot"
  by (simp add: wf_snapshot_def demo_snapshot_def)

lemma test_key: "snd (snapshot_identity test_crypto e s) =
    OUTBE_COMMITTEE_SNAPSHOT_KEY_V2_DOMAIN @ to_be_bytes 8 e @ committee_set_hash_v2 test_crypto e s"
  by (simp add: snapshot_identity_def committee_snapshot_key_def test_crypto_def Let_def)

lemma test_key_nonzero: "snd (snapshot_identity test_crypto e s) \<noteq> B256_ZERO"
proof -
  have "hd (snd (snapshot_identity test_crypto e s)) = 79"
    unfolding test_key by (simp add: OUTBE_COMMITTEE_SNAPSHOT_KEY_V2_DOMAIN_def ascii_def)
  moreover have "hd B256_ZERO = 0" by (simp add: B256_ZERO_def hd_replicate)
  ultimately show ?thesis by auto
qed

lemma test_key_inj:
  "snd (snapshot_identity test_crypto e s) = snd (snapshot_identity test_crypto e' s') \<Longrightarrow> e = e'"
  unfolding test_key by (simp add: to_be_bytes_eq)

lemma empty_store_fresh: "fresh_key test_crypto e s empty_store"
  using test_key_nonzero [of e s] by (auto simp: fresh_key_def Let_def empty_store_def)

theorem committee_preimage_injective_witness:
  "committee_preimage 3 demo_snapshot \<noteq> committee_preimage 4 demo_snapshot"
  using committee_preimage_injective [OF demo_snapshot_wf demo_snapshot_wf, of 3 4] by auto

theorem write_committee_snapshot_refines_witness:
  "\<exists>st'. write_committee_snapshot test_crypto 3 demo_snapshot empty_store
       = Inr (snapshot_identity test_crypto 3 demo_snapshot, st') \<and>
     read_committee_snapshot_for_epoch 3 st' = Some demo_snapshot \<and>
     read_committee_snapshot_for_epoch 4 st' = None"
proof -
  have "read_committee_snapshot_for_epoch 4 empty_store = None"
    by (simp add: read_committee_snapshot_for_epoch_def empty_store_def)
  moreover have "(4 :: u64) mod COMMITTEE_SNAPSHOT_RETAIN_EPOCHS \<noteq> 3 mod COMMITTEE_SNAPSHOT_RETAIN_EPOCHS"
    by (simp add: COMMITTEE_SNAPSHOT_RETAIN_EPOCHS_def)
  ultimately show ?thesis
    using write_committee_snapshot_refines
      [OF empty_store_inv demo_snapshot_wf empty_store_fresh, of 3] by metis
qed

section \<open>Boundary activation\<close>

lemma write_keeps:
  assumes "ring_inv st" and "wf_snapshot s" and "fresh_key c e s st"
  obtains st' where "write_committee_snapshot c e s st = Inr (snapshot_identity c e s, st')"
    and "ring_inv st'"
    and "\<And>e'. read_committee_snapshot_for_epoch e' st' =
       (if e' mod COMMITTEE_SNAPSHOT_RETAIN_EPOCHS = e mod COMMITTEE_SNAPSHOT_RETAIN_EPOCHS then Some s
        else read_committee_snapshot_for_epoch e' st)"
    and "committee_snapshot_key_ring st' = (committee_snapshot_key_ring st)
       (e mod COMMITTEE_SNAPSHOT_RETAIN_EPOCHS := snd (snapshot_identity c e s))"
proof -
  let ?key = "snd (snapshot_identity c e s)"
  have key: "?key \<noteq> B256_ZERO" "\<forall>i\<in>ring_slots. i \<noteq> e mod COMMITTEE_SNAPSHOT_RETAIN_EPOCHS \<longrightarrow>
      committee_snapshot_key_ring st i \<noteq> ?key"
    using assms(3) by (simp_all add: fresh_key_def Let_def)
  show ?thesis
  proof (rule that)
    show "write_committee_snapshot c e s st = Inr (snapshot_identity c e s,
        push_ring e ?key (store_snapshot c ?key s st))" by (rule write_result [OF assms(2)])
    show "ring_inv (push_ring e ?key (store_snapshot c ?key s st))"
      by (rule push_store_inv [OF assms(1) key])
    show "committee_snapshot_key_ring (push_ring e ?key (store_snapshot c ?key s st)) =
        (committee_snapshot_key_ring st)(e mod COMMITTEE_SNAPSHOT_RETAIN_EPOCHS := ?key)"
      by (simp only: push_ring_slots store_ring)
  qed (unfold read_for_epoch_slot, rule push_store_slot_map [OF assms(1) key(1) assms(2) key(2) slot_in_ring])
qed

text \<open>
  C24. The boundary activation, when the outgoing and the incoming epoch fall into different
  slots of the ring and their keys are fresh: it succeeds exactly when the reshared set is
  accepted; then the validator set is the reshared one, both snapshots are readable by their
  epoch and by the returned keys, and the ring invariant holds. A rejected set leaves nothing
  behind: the result carries no state.
\<close>

theorem activate_boundary_atomic_correct:
  assumes inv: "ring_inv st" and out: "outgoing inp = Some (e, s)"
    and wf: "wf_snapshot s" "wf_snapshot (incoming inp)"
    and fresh: "fresh_key c e s st" "fresh_key c (incoming_epoch inp) (incoming inp) st"
    and slots: "e mod COMMITTEE_SNAPSHOT_RETAIN_EPOCHS \<noteq> incoming_epoch inp mod COMMITTEE_SNAPSHOT_RETAIN_EPOCHS"
    and keys: "snd (snapshot_identity c e s) \<noteq> snd (snapshot_identity c (incoming_epoch inp) (incoming inp))"
  shows "case activate_reshared_set (new_active_set inp) (active_set_hash inp) vs of
      Inl err \<Rightarrow> activate_boundary_atomic c inp (vs, st) = Inl err
    | Inr vs' \<Rightarrow> \<exists>st'. activate_boundary_atomic c inp (vs, st) =
          Inr ((snd (snapshot_identity c e s), snd (snapshot_identity c (incoming_epoch inp) (incoming inp))), vs', st') \<and>
        ring_inv st' \<and>
        read_committee_snapshot_for_epoch e st' = Some s \<and>
        read_committee_snapshot_for_epoch (incoming_epoch inp) st' = Some (incoming inp)"
proof -
  let ?k = "snd (snapshot_identity c e s)"
  obtain st1 where w1: "write_committee_snapshot c e s st = Inr (snapshot_identity c e s, st1)"
    and inv1: "ring_inv st1"
    and read1: "\<And>e'. read_committee_snapshot_for_epoch e' st1 =
       (if e' mod COMMITTEE_SNAPSHOT_RETAIN_EPOCHS = e mod COMMITTEE_SNAPSHOT_RETAIN_EPOCHS then Some s
        else read_committee_snapshot_for_epoch e' st)"
    and ring1: "committee_snapshot_key_ring st1 =
       (committee_snapshot_key_ring st)(e mod COMMITTEE_SNAPSHOT_RETAIN_EPOCHS := ?k)"
    by (rule write_keeps [OF inv wf(1) fresh(1)]) blast
  have "fresh_key c (incoming_epoch inp) (incoming inp) st1"
    using fresh(2) keys unfolding fresh_key_def Let_def ring1 by auto
  then obtain st2 where
    w2: "write_committee_snapshot c (incoming_epoch inp) (incoming inp) st1 =
        Inr (snapshot_identity c (incoming_epoch inp) (incoming inp), st2)"
    and inv2: "ring_inv st2"
    and read2: "\<And>e'. read_committee_snapshot_for_epoch e' st2 =
       (if e' mod COMMITTEE_SNAPSHOT_RETAIN_EPOCHS = incoming_epoch inp mod COMMITTEE_SNAPSHOT_RETAIN_EPOCHS
        then Some (incoming inp) else read_committee_snapshot_for_epoch e' st1)"
    using write_keeps [OF inv1 wf(2)] by blast
  have "activate_boundary_atomic c inp (vs, st) =
      and_then (activate_reshared_set (new_active_set inp) (active_set_hash inp) vs) (\<lambda>vs'.
        Inr ((?k, snd (snapshot_identity c (incoming_epoch inp) (incoming inp))), vs', st2))"
    by (simp add: activate_boundary_atomic_def out w1 w2 split_beta)
  then show ?thesis using inv2 read1 read2 slots by (auto split: sum.split)
qed

theorem activate_boundary_atomic_correct_witness:
  "\<exists>vs' st'. activate_boundary_atomic test_crypto
       \<lparr>outgoing = Some (3, demo_snapshot), incoming_epoch = 4, incoming = demo_snapshot,
        new_active_set = [5], active_set_hash = B256_ZERO\<rparr> (one_validator, empty_store) =
       Inr ((snd (snapshot_identity test_crypto 3 demo_snapshot),
             snd (snapshot_identity test_crypto 4 demo_snapshot)), vs', st') \<and>
     read_committee_snapshot_for_epoch 3 st' = Some demo_snapshot \<and>
     read_committee_snapshot_for_epoch 4 st' = Some demo_snapshot"
proof -
  have "reshare_eligible one_validator 5"
    using one_validator_inv(3)
    by (auto simp: reshare_eligible_def registered_def one_validator_def register_new_def Let_def
        emit_def)
  then obtain vs' where vs': "activate_reshared_set [5] B256_ZERO one_validator = Inr vs'"
    using reshare_succeeds_iff [of "[5]" B256_ZERO one_validator] by auto
  have slots: "(3 :: u64) mod COMMITTEE_SNAPSHOT_RETAIN_EPOCHS \<noteq> 4 mod COMMITTEE_SNAPSHOT_RETAIN_EPOCHS"
    by (simp add: COMMITTEE_SNAPSHOT_RETAIN_EPOCHS_def)
  have keys: "snd (snapshot_identity test_crypto 3 demo_snapshot)
      \<noteq> snd (snapshot_identity test_crypto 4 demo_snapshot)"
    using test_key_inj [of 3 demo_snapshot 4 demo_snapshot] by auto
  show ?thesis
    using activate_boundary_atomic_correct [OF empty_store_inv, of
        "\<lparr>outgoing = Some (3, demo_snapshot), incoming_epoch = 4, incoming = demo_snapshot,
          new_active_set = [5], active_set_hash = B256_ZERO\<rparr>" 3 demo_snapshot test_crypto one_validator]
      demo_snapshot_wf empty_store_fresh slots keys by (auto simp: vs')
qed

section \<open>Quorums\<close>

text \<open>
  What the consensus engine relies on, as in a Byzantine quorum system: any two quorums of a
  committee share a member outside any coalition of less than a third, and the members outside
  such a coalition form a quorum.
\<close>

locale byzantine_quorum =
  fixes quorum :: "nat \<Rightarrow> nat"
  assumes overlap: "3 * f < n \<Longrightarrow> n + f < 2 * quorum n"
    and available: "3 * f < n \<Longrightarrow> quorum n + f \<le> n"
begin

lemma honest_overlap:
  assumes "finite P" and "Q \<subseteq> P" "Q' \<subseteq> P" "quorum (card P) \<le> card Q" "quorum (card P) \<le> card Q'"
    and "F \<subseteq> P" "3 * card F < card P"
  shows "Q \<inter> Q' - F \<noteq> {}"
proof
  assume "Q \<inter> Q' - F = {}"
  moreover have fin: "finite Q" "finite Q'" "finite F" using assms finite_subset by blast+
  ultimately have "card (Q \<inter> Q') \<le> card F" by (intro card_mono) auto
  moreover have "card (Q \<union> Q') \<le> card P" using assms by (intro card_mono) auto
  moreover have "card Q + card Q' = card (Q \<union> Q') + card (Q \<inter> Q')" by (rule card_Un_Int [OF fin(1,2)])
  ultimately show False using overlap [OF assms(7)] assms(4,5) by linarith
qed

lemma honest_quorum:
  assumes "finite P" and "F \<subseteq> P" and "3 * card F < card P"
  shows "quorum (card P) \<le> card (P - F)"
  using available [OF assms(3)] assms(1,2) by (simp add: card_Diff_subset finite_subset)

end

lemma quorum_eq:
  assumes "0 < n" shows "simplex_n3f1_quorum n = n - (n - 1) div 3"
proof -
  define p s where "p = (n - 1) div 3" and "s = (n - 1) mod 3"
  have n: "n = 3 * p + s + 1" and "s < 3"
    using assms mult_div_mod_eq [of 3 "n - 1"] by (simp_all add: p_def s_def)
  then have "(2 * n) div 3 = (2 * s + 2) div 3 + 2 * p" by simp
  moreover have "s = 0 \<or> s = 1 \<or> s = 2" using \<open>s < 3\<close> by linarith
  ultimately show ?thesis using n by (auto simp: simplex_n3f1_quorum_def p_def [symmetric])
qed

interpretation simplex: byzantine_quorum simplex_n3f1_quorum
proof
  fix f n :: nat assume "3 * f < n"
  moreover from this have "3 * ((n - 1) div 3) \<le> n - 1" "f \<le> (n - 1) div 3"
    by (simp_all add: less_eq_div_iff_mult_less_eq)
  ultimately show "n + f < 2 * simplex_n3f1_quorum n" "simplex_n3f1_quorum n + f \<le> n"
    using quorum_eq [of n] by linarith+
qed

text \<open>
  C26. The quorum of the certificate verifier, over a committee P: two quorums always share a
  member outside any set F of fewer than a third of the members, the members outside F are
  themselves a quorum, and the size is the n - f of simplex with f = (n - 1) div 3.
\<close>

theorem simplex_n3f1_quorum_correct:
  assumes "finite P" and "F \<subseteq> P" and "3 * card F < card P"
  shows "(\<forall>Q Q'. Q \<subseteq> P \<longrightarrow> Q' \<subseteq> P \<longrightarrow> simplex_n3f1_quorum (card P) \<le> card Q \<longrightarrow>
      simplex_n3f1_quorum (card P) \<le> card Q' \<longrightarrow> Q \<inter> Q' - F \<noteq> {}) \<and>
    simplex_n3f1_quorum (card P) \<le> card (P - F) \<and>
    simplex_n3f1_quorum (card P) = card P - (card P - 1) div 3"
proof -
  have "simplex_n3f1_quorum (card P) = card P - (card P - 1) div 3"
    using assms(3) by (intro quorum_eq) simp
  then show ?thesis
    using simplex.honest_overlap [OF assms(1) _ _ _ _ assms(2,3)] simplex.honest_quorum [OF assms]
    by blast
qed

theorem simplex_n3f1_quorum_correct_witness:
  "simplex_n3f1_quorum 4 = 3 \<and> {0, 1, 2} \<inter> {1, 2, 3} - {1 :: nat} \<noteq> {}"
proof -
  have fault: "{1} \<subseteq> {..<4 :: nat}" "3 * card {1 :: nat} < card {..<4 :: nat}" by simp_all
  note claim = simplex_n3f1_quorum_correct [OF finite_lessThan fault]
  from conjunct2 [OF conjunct2 [OF claim]] have "simplex_n3f1_quorum 4 = 3"
    by (simp only: card_lessThan)
  moreover have "{0, 1, 2} \<subseteq> {..<4 :: nat}" "{1, 2, 3} \<subseteq> {..<4 :: nat}"
    "card {0, 1, 2 :: nat} = 3" "card {1, 2, 3 :: nat} = 3" by simp_all
  ultimately show ?thesis using conjunct1 [OF claim] by (metis card_lessThan order_refl)
qed

section \<open>Signer bitmaps\<close>

lemma set_byte_bits: "set (byte_bits (k, b)) = {i. i div 8 = k \<and> bit b (i mod 8)}"
  by (auto simp: byte_bits_def image_iff) (metis div_mult_mod_eq mod_less_divisor zero_less_numeral)

lemma byte_bits_sorted: "sorted_wrt (<) (byte_bits (k, b))"
  by (simp add: byte_bits_def sorted_wrt_map sorted_wrt_filter)

lemma signer_indices_from:
  "set (concat (map byte_bits (enumerate k bs))) =
     {i. k \<le> i div 8 \<and> i div 8 < k + length bs \<and> bit (bs ! (i div 8 - k)) (i mod 8)} \<and>
   sorted_wrt (<) (concat (map byte_bits (enumerate k bs)))"
proof (induction bs arbitrary: k)
  case (Cons b bs)
  have "set (byte_bits (k, b)) \<union> {i. Suc k \<le> i div 8 \<and> i div 8 < Suc k + length bs \<and> bit (bs ! (i div 8 - Suc k)) (i mod 8)}
      = {i. k \<le> i div 8 \<and> i div 8 < k + length (b # bs) \<and> bit ((b # bs) ! (i div 8 - k)) (i mod 8)}"
    by (auto simp: set_byte_bits nth_Cons' le_less Suc_le_eq)
  moreover have "i < j" if "i \<in> set (byte_bits (k, b))" "Suc k \<le> j div 8" for i j
    using that by (auto simp: set_byte_bits)
  ultimately show ?case using Cons [of "Suc k"] byte_bits_sorted [of k b]
    by (simp add: sorted_wrt_append)
qed auto

lemma set_signer_indices:
  "set (signer_indices bm) = {i. i div 8 < length bm \<and> bit (bm ! (i div 8)) (i mod 8)}"
  using signer_indices_from [of 0 bm] by (simp add: signer_indices_def)

lemma signer_indices_sorted: "sorted_wrt (<) (signer_indices bm)"
  using signer_indices_from [of 0 bm] by (simp add: signer_indices_def)

lemma check_indices_iff: "check_indices n xs = Inr () \<longleftrightarrow> (\<forall>i\<in>set xs. i < n)"
  by (induction xs) auto

text \<open>
  C27. A late-finalize proof is accepted exactly when it names the hash of this committee for
  its epoch, all committee keys and the signature decode, the bitmap has one bit per member
  with at least one set and none beyond the committee, and the aggregate over the keys of the
  set bits verifies. The result is the strictly increasing list of the set bits: every index
  is a member and no member is counted twice.
\<close>

theorem verify_late_finalize_proof_iff:
  "verify_late_finalize_proof c b chain_id s credit = Inr idxs \<longleftrightarrow>
     committee_set_hash_v2 c (credit_epoch credit) s = credit_committee_set_hash credit \<and>
     list_all (\<lambda>e. decode_pubkey_ok b (entry_pubkey e)) (committee s) \<and>
     length (credit_signer_bitmap credit) = (length (committee s) + 7) div 8 \<and>
     idxs \<noteq> [] \<and> set idxs \<subseteq> {..<length (committee s)} \<and> sorted_wrt (<) idxs \<and>
     set idxs = {i. i div 8 < length (credit_signer_bitmap credit) \<and>
       bit (credit_signer_bitmap credit ! (i div 8)) (i mod 8)} \<and>
     decode_signature_ok b (aggregate_signature credit) \<and>
     verify_same_message b (map (\<lambda>i. entry_pubkey (committee s ! i)) idxs)
       (finalize_namespace c chain_id (ordered_set b (map entry_pubkey (committee s))))
       (encode_proposal b (credit_proposal credit)) (aggregate_signature credit)"
  (is "?lhs \<longleftrightarrow> ?rhs")
proof -
  have idxs: "idxs = signer_indices (credit_signer_bitmap credit) \<longleftrightarrow> sorted_wrt (<) idxs \<and>
      set idxs = {i. i div 8 < length (credit_signer_bitmap credit) \<and>
        bit (credit_signer_bitmap credit ! (i div 8)) (i mod 8)}"
    using signer_indices_sorted set_signer_indices strict_sorted_equal by metis
  have "?lhs \<longleftrightarrow>
     committee_set_hash_v2 c (credit_epoch credit) s = credit_committee_set_hash credit \<and>
     list_all (\<lambda>e. decode_pubkey_ok b (entry_pubkey e)) (committee s) \<and>
     length (credit_signer_bitmap credit) = (length (committee s) + 7) div 8 \<and>
     check_indices (length (committee s)) idxs = Inr () \<and> idxs \<noteq> [] \<and>
     decode_signature_ok b (aggregate_signature credit) \<and>
     verify_same_message b (map (\<lambda>i. entry_pubkey (committee s ! i)) idxs)
       (finalize_namespace c chain_id (ordered_set b (map entry_pubkey (committee s))))
       (encode_proposal b (credit_proposal credit)) (aggregate_signature credit) \<and>
     idxs = signer_indices (credit_signer_bitmap credit)"
    by (auto simp: verify_late_finalize_proof_def Let_def and_then_eq_Inr)
  then show ?thesis unfolding idxs check_indices_iff by auto
qed

end
