(* ===== verification/Consensus_Metadata.thy ===== *)
theory Consensus_Metadata
  imports Byte_Codec
begin

text \<open>
  The certified-parent accounting metadata of a block's first system transaction
  (\<^verbatim>\<open>crates/blockchain/primitives/src/consensus_metadata.rs\<close>): record, wire encoder with its
  length checks, and the decoder with its error for every malformed input. The RLP wrapper
  is left to the RLP library.
\<close>

section \<open>Types\<close>

datatype parent_participation_proof = Finalization | CertifiedNotarization

record missed_proposer_event =
  missed_view :: u64
  missed_validator :: address

record certified_parent_metadata =
  finalized_block_number :: u64
  finalized_block_hash :: b256
  finalized_epoch :: u64
  finalized_view :: u64
  parent_view :: u64
  ordered_committee :: "address list"
  signer_bitmap :: bytes
  proof_bytes :: bytes
  metadata_committee_set_hash :: b256
  metadata_vrf_material_version :: u64
  vrf_group_public_key_hash :: b256
  proof_kind :: parent_participation_proof
  missed_proposers :: "missed_proposer_event list"

definition CERTIFIED_PARENT_ACCOUNTING_MAGIC :: bytes where
  "CERTIFIED_PARENT_ACCOUNTING_MAGIC = [79, 65, 86, 51]"

definition CERTIFIED_PARENT_ACCOUNTING_VERSION :: u8 where
  "CERTIFIED_PARENT_ACCOUNTING_VERSION = 1"

definition proof_tag :: "parent_participation_proof \<Rightarrow> u8" where
  "proof_tag k = (case k of Finalization \<Rightarrow> 0 | CertifiedNotarization \<Rightarrow> 1)"

definition from_tag :: "u8 \<Rightarrow> parent_participation_proof result" where
  "from_tag t =
     (if t = 0 then Inr Finalization
      else if t = 1 then Inr CertifiedNotarization
      else Inl (Fatal ''invalid ParentParticipationProof tag''))"

section \<open>Encoder\<close>

definition ensure_count_fits_u16 :: "nat \<Rightarrow> unit result" where
  "ensure_count_fits_u16 count =
     (if 65535 < count then Inl (Fatal ''list exceeds u16 count limit'') else Inr ())"

definition ensure_len_fits_u32 :: "nat \<Rightarrow> unit result" where
  "ensure_len_fits_u32 len =
     (if 4294967295 < len then Inl (Fatal ''exceeds u32 length limit'') else Inr ())"

definition encode_addresses :: "address list \<Rightarrow> bytes" where
  "encode_addresses addrs =
     to_be_bytes 2 (word_of_nat (length addrs) :: u16) @ concat (map (to_be_bytes 20) addrs)"

definition encode_bytes_u16 :: "bytes \<Rightarrow> bytes result" where
  "encode_bytes_u16 bs =
     and_then (ensure_count_fits_u16 (length bs)) (\<lambda>_.
       Inr (to_be_bytes 2 (word_of_nat (length bs) :: u16) @ bs))"

definition encode_bytes_u32 :: "bytes \<Rightarrow> bytes" where
  "encode_bytes_u32 bs = to_be_bytes 4 (word_of_nat (length bs) :: u32) @ bs"

definition encode_missed :: "missed_proposer_event \<Rightarrow> bytes" where
  "encode_missed ev = to_be_bytes 8 (missed_view ev) @ to_be_bytes 20 (missed_validator ev)"

definition encode_metadata :: "certified_parent_metadata \<Rightarrow> bytes result" where
  "encode_metadata md =
     and_then (ensure_count_fits_u16 (length (ordered_committee md))) (\<lambda>_.
     and_then (ensure_count_fits_u16 (length (signer_bitmap md))) (\<lambda>_.
     and_then (ensure_count_fits_u16 (length (missed_proposers md))) (\<lambda>_.
     and_then (ensure_len_fits_u32 (length (proof_bytes md))) (\<lambda>_.
     and_then (encode_bytes_u16 (signer_bitmap md)) (\<lambda>bitmap.
       Inr (CERTIFIED_PARENT_ACCOUNTING_MAGIC @ [CERTIFIED_PARENT_ACCOUNTING_VERSION] @
         to_be_bytes 8 (finalized_block_number md) @
         finalized_block_hash md @
         to_be_bytes 8 (finalized_epoch md) @
         to_be_bytes 8 (finalized_view md) @
         to_be_bytes 8 (parent_view md) @
         encode_addresses (ordered_committee md) @
         bitmap @
         encode_bytes_u32 (proof_bytes md) @
         metadata_committee_set_hash md @
         to_be_bytes 8 (metadata_vrf_material_version md) @
         vrf_group_public_key_hash md @
         [proof_tag (proof_kind md)] @
         to_be_bytes 2 (word_of_nat (length (missed_proposers md)) :: u16) @
         concat (map encode_missed (missed_proposers md))))))))"

section \<open>Decoder\<close>

definition read_u64 :: "bytes \<Rightarrow> (u64 \<times> bytes) result" where
  "read_u64 bs = read_be (Fatal ''unexpected EOF reading u64'') 8 bs"

definition read_b256 :: "bytes \<Rightarrow> (b256 \<times> bytes) result" where
  "read_b256 bs = read_exact (Fatal ''unexpected EOF reading B256'') 32 bs"

text \<open>\<open>chunks_exact(20)\<close>, each chunk an address.\<close>

fun chunk_addresses :: "nat \<Rightarrow> bytes \<Rightarrow> address list" where
  "chunk_addresses 0 bs = []"
| "chunk_addresses (Suc n) bs = from_be_bytes (take 20 bs) # chunk_addresses n (drop 20 bs)"

definition read_addresses :: "bytes \<Rightarrow> (address list \<times> bytes) result" where
  "read_addresses bs =
     and_then (read_be (Fatal ''unexpected EOF reading address count'') 2 bs) (\<lambda>(count :: u16, bs).
     and_then (read_exact (Fatal ''unexpected EOF reading address list'') (unat count * 20) bs) (\<lambda>(x, bs).
       Inr (chunk_addresses (length x div 20) x, bs)))"

definition read_bytes_u16 :: "bytes \<Rightarrow> (bytes \<times> bytes) result" where
  "read_bytes_u16 bs =
     and_then (read_be (Fatal ''unexpected EOF reading byte length'') 2 bs) (\<lambda>(len :: u16, bs).
       read_exact (Fatal ''unexpected EOF reading bytes'') (unat len) bs)"

definition read_bytes_u32 :: "bytes \<Rightarrow> (bytes \<times> bytes) result" where
  "read_bytes_u32 bs =
     and_then (read_be (Fatal ''unexpected EOF reading byte length'') 4 bs) (\<lambda>(len :: u32, bs).
       read_exact (Fatal ''unexpected EOF reading bytes'') (unat len) bs)"

definition read_missed :: "bytes \<Rightarrow> (missed_proposer_event \<times> bytes) result" where
  "read_missed bs =
     and_then (read_u64 bs) (\<lambda>(v, bs).
     and_then (read_be (Fatal ''unexpected EOF reading missed-proposer validator'') 20 bs) (\<lambda>(a, bs).
       Inr (\<lparr>missed_view = v, missed_validator = a\<rparr>, bs)))"

definition read_missed_proposers :: "bytes \<Rightarrow> (missed_proposer_event list \<times> bytes) result" where
  "read_missed_proposers bs =
     and_then (read_be (Fatal ''unexpected EOF reading missed-proposer count'') 2 bs) (\<lambda>(count :: u16, bs).
       read_n read_missed (unat count) bs)"

text \<open>The fields after magic and version, up to the trailing-bytes check.\<close>

definition read_fields :: "bytes \<Rightarrow> (certified_parent_metadata \<times> bytes) result" where
  "read_fields bs =
     and_then (read_u64 bs) (\<lambda>(number, bs).
     and_then (read_b256 bs) (\<lambda>(hash, bs).
     and_then (read_u64 bs) (\<lambda>(epoch, bs).
     and_then (read_u64 bs) (\<lambda>(view, bs).
     and_then (read_u64 bs) (\<lambda>(pview, bs).
     and_then (read_addresses bs) (\<lambda>(committee, bs).
     and_then (read_bytes_u16 bs) (\<lambda>(bitmap, bs).
     and_then (read_bytes_u32 bs) (\<lambda>(prf, bs).
     and_then (read_b256 bs) (\<lambda>(set_hash, bs).
     and_then (read_u64 bs) (\<lambda>(version, bs).
     and_then (read_b256 bs) (\<lambda>(group_hash, bs).
     and_then (read_u8 (Fatal ''unexpected EOF reading u8'') bs) (\<lambda>(tag, bs).
     and_then (from_tag tag) (\<lambda>kind.
     and_then (read_missed_proposers bs) (\<lambda>(missed, bs).
       Inr (\<lparr>finalized_block_number = number, finalized_block_hash = hash, finalized_epoch = epoch,
             finalized_view = view, parent_view = pview, ordered_committee = committee,
             signer_bitmap = bitmap, proof_bytes = prf, metadata_committee_set_hash = set_hash,
             metadata_vrf_material_version = version, vrf_group_public_key_hash = group_hash,
             proof_kind = kind, missed_proposers = missed\<rparr>, bs)))))))))))))))"

definition METADATA_MIN_LEN :: nat where
  "METADATA_MIN_LEN = 4 + 1 + 8 + 32 + 8 + 8 + 8 + 2 + 2 + 4 + 32 + 8 + 32 + 1 + 2"

definition decode_metadata :: "bytes \<Rightarrow> certified_parent_metadata result" where
  "decode_metadata bs =
     (if length bs < METADATA_MIN_LEN then Inl (Fatal ''certified-parent accounting metadata too short'')
      else if take 4 bs \<noteq> CERTIFIED_PARENT_ACCOUNTING_MAGIC
      then Inl (Fatal ''invalid certified-parent accounting magic'')
      else if bs ! 4 \<noteq> CERTIFIED_PARENT_ACCOUNTING_VERSION
      then Inl (Fatal ''unsupported certified-parent accounting version'')
      else and_then (read_fields (drop 5 bs)) (\<lambda>(md, rest).
        if rest \<noteq> [] then Inl (Fatal ''trailing bytes in certified-parent accounting metadata'')
        else Inr md))"

section \<open>The decoder inverts the encoder\<close>

text \<open>Hashes have 32 bytes, as the type \<open>B256\<close> says, and the counted fields fit their prefixes.\<close>

definition wf_metadata :: "certified_parent_metadata \<Rightarrow> bool" where
  "wf_metadata md \<longleftrightarrow> length (finalized_block_hash md) = 32 \<and>
     length (metadata_committee_set_hash md) = 32 \<and> length (vrf_group_public_key_hash md) = 32 \<and>
     length (ordered_committee md) < 2 ^ 16 \<and> length (signer_bitmap md) < 2 ^ 16 \<and>
     length (missed_proposers md) < 2 ^ 16 \<and> length (proof_bytes md) < 2 ^ 32"

interpretation missed: codec encode_missed read_missed "\<lambda>_. True"
proof
  show "read_missed (encode_missed x @ rest) = Inr (x, rest)" for x rest
    by (simp add: read_missed_def read_u64_def encode_missed_def)
  show "True \<and> bs = encode_missed x @ rest" if "read_missed bs = Inr (x, rest)" for bs x rest
    using that by (auto simp: read_missed_def read_u64_def encode_missed_def and_then_eq_Inr dest!: read_be_Inr)
qed

lemma length_encode_address_list: "length (concat (map (to_be_bytes 20) as)) = 20 * length as"
  by (induction as) simp_all

lemma chunk_encoded_addresses: "chunk_addresses (length as) (concat (map (to_be_bytes 20) as)) = as"
  by (induction as) simp_all

lemma encode_chunk_addresses:
  "length bs = n * 20 \<Longrightarrow> concat (map (to_be_bytes 20) (chunk_addresses n bs)) = bs \<and> length (chunk_addresses n bs) = n"
proof (induction n arbitrary: bs)
  case (Suc n)
  then have "length (take 20 bs) = 20" by simp
  from to_from_be_bytes [of "take 20 bs", where 'n = 160] this
  have "to_be_bytes 20 (from_be_bytes (take 20 bs) :: address) = take 20 bs" by simp
  with Suc show ?case by simp
qed simp

text \<open>The field readers as codecs: counted addresses, bytes with a short and with a long prefix.\<close>

interpretation addresses: codec encode_addresses read_addresses "\<lambda>as. length as < 2 ^ 16"
proof
  show "read_addresses (encode_addresses as @ rest) = Inr (as, rest)" if "length as < 2 ^ 16" for as rest
    using that chunk_encoded_addresses [of as]
    by (simp add: read_addresses_def encode_addresses_def unat_word_of_nat_exact length_encode_address_list)
  fix bs as rest assume "read_addresses bs = Inr (as, rest)"
  then obtain count :: u16 and x where x: "bs = to_be_bytes 2 count @ x @ rest" "length x = unat count * 20"
    "as = chunk_addresses (length x div 20) x"
    by (auto simp: read_addresses_def and_then_eq_Inr dest!: read_be_Inr read_exact_Inr)
  then have "concat (map (to_be_bytes 20) as) = x" "length as = unat count"
    using encode_chunk_addresses [of x "unat count"] by simp_all
  then show "length as < 2 ^ 16 \<and> bs = encode_addresses as @ rest"
    using x(1) unat_lt_2p [of count] by (simp add: encode_addresses_def)
qed

interpretation bytes_u16: codec "\<lambda>bs. to_be_bytes 2 (word_of_nat (length bs) :: u16) @ bs" read_bytes_u16
  "\<lambda>bs. length bs < 2 ^ 16"
proof
  show "length x < 2 ^ 16 \<and> bs = (to_be_bytes 2 (word_of_nat (length x) :: u16) @ x) @ rest"
    if "read_bytes_u16 bs = Inr (x, rest)" for bs x rest
    using that unat_lt_2p [where 'n = 16]
    by (auto simp: read_bytes_u16_def and_then_eq_Inr dest!: read_be_Inr read_exact_Inr)
qed (simp add: read_bytes_u16_def unat_word_of_nat_exact)

interpretation bytes_u32: codec encode_bytes_u32 read_bytes_u32 "\<lambda>bs. length bs < 2 ^ 32"
proof
  show "length x < 2 ^ 32 \<and> bs = encode_bytes_u32 x @ rest" if "read_bytes_u32 bs = Inr (x, rest)" for bs x rest
    using that unat_lt_2p [where 'n = 32]
    by (auto simp: read_bytes_u32_def encode_bytes_u32_def and_then_eq_Inr dest!: read_be_Inr read_exact_Inr)
qed (simp add: read_bytes_u32_def encode_bytes_u32_def unat_word_of_nat_exact)

text \<open>The bytes after magic and version.\<close>

definition encode_fields :: "certified_parent_metadata \<Rightarrow> bytes" where
  "encode_fields md =
     to_be_bytes 8 (finalized_block_number md) @
     finalized_block_hash md @
     to_be_bytes 8 (finalized_epoch md) @
     to_be_bytes 8 (finalized_view md) @
     to_be_bytes 8 (parent_view md) @
     encode_addresses (ordered_committee md) @
     (to_be_bytes 2 (word_of_nat (length (signer_bitmap md)) :: u16) @ signer_bitmap md) @
     encode_bytes_u32 (proof_bytes md) @
     metadata_committee_set_hash md @
     to_be_bytes 8 (metadata_vrf_material_version md) @
     vrf_group_public_key_hash md @
     [proof_tag (proof_kind md)] @
     to_be_bytes 2 (word_of_nat (length (missed_proposers md)) :: u16) @
     concat (map encode_missed (missed_proposers md))"

lemma encode_metadata_Inr:
  assumes "length (finalized_block_hash md) = 32" "length (metadata_committee_set_hash md) = 32"
    "length (vrf_group_public_key_hash md) = 32"
  shows "encode_metadata md = Inr bs \<longleftrightarrow> wf_metadata md \<and>
    bs = CERTIFIED_PARENT_ACCOUNTING_MAGIC @ CERTIFIED_PARENT_ACCOUNTING_VERSION # encode_fields md"
  using assms
  by (auto simp: encode_metadata_def and_then_eq_Inr ensure_count_fits_u16_def ensure_len_fits_u32_def
      encode_bytes_u16_def wf_metadata_def encode_fields_def)

lemma from_tag_proof_tag [simp]: "from_tag (proof_tag k) = Inr k"
  by (cases k) (simp_all add: from_tag_def proof_tag_def)

lemma from_tag_Inr: "from_tag t = Inr k \<Longrightarrow> t = proof_tag k"
  by (auto simp: from_tag_def proof_tag_def split: if_splits)

lemma read_u64_append: "read_u64 (to_be_bytes 8 v @ rest) = Inr (v, rest)"
  by (simp add: read_u64_def)

lemma read_u64_Inr: "read_u64 bs = Inr (v, rest) \<Longrightarrow> bs = to_be_bytes 8 v @ rest"
  by (auto simp: read_u64_def dest!: read_be_Inr)

lemma read_b256_Inr: "read_b256 bs = Inr (h, rest) \<Longrightarrow> bs = h @ rest \<and> length h = 32"
  by (auto simp: read_b256_def dest!: read_exact_Inr)

lemma read_missed_proposers_append:
  "length evs < 2 ^ 16 \<Longrightarrow>
   read_missed_proposers (to_be_bytes 2 (word_of_nat (length evs) :: u16) @ concat (map encode_missed evs) @ rest)
     = Inr (evs, rest)"
  using missed.read_n_enc [of evs rest] by (simp add: read_missed_proposers_def unat_word_of_nat_exact)

lemma read_missed_proposers_Inr:
  assumes "read_missed_proposers bs = Inr (evs, rest)"
  shows "length evs < 2 ^ 16 \<and>
    bs = to_be_bytes 2 (word_of_nat (length evs) :: u16) @ concat (map encode_missed evs) @ rest"
  using assms unat_lt_2p [where 'n = 16]
  by (auto simp: read_missed_proposers_def and_then_eq_Inr dest!: read_be_Inr missed.read_n_canonical)

lemma read_fields_encode:
  assumes "wf_metadata md"
  shows "read_fields (encode_fields md) = Inr (md, [])"
proof -
  have read: "read_missed_proposers (to_be_bytes 2 (word_of_nat (length (missed_proposers md)) :: u16) @
      concat (map encode_missed (missed_proposers md))) = Inr (missed_proposers md, [])"
    using assms read_missed_proposers_append [of "missed_proposers md" "[]"] by (simp add: wf_metadata_def)
  have hash: "read_b256 (h @ rest) = Inr (h, rest)" if "length h = 32" for h rest
    using that by (simp add: read_b256_def)
  show ?thesis
    using assms unfolding wf_metadata_def read_fields_def encode_fields_def
    by (simp add: read_u64_append hash addresses.dec_enc bytes_u16.dec_enc [simplified]
        bytes_u32.dec_enc read)
qed

lemma read_fields_canonical:
  "read_fields bs = Inr (md, []) \<Longrightarrow> wf_metadata md \<and> bs = encode_fields md"
  unfolding read_fields_def wf_metadata_def encode_fields_def
  by (auto simp: and_then_eq_Inr dest!: read_u64_Inr read_b256_Inr addresses.dec_canonical
      bytes_u16.dec_canonical bytes_u32.dec_canonical read_u8_Inr from_tag_Inr read_missed_proposers_Inr)

lemma length_encode_fields: "wf_metadata md \<Longrightarrow> METADATA_MIN_LEN \<le> 5 + length (encode_fields md)"
  by (simp add: wf_metadata_def encode_fields_def METADATA_MIN_LEN_def encode_addresses_def encode_bytes_u32_def)

lemma decode_metadata_canonical:
  assumes dec: "decode_metadata bs = Inr md"
  shows "wf_metadata md \<and> encode_metadata md = Inr bs"
proof -
  from dec have guards: "METADATA_MIN_LEN \<le> length bs" "take 4 bs = CERTIFIED_PARENT_ACCOUNTING_MAGIC"
    "bs ! 4 = CERTIFIED_PARENT_ACCOUNTING_VERSION" and "read_fields (drop 5 bs) = Inr (md, [])"
    by (auto simp: decode_metadata_def and_then_eq_Inr split: if_splits)
  then have fields: "wf_metadata md" "drop 5 bs = encode_fields md"
    by (auto dest!: read_fields_canonical)
  have "bs = take 4 bs @ bs ! 4 # drop 5 bs"
    using guards(1) id_take_nth_drop [of 4 bs] by (simp add: METADATA_MIN_LEN_def)
  with guards fields show ?thesis
    using encode_metadata_Inr [of md bs] by (auto simp: wf_metadata_def)
qed

lemma decode_encode_metadata:
  assumes enc: "wf_metadata md" "encode_metadata md = Inr bs"
  shows "decode_metadata bs = Inr md"
proof -
  from enc have "bs = CERTIFIED_PARENT_ACCOUNTING_MAGIC @ CERTIFIED_PARENT_ACCOUNTING_VERSION # encode_fields md"
    using encode_metadata_Inr [of md bs] by (auto simp: wf_metadata_def)
  then show ?thesis
    using enc length_encode_fields [of md] read_fields_encode [of md]
    by (simp add: decode_metadata_def CERTIFIED_PARENT_ACCOUNTING_MAGIC_def)
qed

text \<open>
  C28. The metadata decoder accepts exactly the encoder's outputs: an accepted input is the
  encoding of the decoded record, whose hashes have 32 bytes and whose lists fit their
  prefixes, and the encoding of such a record decodes to it. Two different byte strings never
  decode to the same metadata.
\<close>

theorem decode_metadata_iff:
  "decode_metadata bs = Inr md \<longleftrightarrow> wf_metadata md \<and> encode_metadata md = Inr bs"
  using decode_metadata_canonical decode_encode_metadata by blast

end
