(* ===== verification/Certificate.thy ===== *)
theory Certificate
  imports Committee_Properties Consensus_Metadata
begin

text \<open>
  The hybrid certificate codec (\<^verbatim>\<open>crates/blockchain/consensus/src/proof/hybrid_wire.rs\<close>) and the
  metadata-bound certificate verifier that every block's first system transaction passes
  (\<^verbatim>\<open>verifier.rs\<close>): rules 1 to 9 in the order of the code, on top of the structural and
  cryptographic checks of the low-level verifier. The pairing checks and the readers of the
  certificate's parts are those of the commonware library.
\<close>

section \<open>Certificates\<close>

record vrf_proof =
  material_version :: u64
  threshold_signature :: bytes

text \<open>The bitmap's length and the set participants in the order of its iterator.\<close>

record hybrid_certificate =
  signers_len :: nat
  signers :: "nat list"
  bls_aggregated_vote :: bytes
  cert_vrf_proof :: "vrf_proof option"

record verified_proof =
  verified_bitmap :: bytes
  vrf_proof_hash :: b256
  verified_vrf_version :: u64

datatype vote_subject = Notarize | Finalize

definition encode_vrf_proof :: "vrf_proof \<Rightarrow> bytes" where
  "encode_vrf_proof p = to_be_bytes 8 (material_version p) @ threshold_signature p"

definition canonical_vrf_proof_hash_v2 :: "crypto \<Rightarrow> vrf_proof \<Rightarrow> b256" where
  "canonical_vrf_proof_hash_v2 c p = keccak256 c (encode_vrf_proof p)"

definition read_vrf_proof :: "commonware \<Rightarrow> bytes \<Rightarrow> (vrf_proof \<times> bytes) option" where
  "read_vrf_proof b bs =
     (if length bs < 8 then None
      else case read_seed_signature b (drop 8 bs) of
        None \<Rightarrow> None
      | Some (sig, rest) \<Rightarrow>
          Some (\<lparr>material_version = from_be_bytes (take 8 bs), threshold_signature = sig\<rparr>, rest))"

definition read_certificate :: "commonware \<Rightarrow> nat \<Rightarrow> bytes \<Rightarrow> (hybrid_certificate \<times> bytes) option" where
  "read_certificate b max_participants bs =
     (case read_signers b max_participants bs of
        None \<Rightarrow> None
      | Some ((n, idxs), bs) \<Rightarrow>
          if length idxs = 0 then None
          else case read_vote_signature b bs of
            None \<Rightarrow> None
          | Some (sig, bs) \<Rightarrow>
              (case bs of
                 [] \<Rightarrow> None
               | flag # bs \<Rightarrow>
                   if flag = 0 then
                     Some (\<lparr>signers_len = n, signers = idxs, bls_aggregated_vote = sig, cert_vrf_proof = None\<rparr>, bs)
                   else if flag = 1 then
                     (case read_vrf_proof b bs of
                        None \<Rightarrow> None
                      | Some (p, bs) \<Rightarrow>
                          Some (\<lparr>signers_len = n, signers = idxs, bls_aggregated_vote = sig, cert_vrf_proof = Some p\<rparr>, bs))
                   else None))"

section \<open>The low-level verifier\<close>

definition verify_seed_signature_plain :: "commonware \<Rightarrow> u64 \<Rightarrow> bytes \<Rightarrow> bytes \<Rightarrow> bytes \<Rightarrow> bool" where
  "verify_seed_signature_plain b chain_id pk seed_message sig =
     verify_message_minsig b pk (hybrid_seed_namespace chain_id) seed_message sig"

definition verify_threshold_vrf_proof ::
  "commonware \<Rightarrow> u64 \<Rightarrow> bytes \<Rightarrow> bytes \<Rightarrow> vrf_proof \<Rightarrow> verify_error + unit" where
  "verify_threshold_vrf_proof b chain_id group_pk seed_message p =
     (if verify_seed_signature_plain b chain_id group_pk seed_message (threshold_signature p)
      then Inr () else Inl InvalidVrfSignature)"

fun mark_signers :: "nat \<Rightarrow> nat list \<Rightarrow> bytes \<Rightarrow> verify_error + bytes" where
  "mark_signers n [] bitmap = Inr bitmap"
| "mark_signers n (i # is) bitmap =
     (if n \<le> i then Inl (SignerIndexOutOfRange i n) else mark_signers n is (bitmap[i := 1]))"

definition verify_v2_certificate_low_level ::
  "crypto \<Rightarrow> commonware \<Rightarrow> u64 \<Rightarrow> bytes list \<Rightarrow> bytes \<Rightarrow> bytes \<Rightarrow> bytes \<Rightarrow> bytes \<Rightarrow> hybrid_certificate
     \<Rightarrow> verify_error + verified_proof" where
  "verify_v2_certificate_low_level c b chain_id participants group_pk namespace message seed_message cert =
     (let n = length participants; quorum = simplex_n3f1_quorum n; signer_count = length (signers cert)
      in if signers_len cert \<noteq> n then Inl (BitmapMismatch ''bitmap length does not match committee size'')
         else if signer_count < quorum then Inl (BelowQuorum signer_count quorum)
         else
           let signer_pubkeys = map (\<lambda>i. participants ! i) (filter (\<lambda>i. i < n) (signers cert))
           in if length signer_pubkeys \<noteq> signer_count then Inl (SignerIndexOutOfRange 0 n)
              else if \<not> verify_same_message b signer_pubkeys namespace message (bls_aggregated_vote cert)
              then Inl BlsAggregateInvalid
              else case cert_vrf_proof cert of
                None \<Rightarrow> Inl MissingVrfProof
              | Some p \<Rightarrow>
                  and_then (verify_threshold_vrf_proof b chain_id group_pk seed_message p) (\<lambda>_.
                  and_then (mark_signers n (signers cert) (replicate n 0)) (\<lambda>bitmap.
                    Inr \<lparr>verified_bitmap = bitmap, vrf_proof_hash = canonical_vrf_proof_hash_v2 c p,
                         verified_vrf_version = material_version p\<rparr>)))"

section \<open>The metadata-bound verifier\<close>

definition decode_min_sig_public :: "crypto \<Rightarrow> commonware \<Rightarrow> bytes \<Rightarrow> verify_error + bytes" where
  "decode_min_sig_public c b bs =
     (if length bs \<noteq> group_key_size b then Inl (WrongVrfGroupKeyHash B256_ZERO (keccak256 c bs))
      else if \<not> decode_group_key_ok b bs then Inl DecodeError
      else Inr bs)"

text \<open>Rules 1 to 8 before any decoding.\<close>

definition check_binding ::
  "crypto \<Rightarrow> certified_parent_metadata \<Rightarrow> committee_snapshot \<Rightarrow> bytes \<Rightarrow> b256 \<Rightarrow> verify_error + unit" where
  "check_binding c md s prf header_parent_hash =
     (if missed_proposers md \<noteq> [] then Inl (NonEmptyMissedProposers (length (missed_proposers md)))
      else if finalized_block_hash md \<noteq> header_parent_hash
      then Inl (WrongAccountedHash header_parent_hash (finalized_block_hash md))
      else if committee s = [] then Inl CommitteeSnapshotMissing
      else if length (ordered_committee md) \<noteq> length (committee s)
      then Inl (BitmapMismatch ''metadata.ordered_committee length differs from snapshot.committee length'')
      else if \<not> list_all (\<lambda>(a, e). a = entry_address e) (zip (ordered_committee md) (committee s))
      then Inl (BitmapMismatch
        ''metadata.ordered_committee[i].address differs from snapshot.committee[i].address'')
      else if length (signer_bitmap md) \<noteq> length (ordered_committee md)
      then Inl (BitmapMismatch ''metadata.signer_bitmap length differs from ordered_committee length'')
      else if metadata_vrf_material_version md \<noteq> vrf_material_version s
      then Inl (WrongVrfMaterialVersion (vrf_material_version s) (metadata_vrf_material_version md))
      else if vrf_group_public_key_hash md \<noteq> keccak256 c (vrf_group_public_key_bytes s)
      then Inl (WrongVrfGroupKeyHash (keccak256 c (vrf_group_public_key_bytes s))
        (vrf_group_public_key_hash md))
      else if metadata_committee_set_hash md \<noteq> committee_set_hash_v2 c (finalized_epoch md) s
      then Inl (CommitteeSetHashMismatch (committee_set_hash_v2 c (finalized_epoch md) s)
        (metadata_committee_set_hash md))
      else if prf \<noteq> proof_bytes md then Inl (WrongProofDomain (finalized_block_hash md) B256_ZERO)
      else Inr ())"

text \<open>The proof envelope: a proposal and a certificate, nothing after them, for the metadata's round.\<close>

definition read_proof ::
  "commonware \<Rightarrow> nat \<Rightarrow> certified_parent_metadata \<Rightarrow> verify_error + (vote_subject \<times> proposal \<times> hybrid_certificate)" where
  "read_proof b n md =
     (case read_proposal b (proof_bytes md) of
        None \<Rightarrow> Inl DecodeError
      | Some (p, bs) \<Rightarrow>
          (case read_certificate b n bs of
             None \<Rightarrow> Inl DecodeError
           | Some (cert, bs) \<Rightarrow>
               if bs \<noteq> [] then Inl TrailingBytesError
               else if proposal_epoch p \<noteq> finalized_epoch md \<or> proposal_view p \<noteq> finalized_view md \<or>
                 proposal_parent p \<noteq> parent_view md \<or> proposal_payload p \<noteq> finalized_block_hash md
               then Inl (WrongProofDomain (finalized_block_hash md) (proposal_payload p))
               else Inr (case proof_kind md of Finalization \<Rightarrow> Finalize | CertifiedNotarization \<Rightarrow> Notarize,
                 p, cert)))"

fun scan_bitmap :: "nat \<Rightarrow> u32 list \<Rightarrow> bytes \<Rightarrow> verify_error + unit" where
  "scan_bitmap idx seen [] = Inr ()"
| "scan_bitmap idx seen (byte # bs) =
     (if byte = 0 then scan_bitmap (idx + 1) seen bs
      else if byte \<noteq> 1 then Inl (BitmapMismatch ''metadata.signer_bitmap has non-binary byte'')
      else if word_of_nat idx \<in> set seen then Inl (DuplicateSigner idx)
      else scan_bitmap (idx + 1) (word_of_nat idx # seen) bs)"

definition vote_namespace :: "crypto \<Rightarrow> u64 \<Rightarrow> vote_subject \<Rightarrow> bytes list \<Rightarrow> bytes" where
  "vote_namespace c chain_id subject keys =
     (case subject of
        Finalize \<Rightarrow> finalize_namespace c chain_id keys
      | Notarize \<Rightarrow> notarize_namespace c chain_id keys)"

definition verify_v2_proof ::
  "crypto \<Rightarrow> commonware \<Rightarrow> u64 \<Rightarrow> certified_parent_metadata \<Rightarrow> committee_snapshot \<Rightarrow> bytes \<Rightarrow> b256
     \<Rightarrow> verify_error + verified_proof" where
  "verify_v2_proof c b chain_id md s prf header_parent_hash =
     and_then (check_binding c md s prf header_parent_hash) (\<lambda>_.
       let participants = map entry_pubkey (committee s)
       in if \<not> list_all (decode_pubkey_ok b) participants then Inl DecodeError
          else
            and_then (decode_min_sig_public c b (vrf_group_public_key_bytes s)) (\<lambda>group_pk.
            and_then (read_proof b (length (committee s)) md) (\<lambda>(subject, p, cert).
            and_then
              (verify_v2_certificate_low_level c b chain_id participants group_pk
                 (vote_namespace c chain_id subject (ordered_set b participants))
                 (encode_proposal b p) (encode_round b (proposal_epoch p) (proposal_view p)) cert)
              (\<lambda>inner.
                 if verified_vrf_version inner \<noteq> metadata_vrf_material_version md
                 then Inl (WrongVrfMaterialVersion (metadata_vrf_material_version md) (verified_vrf_version inner))
                 else if verified_bitmap inner \<noteq> signer_bitmap md
                 then Inl (BitmapMismatch
                   ''metadata.signer_bitmap differs from certificate-reconstructed bitmap'')
                 else and_then (scan_bitmap 0 [] (signer_bitmap md)) (\<lambda>_. Inr inner)))))"

section \<open>What an accepted proof shows\<close>

lemma mark_signers_Inr:
  "mark_signers n is bm = Inr bm' \<Longrightarrow> length bm = n \<Longrightarrow>
   length bm' = n \<and> set is \<subseteq> {..<n} \<and> (\<forall>i<n. bm' ! i = (if i \<in> set is then 1 else bm ! i))"
proof (induction "is" arbitrary: bm)
  case (Cons i "is")
  then have "i < n" and run: "mark_signers n is (bm[i := 1]) = Inr bm'" by (auto split: if_splits)
  from Cons.IH [OF run] Cons.prems(2) \<open>i < n\<close> show ?case by (auto simp: nth_list_update)
qed simp

lemma low_level_Inr:
  assumes "verify_v2_certificate_low_level c b chain_id ps gk ns msg seed cert = Inr v"
  shows "simplex_n3f1_quorum (length ps) \<le> length (signers cert)"
    and "set (signers cert) \<subseteq> {..<length ps}"
    and "length (verified_bitmap v) = length ps"
    and "\<And>i. i < length ps \<Longrightarrow> verified_bitmap v ! i = (if i \<in> set (signers cert) then 1 else 0)"
    and "verify_same_message b (map (\<lambda>i. ps ! i) (signers cert)) ns msg (bls_aggregated_vote cert)"
    and "\<exists>p. cert_vrf_proof cert = Some p \<and>
      verify_message_minsig b gk (hybrid_seed_namespace chain_id) seed (threshold_signature p) \<and>
      v = \<lparr>verified_bitmap = verified_bitmap v, vrf_proof_hash = canonical_vrf_proof_hash_v2 c p,
           verified_vrf_version = material_version p\<rparr>"
proof -
  from assms obtain p bm where p: "cert_vrf_proof cert = Some p"
    and vrf: "verify_threshold_vrf_proof b chain_id gk seed p = Inr ()"
    and mark: "mark_signers (length ps) (signers cert) (replicate (length ps) 0) = Inr bm"
    and v: "v = \<lparr>verified_bitmap = bm, vrf_proof_hash = canonical_vrf_proof_hash_v2 c p,
      verified_vrf_version = material_version p\<rparr>"
    and q: "simplex_n3f1_quorum (length ps) \<le> length (signers cert)"
    and agg: "verify_same_message b (map (\<lambda>i. ps ! i) (filter (\<lambda>i. i < length ps) (signers cert))) ns msg
      (bls_aggregated_vote cert)"
    by (auto simp: verify_v2_certificate_low_level_def Let_def and_then_eq_Inr split: option.splits)
  from mark_signers_Inr [OF mark] show sub: "set (signers cert) \<subseteq> {..<length ps}"
    and "length (verified_bitmap v) = length ps"
    and "\<And>i. i < length ps \<Longrightarrow> verified_bitmap v ! i = (if i \<in> set (signers cert) then 1 else 0)"
    by (simp_all add: v)
  from sub have "filter (\<lambda>i. i < length ps) (signers cert) = signers cert" by (auto intro: filter_True)
  with agg q show "verify_same_message b (map (\<lambda>i. ps ! i) (signers cert)) ns msg (bls_aggregated_vote cert)"
    "simplex_n3f1_quorum (length ps) \<le> length (signers cert)" by simp_all
  from vrf have "verify_message_minsig b gk (hybrid_seed_namespace chain_id) seed (threshold_signature p)"
    by (auto simp: verify_threshold_vrf_proof_def verify_seed_signature_plain_def split: if_splits)
  with p v show "\<exists>p. cert_vrf_proof cert = Some p \<and>
      verify_message_minsig b gk (hybrid_seed_namespace chain_id) seed (threshold_signature p) \<and>
      v = \<lparr>verified_bitmap = verified_bitmap v, vrf_proof_hash = canonical_vrf_proof_hash_v2 c p,
           verified_vrf_version = material_version p\<rparr>" by simp
qed

lemma zip_addresses:
  "length as = length es \<Longrightarrow> list_all (\<lambda>(a, e). a = entry_address e) (zip as es) \<Longrightarrow> as = map entry_address es"
  by (induction as es rule: list_induct2) auto

lemma check_binding_Inr:
  assumes "check_binding c md s prf h = Inr ()"
  shows "missed_proposers md = []" "finalized_block_hash md = h" "prf = proof_bytes md" "committee s \<noteq> []"
    "ordered_committee md = map entry_address (committee s)"
    "metadata_vrf_material_version md = vrf_material_version s"
    "metadata_committee_set_hash md = committee_set_hash_v2 c (finalized_epoch md) s"
    "length (signer_bitmap md) = length (committee s)"
  using assms zip_addresses [of "ordered_committee md" "committee s"]
  by (auto simp: check_binding_def split: if_splits)

definition metadata_proposal :: "certified_parent_metadata \<Rightarrow> proposal" where
  "metadata_proposal md =
     \<lparr>proposal_epoch = finalized_epoch md, proposal_view = finalized_view md,
      proposal_parent = parent_view md, proposal_payload = finalized_block_hash md\<rparr>"

definition metadata_subject :: "certified_parent_metadata \<Rightarrow> vote_subject" where
  "metadata_subject md = (case proof_kind md of Finalization \<Rightarrow> Finalize | CertifiedNotarization \<Rightarrow> Notarize)"

text \<open>The library's bitmap reader lists every participant once.\<close>

definition signers_distinct :: "commonware \<Rightarrow> bool" where
  "signers_distinct b \<longleftrightarrow>
     (\<forall>n bs len idxs rest. read_signers b n bs = Some ((len, idxs), rest) \<longrightarrow> distinct idxs)"

lemma read_proof_Inr:
  assumes "read_proof b n md = Inr (subj, p, cert)"
  shows "subj = metadata_subject md" "p = metadata_proposal md" "signers_distinct b \<Longrightarrow> distinct (signers cert)"
proof -
  from assms obtain bs where "subj = metadata_subject md" and p: "p = metadata_proposal md"
    and cert: "read_certificate b n bs = Some (cert, [])"
    by (auto simp: read_proof_def metadata_subject_def metadata_proposal_def split: option.splits if_splits)
  then show "subj = metadata_subject md" "p = metadata_proposal md" by simp_all
  have "\<exists>rest. read_signers b n bs = Some ((signers_len cert, signers cert), rest)"
    using cert by (auto simp: read_certificate_def split: option.splits list.splits if_splits)
  then show "distinct (signers cert)" if "signers_distinct b"
    using that unfolding signers_distinct_def by blast
qed

lemma verify_v2_proof_Inr:
  assumes "verify_v2_proof c b chain_id md s prf h = Inr v" and lib: "signers_distinct b"
  shows "check_binding c md s prf h = Inr ()" (is ?binding)
    and "set (signer_bitmap md) \<subseteq> {0, 1}" (is ?binary)
    and "\<exists>cert p. read_proof b (length (committee s)) md = Inr (metadata_subject md, metadata_proposal md, cert) \<and>
       distinct (signers cert) \<and> set (signers cert) = {i. i < length (committee s) \<and> signer_bitmap md ! i = 1} \<and>
       simplex_n3f1_quorum (length (committee s)) \<le> length (signers cert) \<and>
       verify_same_message b (map (\<lambda>i. entry_pubkey (committee s ! i)) (signers cert))
         (vote_namespace c chain_id (metadata_subject md) (ordered_set b (map entry_pubkey (committee s))))
         (encode_proposal b (metadata_proposal md)) (bls_aggregated_vote cert) \<and>
       cert_vrf_proof cert = Some p \<and> material_version p = metadata_vrf_material_version md \<and>
       verify_message_minsig b (vrf_group_public_key_bytes s) (hybrid_seed_namespace chain_id)
         (encode_round b (finalized_epoch md) (finalized_view md)) (threshold_signature p) \<and>
       v = \<lparr>verified_bitmap = signer_bitmap md, vrf_proof_hash = canonical_vrf_proof_hash_v2 c p,
            verified_vrf_version = metadata_vrf_material_version md\<rparr>" (is ?cert)
proof -
  from assms(1) obtain gk subj p cert where bind: ?binding
    and gk: "decode_min_sig_public c b (vrf_group_public_key_bytes s) = Inr gk"
    and rp: "read_proof b (length (committee s)) md = Inr (subj, p, cert)"
    and run: "verify_v2_certificate_low_level c b chain_id (map entry_pubkey (committee s)) gk
      (vote_namespace c chain_id subj (ordered_set b (map entry_pubkey (committee s))))
      (encode_proposal b p) (encode_round b (proposal_epoch p) (proposal_view p)) cert = Inr v"
    and version: "verified_vrf_version v = metadata_vrf_material_version md"
    and bm: "verified_bitmap v = signer_bitmap md"
    by (auto simp: verify_v2_proof_def Let_def and_then_eq_Inr)
  show ?binding by (rule bind)
  have gk': "gk = vrf_group_public_key_bytes s"
    using gk by (auto simp: decode_min_sig_public_def split: if_splits)
  note same = read_proof_Inr [OF rp] and low = low_level_Inr [OF run, unfolded bm length_map]
  show ?binary
  proof
    fix x assume "x \<in> set (signer_bitmap md)"
    then obtain i where "i < length (committee s)" "x = signer_bitmap md ! i"
      using low(3) by (auto simp: in_set_conv_nth)
    then show "x \<in> {0, 1}" using low(4) [of i] by simp
  qed
  obtain q where q: "cert_vrf_proof cert = Some q"
    "verify_message_minsig b gk (hybrid_seed_namespace chain_id)
       (encode_round b (proposal_epoch p) (proposal_view p)) (threshold_signature q)"
    "v = \<lparr>verified_bitmap = signer_bitmap md, vrf_proof_hash = canonical_vrf_proof_hash_v2 c q,
         verified_vrf_version = material_version q\<rparr>"
    using low(6) by blast
  have marked: "set (signers cert) = {i. i < length (committee s) \<and> signer_bitmap md ! i = 1}"
    using low(2,4) by (auto split: if_splits)
  have keys: "map (\<lambda>i. map entry_pubkey (committee s) ! i) (signers cert) =
      map (\<lambda>i. entry_pubkey (committee s ! i)) (signers cert)"
    using low(2) by auto
  have "material_version q = metadata_vrf_material_version md" using version q(3) by simp
  moreover have "proposal_epoch p = finalized_epoch md" "proposal_view p = finalized_view md"
    by (simp_all add: same(2) metadata_proposal_def)
  ultimately show ?cert
    using rp marked low(1) low(5) [unfolded keys] same(3) [OF lib] q unfolding same(1,2) gk'
    by (intro exI [of _ cert] exI [of _ q]) simp
qed

text \<open>
  C5. An accepted parent proof: the metadata carries no missed proposers, accounts for the
  header's parent and lists the committee of the snapshot whose hash it names. Its proof bytes
  decode to a proposal for that parent in the metadata's epoch and view and to a certificate:
  the members the bitmap marks are the certificate's signers, each once and at least a quorum;
  the certificate's aggregate vote signature verifies under the keys of exactly these members
  for the proposal; its threshold seed signature verifies under the group key of the snapshot
  for that round, with the metadata's key version; and the verifier returns the bitmap and the
  hash of that seed proof.
\<close>

theorem verify_v2_proof_sound:
  assumes run: "verify_v2_proof c b chain_id md s prf h = Inr v" and lib: "signers_distinct b"
  shows "missed_proposers md = [] \<and> finalized_block_hash md = h \<and> prf = proof_bytes md \<and>
    ordered_committee md = map entry_address (committee s) \<and>
    metadata_committee_set_hash md = committee_set_hash_v2 c (finalized_epoch md) s \<and>
    set (signer_bitmap md) \<subseteq> {0, 1} \<and> length (signer_bitmap md) = length (committee s) \<and>
    (\<exists>cert p. read_proof b (length (committee s)) md = Inr (metadata_subject md, metadata_proposal md, cert) \<and>
       distinct (signers cert) \<and> set (signers cert) = {i. i < length (committee s) \<and> signer_bitmap md ! i = 1} \<and>
       simplex_n3f1_quorum (length (committee s)) \<le> length (signers cert) \<and>
       verify_same_message b (map (\<lambda>i. entry_pubkey (committee s ! i)) (signers cert))
         (vote_namespace c chain_id (metadata_subject md) (ordered_set b (map entry_pubkey (committee s))))
         (encode_proposal b (metadata_proposal md)) (bls_aggregated_vote cert) \<and>
       cert_vrf_proof cert = Some p \<and> material_version p = metadata_vrf_material_version md \<and>
       verify_message_minsig b (vrf_group_public_key_bytes s) (hybrid_seed_namespace chain_id)
         (encode_round b (finalized_epoch md) (finalized_view md)) (threshold_signature p) \<and>
       v = \<lparr>verified_bitmap = signer_bitmap md, vrf_proof_hash = canonical_vrf_proof_hash_v2 c p,
            verified_vrf_version = metadata_vrf_material_version md\<rparr>)"
  using verify_v2_proof_Inr [OF run lib] check_binding_Inr [OF verify_v2_proof_Inr(1) [OF run lib]]
  by blast

text \<open>
  The members that voted in a proof: those whose keys are among the ones its own aggregate
  signature verifies under.
\<close>

definition voted ::
  "crypto \<Rightarrow> commonware \<Rightarrow> u64 \<Rightarrow> certified_parent_metadata \<Rightarrow> committee_snapshot \<Rightarrow> address \<Rightarrow> bool" where
  "voted c b chain_id md s a \<longleftrightarrow>
     (case read_proof b (length (committee s)) md of
        Inl _ \<Rightarrow> False
      | Inr (subject, p, cert) \<Rightarrow>
          a \<in> (\<lambda>i. entry_address (committee s ! i)) ` set (signers cert) \<and>
          verify_same_message b (map (\<lambda>i. entry_pubkey (committee s ! i)) (signers cert))
            (vote_namespace c chain_id subject (ordered_set b (map entry_pubkey (committee s))))
            (encode_proposal b p) (bls_aggregated_vote cert))"

lemma accepted_voters:
  assumes run: "verify_v2_proof c b chain_id md s prf h = Inr v" and lib: "signers_distinct b"
    and dist: "distinct (ordered_committee md)"
  shows "{a. voted c b chain_id md s a} \<subseteq> set (ordered_committee md)"
    and "simplex_n3f1_quorum (card (set (ordered_committee md))) \<le> card {a. voted c b chain_id md s a}"
proof -
  let ?addr = "\<lambda>i. entry_address (committee s ! i)"
  have oc: "ordered_committee md = map entry_address (committee s)"
    using check_binding_Inr(5) [OF verify_v2_proof_Inr(1) [OF run lib]] .
  obtain cert where cert: "read_proof b (length (committee s)) md = Inr (metadata_subject md, metadata_proposal md, cert)"
    "distinct (signers cert)" "set (signers cert) = {i. i < length (committee s) \<and> signer_bitmap md ! i = 1}"
    "simplex_n3f1_quorum (length (committee s)) \<le> length (signers cert)"
    "verify_same_message b (map (\<lambda>i. entry_pubkey (committee s ! i)) (signers cert))
       (vote_namespace c chain_id (metadata_subject md) (ordered_set b (map entry_pubkey (committee s))))
       (encode_proposal b (metadata_proposal md)) (bls_aggregated_vote cert)"
    using verify_v2_proof_Inr(3) [OF run lib] by blast
  then have voters: "{a. voted c b chain_id md s a} = ?addr ` set (signers cert)"
    by (auto simp: voted_def)
  have bound: "set (signers cert) \<subseteq> {..<length (committee s)}" using cert(3) by auto
  then show "{a. voted c b chain_id md s a} \<subseteq> set (ordered_committee md)" by (auto simp: voters oc)
  have "inj_on ?addr (set (signers cert))"
  proof (rule inj_onI)
    fix i j assume "i \<in> set (signers cert)" "j \<in> set (signers cert)" "?addr i = ?addr j"
    then show "i = j"
      using bound nth_eq_iff_index_eq [OF dist [unfolded oc], of i j] by auto
  qed
  then have "card (?addr ` set (signers cert)) = length (signers cert)"
    using cert(2) by (simp add: card_image distinct_card)
  moreover have "card (set (ordered_committee md)) = length (committee s)"
    using distinct_card [OF dist] by (simp add: oc)
  ultimately show "simplex_n3f1_quorum (card (set (ordered_committee md))) \<le> card {a. voted c b chain_id md s a}"
    using cert(4) by (simp add: voters)
qed

text \<open>
  C20. Two accepted parent proofs whose committees have the same members, in whatever order,
  share a voter outside any coalition of fewer than a third of them: a member, the same one in
  both committees, whose key is among those the aggregate signatures of both proofs verify
  under. A block and a conflicting one cannot both be accounted for unless such a member signed
  both.
\<close>

theorem accepted_proofs_overlap:
  assumes run: "verify_v2_proof c b chain_id md s prf h = Inr v"
    and run': "verify_v2_proof c b chain_id md' s' prf' h' = Inr v'" and lib: "signers_distinct b"
    and members: "set (ordered_committee md') = set (ordered_committee md)"
      "distinct (ordered_committee md)" "distinct (ordered_committee md')"
    and F: "F \<subseteq> set (ordered_committee md)" "3 * card F < card (set (ordered_committee md))"
  shows "\<exists>a \<in> set (ordered_committee md) - F. voted c b chain_id md s a \<and> voted c b chain_id md' s' a"
proof -
  note q = accepted_voters [OF run lib members(2)] and q' = accepted_voters [OF run' lib members(3), unfolded members(1)]
  have "{a. voted c b chain_id md s a} \<inter> {a. voted c b chain_id md' s' a} - F \<noteq> {}"
    by (rule simplex.honest_overlap [OF _ q(1) q'(1) q(2) q'(2) F]) simp
  with q(1) show ?thesis by blast
qed

text \<open>A library that accepts every signature.\<close>

definition test_commonware :: commonware where
  "test_commonware = \<lparr>decode_pubkey_ok = (\<lambda>_. True), decode_signature_ok = (\<lambda>_. True),
     decode_group_key_ok = (\<lambda>_. True), decode_seed_signature_ok = (\<lambda>_. True), group_key_size = 3,
     encode_round = (\<lambda>_ _. []), encode_proposal = (\<lambda>_. []), ordered_set = remdups,
     verify_same_message = (\<lambda>_ _ _ _. True), verify_identity = (\<lambda>_ _ _ _. True),
     verify_message_minsig = (\<lambda>_ _ _ _. True), partial_public = (\<lambda>_ _. None),
     read_proposal = (\<lambda>bs. Some (\<lparr>proposal_epoch = 1, proposal_view = 2, proposal_parent = 1,
       proposal_payload = take 32 bs\<rparr>, drop 32 bs)),
     read_signers = (\<lambda>_ bs. case bs of [] \<Rightarrow> None | k # r \<Rightarrow> Some ((unat k, [0..<unat k]), r)),
     read_vote_signature = (\<lambda>bs. Some (take 1 bs, drop 1 bs)),
     read_seed_signature = (\<lambda>bs. Some (take 1 bs, drop 1 bs))\<rparr>"

text \<open>
  A library whose vote signature has to be the first bytes of the signers' keys followed by that of
  the message, and whose seed signature has to be 6; signers are a count and their indices.
\<close>

definition quorum_commonware :: commonware where
  "quorum_commonware = test_commonware
     \<lparr>encode_proposal := proposal_payload,
      verify_same_message := (\<lambda>keys ns msg sig. sig = map hd keys @ take 1 msg),
      verify_message_minsig := (\<lambda>_ _ _ sig. sig = [6]),
      read_signers := (\<lambda>n bs. case bs of [] \<Rightarrow> None | k # r \<Rightarrow>
        if distinct (take (unat k) r) then Some ((n, map unat (take (unat k) r)), drop (unat k) r) else None),
      read_vote_signature := (\<lambda>bs. Some (take 4 bs, drop 4 bs))\<rparr>"

text \<open>Four members, and proofs by three of them for a block.\<close>

definition four_snapshot :: committee_snapshot where
  "four_snapshot = \<lparr>committee = map (\<lambda>k. \<lparr>entry_address = ucast k, entry_pubkey = replicate 48 k\<rparr>) [1, 2, 3, 4],
     vrf_material_version = 1, vrf_group_public_key_bytes = [1, 2, 3], vrf_public_polynomial_hash = B256_ZERO\<rparr>"

definition four_metadata :: "u8 \<Rightarrow> u8 list \<Rightarrow> certified_parent_metadata" where
  "four_metadata block idxs =
     \<lparr>finalized_block_number = 7, finalized_block_hash = replicate 32 block, finalized_epoch = 1,
      finalized_view = 2, parent_view = 1, ordered_committee = [1, 2, 3, 4],
      signer_bitmap = map (\<lambda>i. if i \<in> set idxs then 1 else 0) [0, 1, 2, 3],
      proof_bytes = replicate 32 block @ [3] @ idxs @ map (\<lambda>i. i + 1) idxs @ [block, 1] @ to_be_bytes 8 (1 :: u64) @ [6],
      metadata_committee_set_hash = committee_set_hash_v2 test_crypto 1 four_snapshot,
      metadata_vrf_material_version = 1,
      vrf_group_public_key_hash = keccak256 test_crypto [1, 2, 3], proof_kind = Finalization,
      missed_proposers = []\<rparr>"

definition four_certificate :: "u8 \<Rightarrow> u8 list \<Rightarrow> hybrid_certificate" where
  "four_certificate block idxs = \<lparr>signers_len = 4, signers = map unat idxs,
     bls_aggregated_vote = map (\<lambda>i. i + 1) idxs @ [block],
     cert_vrf_proof = Some \<lparr>material_version = 1, threshold_signature = [6]\<rparr>\<rparr>"

lemma quorum_commonware_distinct: "signers_distinct quorum_commonware"
  by (auto simp: signers_distinct_def quorum_commonware_def distinct_map inj_on_def word_unat_eq_iff
      split: list.splits if_splits)

lemma four_read:
  assumes "distinct idxs" "length idxs = 3"
  shows "read_proof quorum_commonware 4 (four_metadata block idxs) =
    Inr (Finalize, metadata_proposal (four_metadata block idxs), four_certificate block idxs)"
proof -
  have "read_certificate quorum_commonware 4 ([3] @ idxs @ map (\<lambda>i. i + 1) idxs @ [block, 1] @ to_be_bytes 8 (1 :: u64) @ [6]) =
      Some (four_certificate block idxs, [])"
    using assms
    by (cases idxs) (simp_all add: read_certificate_def read_vrf_proof_def quorum_commonware_def test_commonware_def
        four_certificate_def)
  then show ?thesis
    by (simp add: read_proof_def four_metadata_def metadata_proposal_def)
      (simp add: quorum_commonware_def test_commonware_def)
qed

lemma four_low_level:
  assumes "idxs = [0, 1, 2] \<or> idxs = [1, 2, 3]"
  shows "verify_v2_certificate_low_level test_crypto quorum_commonware 9
      (map entry_pubkey (committee four_snapshot)) gk ns
      (encode_proposal quorum_commonware (metadata_proposal (four_metadata block idxs))) seed (four_certificate block idxs) =
      Inr \<lparr>verified_bitmap = signer_bitmap (four_metadata block idxs),
           vrf_proof_hash = canonical_vrf_proof_hash_v2 test_crypto \<lparr>material_version = 1, threshold_signature = [6]\<rparr>,
           verified_vrf_version = 1\<rparr>"
proof -
  have keys: "map entry_pubkey (committee four_snapshot) = [replicate 48 1, replicate 48 2, replicate 48 3, replicate 48 4]"
    by (simp add: four_snapshot_def)
  have msg: "take (Suc 0) (encode_proposal quorum_commonware (metadata_proposal (four_metadata block idxs))) = [block]"
    by (simp add: quorum_commonware_def metadata_proposal_def four_metadata_def)
  have same: "verify_same_message quorum_commonware ks ns m sig \<longleftrightarrow> sig = map hd ks @ take (Suc 0) m" for ks ns m sig
    by (simp add: quorum_commonware_def)
  have seed: "verify_threshold_vrf_proof quorum_commonware 9 gk sd \<lparr>material_version = 1, threshold_signature = [6]\<rparr> = Inr ()"
    for gk sd
    by (simp add: verify_threshold_vrf_proof_def verify_seed_signature_plain_def quorum_commonware_def)
  have four: "replicate (length (map entry_pubkey (committee four_snapshot))) 0 = [0, 0, 0, 0]"
    "simplex_n3f1_quorum (length (map entry_pubkey (committee four_snapshot))) = 3"
    by (simp_all add: keys simplex_n3f1_quorum_def)
  note simps = verify_v2_certificate_low_level_def four four_certificate_def same msg seed
  from assms show ?thesis
  proof (elim disjE)
    assume i: "idxs = [0, 1, 2]"
    show ?thesis unfolding i
      by (simp add: simps [unfolded i] keys Let_def simplex_n3f1_quorum_def) (simp add: four_metadata_def)
  next
    assume i: "idxs = [1, 2, 3]"
    show ?thesis unfolding i
      by (simp add: simps [unfolded i] keys Let_def simplex_n3f1_quorum_def) (simp add: four_metadata_def)
  qed
qed

lemma four_accepted:
  assumes "idxs = [0, 1, 2] \<or> idxs = [1, 2, 3]"
  shows "\<exists>v. verify_v2_proof test_crypto quorum_commonware 9 (four_metadata block idxs) four_snapshot
     (proof_bytes (four_metadata block idxs)) (replicate 32 block) = Inr v"
proof -
  have len: "length (committee four_snapshot) = 4" by (simp add: four_snapshot_def)
  have "check_binding test_crypto (four_metadata block idxs) four_snapshot (proof_bytes (four_metadata block idxs))
      (replicate 32 block) = Inr ()"
    by (simp add: check_binding_def four_metadata_def) (simp add: four_snapshot_def)
  moreover have "decode_min_sig_public test_crypto quorum_commonware (vrf_group_public_key_bytes four_snapshot) = Inr [1, 2, 3]"
    "list_all (decode_pubkey_ok quorum_commonware) (map entry_pubkey (committee four_snapshot))"
    by (simp_all add: decode_min_sig_public_def quorum_commonware_def test_commonware_def four_snapshot_def)
  moreover have "read_proof quorum_commonware (length (committee four_snapshot)) (four_metadata block idxs) =
      Inr (Finalize, metadata_proposal (four_metadata block idxs), four_certificate block idxs)"
    unfolding len using assms by (intro four_read) auto
  moreover note four_low_level [OF assms]
  moreover have "scan_bitmap 0 [] (signer_bitmap (four_metadata block idxs)) = Inr ()"
    using assms by (elim disjE) (simp_all add: four_metadata_def)
  moreover have "metadata_vrf_material_version (four_metadata block idxs) = 1" by (simp add: four_metadata_def)
  ultimately show ?thesis by (simp add: verify_v2_proof_def Let_def)
qed

text \<open>Members 1, 2 and 3 sign block 9: their signature and the seed are those of the proof bytes.\<close>

theorem verify_v2_proof_sound_witness:
  "\<exists>cert p. read_proof quorum_commonware 4 (four_metadata 9 [0, 1, 2]) =
       Inr (Finalize, metadata_proposal (four_metadata 9 [0, 1, 2]), cert) \<and>
     set (signers cert) = {i. i < 4 \<and> signer_bitmap (four_metadata 9 [0, 1, 2]) ! i = 1} \<and>
     verify_same_message quorum_commonware (map (\<lambda>i. entry_pubkey (committee four_snapshot ! i)) (signers cert))
       (vote_namespace test_crypto 9 Finalize (ordered_set quorum_commonware (map entry_pubkey (committee four_snapshot))))
       (encode_proposal quorum_commonware (metadata_proposal (four_metadata 9 [0, 1, 2]))) (bls_aggregated_vote cert) \<and>
     cert_vrf_proof cert = Some p \<and> threshold_signature p = [6]"
proof -
  obtain v where run: "verify_v2_proof test_crypto quorum_commonware 9 (four_metadata 9 [0, 1, 2]) four_snapshot
      (proof_bytes (four_metadata 9 [0, 1, 2])) (replicate 32 9) = Inr v"
    using four_accepted [of "[0, 1, 2]" 9] by auto
  have eqs: "length (committee four_snapshot) = 4" "metadata_subject (four_metadata 9 [0, 1, 2]) = Finalize"
    by (simp_all add: four_snapshot_def metadata_subject_def four_metadata_def)
  have seed: "verify_message_minsig quorum_commonware gk ns msg sig \<longleftrightarrow> sig = [6]" for gk ns msg sig
    by (simp add: quorum_commonware_def)
  from verify_v2_proof_sound [OF run quorum_commonware_distinct, unfolded eqs seed] show ?thesis
    by (elim conjE exE) (intro exI conjI)
qed

text \<open>
  Members 1, 2 and 3 sign block 9, members 2, 3 and 4 a conflicting block 8. With member 2 in the
  coalition, another member signed both.
\<close>

theorem accepted_proofs_overlap_witness:
  "\<exists>a \<in> {1, 3, 4}. voted test_crypto quorum_commonware 9 (four_metadata 9 [0, 1, 2]) four_snapshot a \<and>
     voted test_crypto quorum_commonware 9 (four_metadata 8 [1, 2, 3]) four_snapshot a"
proof -
  obtain v v' where run: "verify_v2_proof test_crypto quorum_commonware 9 (four_metadata 9 [0, 1, 2]) four_snapshot
      (proof_bytes (four_metadata 9 [0, 1, 2])) (replicate 32 9) = Inr v"
    "verify_v2_proof test_crypto quorum_commonware 9 (four_metadata 8 [1, 2, 3]) four_snapshot
      (proof_bytes (four_metadata 8 [1, 2, 3])) (replicate 32 8) = Inr v'"
    using four_accepted [of "[0, 1, 2]" 9] four_accepted [of "[1, 2, 3]" 8] by auto
  have oc: "ordered_committee (four_metadata block idxs) = [1, 2, 3, 4]" for block idxs
    by (simp add: four_metadata_def)
  have "\<exists>a \<in> set (ordered_committee (four_metadata 9 [0, 1, 2])) - {2}.
      voted test_crypto quorum_commonware 9 (four_metadata 9 [0, 1, 2]) four_snapshot a \<and>
      voted test_crypto quorum_commonware 9 (four_metadata 8 [1, 2, 3]) four_snapshot a"
    by (rule accepted_proofs_overlap [OF run quorum_commonware_distinct]) (simp_all add: oc)
  moreover have "set (ordered_committee (four_metadata 9 [0, 1, 2])) - {2} = {1, 3, 4}" by (auto simp: oc)
  ultimately show ?thesis by simp
qed

end
