(* ===== verification/Block_Artifacts.thy ===== *)
theory Block_Artifacts
  imports Committee_Snapshot Consensus_Metadata
begin

text \<open>
  The artifacts a block header carries in its extra data
  (\<^verbatim>\<open>crates/blockchain/primitives/src/reshare_artifact.rs\<close>): a tagged record list with the
  execution summary, the boundary outcome of a key generation or a dealer log, the
  late-finalize credits and the sub-second part of the timestamp. Encoder and decoder with
  every length and order check; the types are those of \<^verbatim>\<open>consensus.rs\<close>.
\<close>

section \<open>Types and constants\<close>

record tee_reshare_registration =
  reg_validator :: address
  reg_recipient_x25519 :: b256
  reg_attestation_pub :: b256
  reg_noise_static_pub :: b256

record dkg_boundary_artifact =
  boundary_epoch :: u64
  dkg_cycle :: u64
  freeze_height :: u64
  planned_activation_height :: u64
  target_set_hash :: b256
  boundary_vrf_material_version :: u64
  boundary_vrf_group_public_key :: b256
  boundary_vrf_group_public_key_bytes :: bytes
  boundary_committee_set_hash :: b256
  is_validator_set_change :: bool
  dkg_outcome :: bytes
  is_full_dkg :: bool
  reshare_new_active_set :: "address list"
  reshare_active_set_hash :: b256
  tee_recipient_pubkeys :: "(address \<times> b256) list"
  tee_reshare_registrations :: "tee_reshare_registration list"

datatype consensus_header_artifact = BoundaryOutcome dkg_boundary_artifact | DealerLog bytes

record outbe_block_artifacts =
  execution_summary :: "u256 option"
  header_artifact :: "consensus_header_artifact option"
  timestamp_millis_part :: u64
  late_finalize_credits :: "per_block_credit list option"

definition default_artifacts :: outbe_block_artifacts where
  "default_artifacts = \<lparr>execution_summary = None, header_artifact = None, timestamp_millis_part = 0,
     late_finalize_credits = None\<rparr>"

definition ARTIFACT_MAGIC :: bytes where "ARTIFACT_MAGIC = [79, 65, 82, 84]"
definition ARTIFACT_VERSION :: u8 where "ARTIFACT_VERSION = 8"
definition EXECUTION_SUMMARY_TAG :: u8 where [simp]: "EXECUTION_SUMMARY_TAG = 1"
definition BOUNDARY_TAG :: u8 where [simp]: "BOUNDARY_TAG = 2"
definition DEALER_LOG_TAG :: u8 where [simp]: "DEALER_LOG_TAG = 3"
definition TIMESTAMP_MILLIS_PART_TAG :: u8 where [simp]: "TIMESTAMP_MILLIS_PART_TAG = 5"
definition LATE_FINALIZE_CREDITS_TAG :: u8 where [simp]: "LATE_FINALIZE_CREDITS_TAG = 6"
definition LATE_FINALIZE_SIG_LEN :: nat where [simp]: "LATE_FINALIZE_SIG_LEN = 96"
definition LATE_FINALIZE_MAX_BITMAP_LEN :: nat where "LATE_FINALIZE_MAX_BITMAP_LEN = 32"
definition LATE_FINALIZE_WINDOW_K :: u64 where "LATE_FINALIZE_WINDOW_K = 3"
definition LATE_FINALIZE_MAX_BATCHES :: nat where
  "LATE_FINALIZE_MAX_BATCHES = unat LATE_FINALIZE_WINDOW_K"
definition PER_BLOCK_CREDIT_FIXED_LEN :: nat where
  "PER_BLOCK_CREDIT_FIXED_LEN = 8 + 32 + 8 + 8 + 8 + 32"
definition OUTBE_MAX_EXTRA_DATA_SIZE :: nat where "OUTBE_MAX_EXTRA_DATA_SIZE = 64 * 1024"

section \<open>Encoder\<close>

definition ensure_payload_fits_u16 :: "nat \<Rightarrow> unit result" where
  "ensure_payload_fits_u16 len =
     (if 65535 < len then Inl (Fatal ''payload exceeds u16 length limit'') else Inr ())"

definition encode_bool :: "bool \<Rightarrow> u8" where
  "encode_bool b = (if b then 1 else 0)"

definition encode_recipient :: "address \<times> b256 \<Rightarrow> bytes" where
  "encode_recipient = (\<lambda>(a, k). to_be_bytes 20 a @ k)"

definition encode_registration :: "tee_reshare_registration \<Rightarrow> bytes" where
  "encode_registration r =
     to_be_bytes 20 (reg_validator r) @ reg_recipient_x25519 r @ reg_attestation_pub r @ reg_noise_static_pub r"

definition boundary_payload :: "dkg_boundary_artifact \<Rightarrow> bytes" where
  "boundary_payload r =
     to_be_bytes 8 (boundary_epoch r) @ to_be_bytes 8 (dkg_cycle r) @
     to_be_bytes 8 (freeze_height r) @ to_be_bytes 8 (planned_activation_height r) @
     target_set_hash r @ to_be_bytes 8 (boundary_vrf_material_version r) @
     boundary_vrf_group_public_key r @ boundary_committee_set_hash r @
     [encode_bool (is_validator_set_change r), encode_bool (is_full_dkg r)] @
     reshare_active_set_hash r @
     encode_addresses (reshare_new_active_set r) @
     encode_bytes_u32 (dkg_outcome r) @
     encode_bytes_u32 (boundary_vrf_group_public_key_bytes r) @
     to_be_bytes 2 (word_of_nat (length (tee_recipient_pubkeys r)) :: u16) @
     concat (map encode_recipient (tee_recipient_pubkeys r)) @
     to_be_bytes 2 (word_of_nat (length (tee_reshare_registrations r)) :: u16) @
     concat (map encode_registration (tee_reshare_registrations r))"

definition encode_boundary_payload :: "dkg_boundary_artifact \<Rightarrow> bytes result" where
  "encode_boundary_payload r =
     and_then (ensure_count_fits_u16 (length (reshare_new_active_set r))) (\<lambda>_.
     and_then (ensure_len_fits_u32 (length (dkg_outcome r))) (\<lambda>_.
     and_then (ensure_len_fits_u32 (length (boundary_vrf_group_public_key_bytes r))) (\<lambda>_.
     and_then (ensure_count_fits_u16 (length (tee_recipient_pubkeys r))) (\<lambda>_.
     and_then (ensure_count_fits_u16 (length (tee_reshare_registrations r))) (\<lambda>_.
       Inr (boundary_payload r))))))"

definition header_record :: "consensus_header_artifact \<Rightarrow> (u8 \<times> bytes) result" where
  "header_record h =
     (case h of
        BoundaryOutcome r \<Rightarrow> and_then (encode_boundary_payload r) (\<lambda>payload. Inr (BOUNDARY_TAG, payload))
      | DealerLog log \<Rightarrow>
          and_then (ensure_payload_fits_u16 (length log)) (\<lambda>_. Inr (DEALER_LOG_TAG, log)))"

definition credit_key :: "per_block_credit \<Rightarrow> u64 \<times> b256" where
  "credit_key credit = (fb_number credit, fb_hash credit)"

definition encode_credit :: "per_block_credit \<Rightarrow> bytes" where
  "encode_credit credit =
     to_be_bytes 8 (fb_number credit) @ fb_hash credit @ to_be_bytes 8 (credit_epoch credit) @
     to_be_bytes 8 (credit_view credit) @ to_be_bytes 8 (credit_parent_view credit) @
     credit_committee_set_hash credit @
     to_be_bytes 2 (word_of_nat (length (credit_signer_bitmap credit)) :: u16) @
     credit_signer_bitmap credit @ aggregate_signature credit"

definition ascending :: "(u64 \<times> b256) option \<Rightarrow> u64 \<times> b256 \<Rightarrow> bool" where
  "ascending prev key = (case prev of None \<Rightarrow> True | Some p \<Rightarrow> \<not> key \<le> p)"

fun encode_credits :: "(u64 \<times> b256) option \<Rightarrow> per_block_credit list \<Rightarrow> bytes result" where
  "encode_credits prev [] = Inr []"
| "encode_credits prev (credit # rest) =
     (if \<not> ascending prev (credit_key credit)
      then Inl (Fatal ''late finalize batches not in strictly ascending canonical order'')
      else if LATE_FINALIZE_MAX_BITMAP_LEN < length (credit_signer_bitmap credit)
      then Inl (Fatal ''late finalize bitmap too long'')
      else and_then (encode_credits (Some (credit_key credit)) rest) (\<lambda>bs.
        Inr (encode_credit credit @ bs)))"

definition credits_record :: "per_block_credit list \<Rightarrow> (u8 \<times> bytes) result" where
  "credits_record batches =
     and_then (ensure_count_fits_u16 (length batches)) (\<lambda>_.
       if LATE_FINALIZE_MAX_BATCHES < length batches then Inl (Fatal ''too many late finalize batches'')
       else and_then (encode_credits None batches) (\<lambda>bs.
         Inr (LATE_FINALIZE_CREDITS_TAG, to_be_bytes 2 (word_of_nat (length batches) :: u16) @ bs)))"

text \<open>The records of the optional parts, in the order the encoder pushes them.\<close>

definition artifact_records :: "outbe_block_artifacts \<Rightarrow> (u8 \<times> bytes) list result" where
  "artifact_records a =
     (let summary = (case execution_summary a of
            None \<Rightarrow> [] | Some fees \<Rightarrow> [(EXECUTION_SUMMARY_TAG, to_be_bytes 32 fees)])
      in and_then
           (case header_artifact a of None \<Rightarrow> Inr [] | Some h \<Rightarrow> and_then (header_record h) (\<lambda>r. Inr [r]))
           (\<lambda>header.
         and_then
           (case late_finalize_credits a of
              None \<Rightarrow> Inr []
            | Some batches \<Rightarrow>
                if batches = [] then Inr [] else and_then (credits_record batches) (\<lambda>r. Inr [r]))
           (\<lambda>credits.
             Inr (summary @ header @ credits @
               (if timestamp_millis_part a \<noteq> 0
                then [(TIMESTAMP_MILLIS_PART_TAG, to_be_bytes 8 (timestamp_millis_part a))] else [])))))"

definition encode_record :: "u8 \<times> bytes \<Rightarrow> bytes" where
  "encode_record = (\<lambda>(tag, payload). tag # to_be_bytes 2 (word_of_nat (length payload) :: u16) @ payload)"

definition encode_outbe_block_artifacts :: "outbe_block_artifacts \<Rightarrow> bytes result" where
  "encode_outbe_block_artifacts a =
     and_then (artifact_records a) (\<lambda>records.
       if records = [] then Inr []
       else if 255 < length records then Inl (Fatal ''too many block artifact records'')
       else
         and_then (fold_res (\<lambda>(_, payload) acc.
             and_then (ensure_payload_fits_u16 (length payload)) (\<lambda>_. Inr (acc + (1 + 2 + length payload))))
           records 0) (\<lambda>payload_len.
           if OUTBE_MAX_EXTRA_DATA_SIZE < 4 + 1 + 1 + payload_len
           then Inl (Fatal ''block artifacts exceed extra_data budget'')
           else Inr (ARTIFACT_MAGIC @ [ARTIFACT_VERSION, word_of_nat (length records)] @
             concat (map encode_record records))))"

section \<open>Decoder\<close>

definition decode_execution_summary :: "bytes \<Rightarrow> u256 result" where
  "decode_execution_summary payload =
     (if length payload \<noteq> 32 then Inl (Fatal ''invalid execution summary artifact length'')
      else Inr (from_be_bytes payload))"

text \<open>
  The readers below index the payload after a length check; the check is the guard, the
  reads behind it never fail.
\<close>

definition guard_len :: "string \<Rightarrow> nat \<Rightarrow> bytes \<Rightarrow> unit result" where
  "guard_len msg n bs = (if length bs < n then Inl (Fatal msg) else Inr ())"

definition read_credit :: "bytes \<Rightarrow> (per_block_credit \<times> bytes) result" where
  "read_credit bs =
     (let err = Fatal ''truncated late finalize credit prefix''; err' = Fatal ''truncated late finalize credit body''
      in and_then (guard_len ''truncated late finalize credit prefix'' (PER_BLOCK_CREDIT_FIXED_LEN + 2) bs) (\<lambda>_.
         and_then (read_be err 8 bs) (\<lambda>(number, bs).
         and_then (read_exact err 32 bs) (\<lambda>(hash, bs).
         and_then (read_be err 8 bs) (\<lambda>(epoch, bs).
         and_then (read_be err 8 bs) (\<lambda>(view, bs).
         and_then (read_be err 8 bs) (\<lambda>(pview, bs).
         and_then (read_exact err 32 bs) (\<lambda>(set_hash, bs).
         and_then (read_be err 2 bs) (\<lambda>(bitmap_len :: u16, bs).
           if LATE_FINALIZE_MAX_BITMAP_LEN < unat bitmap_len then Inl (Fatal ''late finalize bitmap too long'')
           else
             and_then (guard_len ''truncated late finalize credit body'' (unat bitmap_len + LATE_FINALIZE_SIG_LEN) bs) (\<lambda>_.
             and_then (read_exact err' (unat bitmap_len) bs) (\<lambda>(bitmap, bs).
             and_then (read_exact err' LATE_FINALIZE_SIG_LEN bs) (\<lambda>(sig, bs).
               Inr (\<lparr>fb_number = number, fb_hash = hash, credit_epoch = epoch, credit_view = view,
                     credit_parent_view = pview, credit_committee_set_hash = set_hash,
                     credit_signer_bitmap = bitmap, aggregate_signature = sig\<rparr>, bs)))))))))))))"

fun read_credits :: "(u64 \<times> b256) option \<Rightarrow> nat \<Rightarrow> bytes \<Rightarrow> (per_block_credit list \<times> bytes) result" where
  "read_credits prev 0 bs = Inr ([], bs)"
| "read_credits prev (Suc n) bs =
     and_then (read_credit bs) (\<lambda>(credit, bs).
       if \<not> ascending prev (credit_key credit)
       then Inl (Fatal ''late finalize batches not in strictly ascending canonical order'')
       else and_then (read_credits (Some (credit_key credit)) n bs) (\<lambda>(credits, bs).
         Inr (credit # credits, bs)))"

definition decode_late_finalize_credits :: "bytes \<Rightarrow> per_block_credit list result" where
  "decode_late_finalize_credits payload =
     and_then (read_be (Fatal ''late finalize credits payload too short'') 2 payload) (\<lambda>(count :: u16, bs).
       if LATE_FINALIZE_MAX_BATCHES < unat count then Inl (Fatal ''too many late finalize batches'')
       else and_then (read_credits None (unat count) bs) (\<lambda>(batches, bs).
         if bs \<noteq> [] then Inl (Fatal ''trailing bytes in late finalize credits payload'')
         else Inr batches))"

definition decode_bool :: "string \<Rightarrow> u8 \<Rightarrow> bool result" where
  "decode_bool msg b = (if b = 0 then Inr False else if b = 1 then Inr True else Inl (Fatal msg))"

definition BOUNDARY_MIN_LEN :: nat where
  "BOUNDARY_MIN_LEN = 8 + 8 + 8 + 8 + 32 + 8 + 32 + 32 + 1 + 1 + 32 + 2 + 4 + 4"

definition read_recipient :: "bytes \<Rightarrow> ((address \<times> b256) \<times> bytes) result" where
  "read_recipient bs =
     (let err = Fatal ''invalid boundary header artifact payload length''
      in and_then (read_be err 20 bs) (\<lambda>(a, bs).
         and_then (read_exact err 32 bs) (\<lambda>(k, bs). Inr ((a, k), bs))))"

definition read_registration :: "bytes \<Rightarrow> (tee_reshare_registration \<times> bytes) result" where
  "read_registration bs =
     (let err = Fatal ''invalid boundary header artifact payload length''
      in and_then (read_be err 20 bs) (\<lambda>(a, bs).
         and_then (read_exact err 32 bs) (\<lambda>(k1, bs).
         and_then (read_exact err 32 bs) (\<lambda>(k2, bs).
         and_then (read_exact err 32 bs) (\<lambda>(k3, bs).
           Inr (\<lparr>reg_validator = a, reg_recipient_x25519 = k1, reg_attestation_pub = k2,
                 reg_noise_static_pub = k3\<rparr>, bs))))))"

text \<open>The part of the boundary payload before the address list.\<close>

definition read_boundary_head ::
  "bytes \<Rightarrow> ((u64 \<times> u64 \<times> u64 \<times> u64 \<times> b256 \<times> u64 \<times> b256 \<times> b256 \<times> bool \<times> bool \<times> b256) \<times> bytes) result" where
  "read_boundary_head bs =
     (let err = Fatal ''boundary header artifact payload too short''
      in and_then (guard_len ''boundary header artifact payload too short'' BOUNDARY_MIN_LEN bs) (\<lambda>_.
         and_then (read_be (Fatal ''unexpected EOF reading boundary epoch'') 8 bs) (\<lambda>(epoch, bs).
         and_then (read_be (Fatal ''unexpected EOF reading boundary dkg cycle'') 8 bs) (\<lambda>(cycle, bs).
         and_then (read_be (Fatal ''unexpected EOF reading boundary freeze height'') 8 bs) (\<lambda>(freeze, bs).
         and_then (read_be (Fatal ''unexpected EOF reading boundary planned activation height'') 8 bs) (\<lambda>(planned, bs).
         and_then (read_exact err 32 bs) (\<lambda>(target, bs).
         and_then (read_be (Fatal ''unexpected EOF reading boundary vrf material version'') 8 bs) (\<lambda>(version, bs).
         and_then (read_exact err 32 bs) (\<lambda>(group_pk, bs).
         and_then (read_exact err 32 bs) (\<lambda>(set_hash, bs).
         and_then (read_u8 err bs) (\<lambda>(change, bs).
         and_then (decode_bool ''invalid boundary is_validator_set_change flag'' change) (\<lambda>change.
         and_then (read_u8 err bs) (\<lambda>(full, bs).
         and_then (decode_bool ''invalid boundary is_full_dkg flag'' full) (\<lambda>full.
         and_then (read_exact err 32 bs) (\<lambda>(active_hash, bs).
           Inr ((epoch, cycle, freeze, planned, target, version, group_pk, set_hash, change, full, active_hash),
             bs))))))))))))))))"

definition read_boundary_tail ::
  "bytes \<Rightarrow> ((address list \<times> bytes \<times> bytes \<times> (address \<times> b256) list \<times> tee_reshare_registration list) \<times> bytes) result" where
  "read_boundary_tail bs =
     (let msg = ''invalid boundary header artifact payload length''; err = Fatal msg
      in and_then (read_be err 2 bs) (\<lambda>(count :: u16, bs).
         and_then (guard_len msg (unat count * 20 + 4) bs) (\<lambda>_.
         and_then (read_exact err (unat count * 20) bs) (\<lambda>(addrs, bs).
         and_then (read_be err 4 bs) (\<lambda>(outcome_len :: u32, bs).
         and_then (guard_len msg (unat outcome_len + 4) bs) (\<lambda>_.
         and_then (read_exact err (unat outcome_len) bs) (\<lambda>(outcome, bs).
         and_then (read_be err 4 bs) (\<lambda>(pk_len :: u32, bs).
         and_then (read_exact err (unat pk_len) bs) (\<lambda>(pk, bs).
         and_then (guard_len ''invalid boundary header artifact: missing tee recipient count'' 2 bs) (\<lambda>_.
         and_then (read_be err 2 bs) (\<lambda>(tee_count :: u16, bs).
         and_then (guard_len msg (unat tee_count * (20 + 32) + 2) bs) (\<lambda>_.
         and_then (read_n read_recipient (unat tee_count) bs) (\<lambda>(recipients, bs).
         and_then (read_be err 2 bs) (\<lambda>(reshare_count :: u16, bs).
           if length bs \<noteq> unat reshare_count * (20 + 32 + 32 + 32) then Inl err
           else and_then (read_n read_registration (unat reshare_count) bs) (\<lambda>(regs, bs).
             Inr ((chunk_addresses (unat count) addrs, outcome, pk, recipients, regs), bs))))))))))))))))"

definition decode_boundary_payload :: "bytes \<Rightarrow> dkg_boundary_artifact result" where
  "decode_boundary_payload payload =
     and_then (read_boundary_head payload)
       (\<lambda>((epoch, cycle, freeze, planned, target, version, group_pk, set_hash, change, full, active_hash), bs).
     and_then (read_boundary_tail bs) (\<lambda>((addrs, outcome, pk, recipients, regs), bs).
       Inr \<lparr>boundary_epoch = epoch, dkg_cycle = cycle, freeze_height = freeze, planned_activation_height = planned,
            target_set_hash = target, boundary_vrf_material_version = version,
            boundary_vrf_group_public_key = group_pk, boundary_vrf_group_public_key_bytes = pk,
            boundary_committee_set_hash = set_hash, is_validator_set_change = change, dkg_outcome = outcome,
            is_full_dkg = full, reshare_new_active_set = addrs, reshare_active_set_hash = active_hash,
            tee_recipient_pubkeys = recipients, tee_reshare_registrations = regs\<rparr>))"

text \<open>One record: its payload goes to the field of its tag.\<close>

definition decode_record :: "u8 \<Rightarrow> bytes \<Rightarrow> outbe_block_artifacts \<Rightarrow> outbe_block_artifacts result" where
  "decode_record tag payload a =
     (if tag = EXECUTION_SUMMARY_TAG then
        if execution_summary a \<noteq> None then Inl (Fatal ''duplicate execution summary artifact'')
        else and_then (decode_execution_summary payload) (\<lambda>s. Inr (a\<lparr>execution_summary := Some s\<rparr>))
      else if tag = BOUNDARY_TAG then
        if header_artifact a \<noteq> None then Inl (Fatal ''duplicate consensus header artifact'')
        else and_then (decode_boundary_payload payload) (\<lambda>r. Inr (a\<lparr>header_artifact := Some (BoundaryOutcome r)\<rparr>))
      else if tag = DEALER_LOG_TAG then
        if header_artifact a \<noteq> None then Inl (Fatal ''duplicate consensus header artifact'')
        else Inr (a\<lparr>header_artifact := Some (DealerLog payload)\<rparr>)
      else if tag = TIMESTAMP_MILLIS_PART_TAG then
        if timestamp_millis_part a \<noteq> 0 then Inl (Fatal ''duplicate timestamp_millis_part'')
        else if length payload \<noteq> 8 then Inl (Fatal ''timestamp_millis_part payload length'')
        else Inr (a\<lparr>timestamp_millis_part := from_be_bytes payload\<rparr>)
      else if tag = LATE_FINALIZE_CREDITS_TAG then
        if late_finalize_credits a \<noteq> None then Inl (Fatal ''duplicate late finalize credits artifact'')
        else and_then (decode_late_finalize_credits payload) (\<lambda>cs. Inr (a\<lparr>late_finalize_credits := Some cs\<rparr>))
      else Inl (Fatal ''unsupported block artifact tag''))"

definition read_record :: "bytes \<Rightarrow> ((u8 \<times> bytes) \<times> bytes) result" where
  "read_record bs =
     (let err = Fatal ''truncated block artifact record header''
      in and_then (guard_len ''truncated block artifact record header'' 3 bs) (\<lambda>_.
         and_then (read_u8 err bs) (\<lambda>(tag, bs).
         and_then (read_be err 2 bs) (\<lambda>(len :: u16, bs).
         and_then (read_exact (Fatal ''truncated block artifact record payload'') (unat len) bs) (\<lambda>(payload, bs).
           Inr ((tag, payload), bs))))))"

fun decode_records :: "nat \<Rightarrow> bytes \<Rightarrow> outbe_block_artifacts \<Rightarrow> (outbe_block_artifacts \<times> bytes) result" where
  "decode_records 0 bs a = Inr (a, bs)"
| "decode_records (Suc n) bs a =
     and_then (read_record bs) (\<lambda>((tag, payload), bs).
     and_then (decode_record tag payload a) (decode_records n bs))"

definition decode_outbe_block_artifacts :: "bytes \<Rightarrow> outbe_block_artifacts result" where
  "decode_outbe_block_artifacts bs =
     (if bs = [] then Inr default_artifacts
      else if length bs < 4 + 1 + 1 then Inl (Fatal ''block artifacts too short'')
      else if take 4 bs \<noteq> ARTIFACT_MAGIC then Inl (Fatal ''unknown non-empty extra_data block artifact'')
      else if bs ! 4 \<noteq> ARTIFACT_VERSION then Inl (Fatal ''unsupported block artifact version'')
      else and_then (decode_records (unat (bs ! 5)) (drop 6 bs) default_artifacts) (\<lambda>(a, rest).
        if rest \<noteq> [] then Inl (Fatal ''trailing bytes in block artifacts'') else Inr a))"

section \<open>Standalone forms\<close>

definition encode_consensus_header_artifact :: "consensus_header_artifact \<Rightarrow> bytes result" where
  "encode_consensus_header_artifact h =
     encode_outbe_block_artifacts (default_artifacts\<lparr>header_artifact := Some h\<rparr>)"

definition decode_consensus_header_artifact :: "bytes \<Rightarrow> consensus_header_artifact option result" where
  "decode_consensus_header_artifact bs =
     and_then (decode_outbe_block_artifacts bs) (\<lambda>a. Inr (header_artifact a))"

definition encode_boundary_artifact :: "dkg_boundary_artifact \<Rightarrow> bytes result" where
  "encode_boundary_artifact r = encode_consensus_header_artifact (BoundaryOutcome r)"

definition decode_boundary_artifact :: "bytes \<Rightarrow> dkg_boundary_artifact option result" where
  "decode_boundary_artifact bs =
     and_then (decode_consensus_header_artifact bs) (\<lambda>h.
       Inr (case h of Some (BoundaryOutcome r) \<Rightarrow> Some r | _ \<Rightarrow> None))"

definition encode_late_finalize_credits_artifact :: "per_block_credit list \<Rightarrow> bytes result" where
  "encode_late_finalize_credits_artifact batches =
     encode_outbe_block_artifacts (default_artifacts\<lparr>late_finalize_credits := Some batches\<rparr>)"

definition decode_late_finalize_credits_artifact :: "bytes \<Rightarrow> per_block_credit list option result" where
  "decode_late_finalize_credits_artifact bs =
     and_then (decode_outbe_block_artifacts bs) (\<lambda>a. Inr (late_finalize_credits a))"

section \<open>Well-formed artifacts\<close>

text \<open>What the Rust types say: hashes and keys of 32 bytes, signatures of 96.\<close>

definition wf_credit :: "per_block_credit \<Rightarrow> bool" where
  "wf_credit credit \<longleftrightarrow> length (fb_hash credit) = 32 \<and> length (credit_committee_set_hash credit) = 32 \<and>
     length (credit_signer_bitmap credit) \<le> LATE_FINALIZE_MAX_BITMAP_LEN \<and>
     length (aggregate_signature credit) = LATE_FINALIZE_SIG_LEN"

definition wf_registration :: "tee_reshare_registration \<Rightarrow> bool" where
  "wf_registration r \<longleftrightarrow> length (reg_recipient_x25519 r) = 32 \<and> length (reg_attestation_pub r) = 32 \<and>
     length (reg_noise_static_pub r) = 32"

definition boundary_types :: "dkg_boundary_artifact \<Rightarrow> bool" where
  "boundary_types r \<longleftrightarrow> length (target_set_hash r) = 32 \<and> length (boundary_vrf_group_public_key r) = 32 \<and>
     length (boundary_committee_set_hash r) = 32 \<and> length (reshare_active_set_hash r) = 32 \<and>
     (\<forall>p\<in>set (tee_recipient_pubkeys r). length (snd p) = 32) \<and>
     (\<forall>g\<in>set (tee_reshare_registrations r). wf_registration g)"

definition wf_boundary :: "dkg_boundary_artifact \<Rightarrow> bool" where
  "wf_boundary r \<longleftrightarrow> boundary_types r \<and>
     length (reshare_new_active_set r) < 2 ^ 16 \<and> length (dkg_outcome r) < 2 ^ 32 \<and>
     length (boundary_vrf_group_public_key_bytes r) < 2 ^ 32 \<and>
     length (tee_recipient_pubkeys r) < 2 ^ 16 \<and> length (tee_reshare_registrations r) < 2 ^ 16"

definition artifact_types :: "outbe_block_artifacts \<Rightarrow> bool" where
  "artifact_types a \<longleftrightarrow>
     (case header_artifact a of Some (BoundaryOutcome r) \<Rightarrow> boundary_types r | _ \<Rightarrow> True) \<and>
     (case late_finalize_credits a of
        None \<Rightarrow> True
      | Some cs \<Rightarrow> \<forall>c\<in>set cs. length (fb_hash c) = 32 \<and> length (credit_committee_set_hash c) = 32 \<and>
          length (aggregate_signature c) = LATE_FINALIZE_SIG_LEN)"

section \<open>Late-finalize credits\<close>

lemma guard_len_Inr: "guard_len msg n bs = Inr u \<longleftrightarrow> n \<le> length bs"
  by (auto simp: guard_len_def)

lemma guard_len_append [simp]: "n \<le> length bs \<Longrightarrow> guard_len msg n bs = Inr ()"
  by (simp add: guard_len_def)

lemma unat_u16_of_nat: "n \<le> 32 \<Longrightarrow> unat (word_of_nat n :: u16) = n"
  by (simp add: unat_of_nat)

interpretation credit: codec encode_credit read_credit wf_credit
proof
  fix credit rest assume wf: "wf_credit credit"
  then have len: "unat (word_of_nat (length (credit_signer_bitmap credit)) :: u16)
      = length (credit_signer_bitmap credit)"
    by (simp add: wf_credit_def LATE_FINALIZE_MAX_BITMAP_LEN_def unat_u16_of_nat)
  show "read_credit (encode_credit credit @ rest) = Inr (credit, rest)"
    using wf len unfolding wf_credit_def read_credit_def encode_credit_def Let_def
    by (simp add: PER_BLOCK_CREDIT_FIXED_LEN_def)
next
  fix bs credit rest assume "read_credit bs = Inr (credit, rest)"
  then show "wf_credit credit \<and> bs = encode_credit credit @ rest"
    unfolding wf_credit_def read_credit_def encode_credit_def Let_def
    by (auto simp: and_then_eq_Inr guard_len_Inr word_of_nat_eq_iff split: if_splits
        dest!: read_be_Inr read_exact_Inr)
qed

text \<open>Strictly ascending keys after a previous key.\<close>

fun ascending_from :: "(u64 \<times> b256) option \<Rightarrow> per_block_credit list \<Rightarrow> bool" where
  "ascending_from prev [] = True"
| "ascending_from prev (c # cs) = (ascending prev (credit_key c) \<and> ascending_from (Some (credit_key c)) cs)"

lemma encode_credits_Inr:
  "encode_credits prev cs = Inr bs \<longleftrightarrow> ascending_from prev cs \<and>
     (\<forall>c\<in>set cs. length (credit_signer_bitmap c) \<le> LATE_FINALIZE_MAX_BITMAP_LEN) \<and>
     bs = concat (map encode_credit cs)"
  by (induction cs arbitrary: prev bs) (auto simp: and_then_eq_Inr)

lemma read_credits_encode:
  "ascending_from prev cs \<Longrightarrow> \<forall>c\<in>set cs. wf_credit c \<Longrightarrow>
   read_credits prev (length cs) (concat (map encode_credit cs) @ rest) = Inr (cs, rest)"
  by (induction cs arbitrary: prev) (simp_all add: credit.dec_enc)

lemma read_credits_Inr:
  "read_credits prev n bs = Inr (cs, rest) \<Longrightarrow> length cs = n \<and> ascending_from prev cs \<and>
     (\<forall>c\<in>set cs. wf_credit c) \<and> bs = concat (map encode_credit cs) @ rest"
proof (induction n arbitrary: prev bs cs)
  case (Suc n)
  from Suc.prems obtain c bs' cs' where c: "read_credit bs = Inr (c, bs')" "ascending prev (credit_key c)"
    "read_credits (Some (credit_key c)) n bs' = Inr (cs', rest)" "cs = c # cs'"
    by (auto simp: and_then_eq_Inr)
  from Suc.IH [OF c(3)] credit.dec_canonical [OF c(1)] c(2,4) show ?case by auto
qed simp

lemma ascending_from_sorted:
  "ascending_from prev cs \<Longrightarrow> sorted_wrt (<) (map credit_key cs) \<and>
     (case prev of None \<Rightarrow> True | Some p \<Rightarrow> \<forall>c\<in>set cs. p < credit_key c)"
proof (induction cs arbitrary: prev)
  case Nil
  then show ?case by (simp split: option.split)
next
  case (Cons c cs)
  from Cons.prems Cons.IH [of "Some (credit_key c)"] show ?case
    by (auto simp: ascending_def not_le split: option.splits)
qed

lemma decode_credits_Inr:
  "decode_late_finalize_credits payload = Inr cs \<longleftrightarrow>
     length cs \<le> LATE_FINALIZE_MAX_BATCHES \<and> ascending_from None cs \<and> (\<forall>c\<in>set cs. wf_credit c) \<and>
     payload = to_be_bytes 2 (word_of_nat (length cs) :: u16) @ concat (map encode_credit cs)"
proof
  assume "decode_late_finalize_credits payload = Inr cs"
  then obtain count :: u16 and bs where "read_be (Fatal ''late finalize credits payload too short'') 2 payload = Inr (count, bs)"
    "unat count \<le> LATE_FINALIZE_MAX_BATCHES" "read_credits None (unat count) bs = Inr (cs, [])"
    by (auto simp: decode_late_finalize_credits_def and_then_eq_Inr)
  then show "length cs \<le> LATE_FINALIZE_MAX_BATCHES \<and> ascending_from None cs \<and> (\<forall>c\<in>set cs. wf_credit c) \<and>
     payload = to_be_bytes 2 (word_of_nat (length cs) :: u16) @ concat (map encode_credit cs)"
    by (auto dest!: read_be_Inr read_credits_Inr)
next
  assume r: "length cs \<le> LATE_FINALIZE_MAX_BATCHES \<and> ascending_from None cs \<and> (\<forall>c\<in>set cs. wf_credit c) \<and>
     payload = to_be_bytes 2 (word_of_nat (length cs) :: u16) @ concat (map encode_credit cs)"
  then have "unat (word_of_nat (length cs) :: u16) = length cs"
    by (simp add: LATE_FINALIZE_MAX_BATCHES_def LATE_FINALIZE_WINDOW_K_def unat_u16_of_nat)
  with r read_credits_encode [of None cs "[]"] show "decode_late_finalize_credits payload = Inr cs"
    by (simp add: decode_late_finalize_credits_def)
qed

section \<open>Boundary outcomes\<close>

interpretation recipient: codec encode_recipient read_recipient "\<lambda>p. length (snd p) = 32"
proof
  show "read_recipient (encode_recipient x @ rest) = Inr (x, rest)" if "length (snd x) = 32" for x rest
    using that by (cases x) (simp add: read_recipient_def encode_recipient_def Let_def)
  show "length (snd x) = 32 \<and> bs = encode_recipient x @ rest" if "read_recipient bs = Inr (x, rest)" for bs x rest
    using that by (auto simp: read_recipient_def encode_recipient_def Let_def and_then_eq_Inr
        dest!: read_be_Inr read_exact_Inr)
qed

interpretation registration: codec encode_registration read_registration wf_registration
proof
  show "read_registration (encode_registration x @ rest) = Inr (x, rest)" if "wf_registration x" for x rest
    using that by (simp add: read_registration_def encode_registration_def wf_registration_def Let_def)
  show "wf_registration x \<and> bs = encode_registration x @ rest" if "read_registration bs = Inr (x, rest)" for bs x rest
    using that by (auto simp: read_registration_def encode_registration_def wf_registration_def Let_def
        and_then_eq_Inr dest!: read_be_Inr read_exact_Inr)
qed

lemma length_encode_recipients:
  "\<forall>p\<in>set ps. length (snd p) = 32 \<Longrightarrow> length (concat (map encode_recipient ps)) = length ps * (20 + 32)"
  by (induction ps) (auto simp: encode_recipient_def)

lemma length_encode_registrations:
  "\<forall>p\<in>set ps. wf_registration p \<Longrightarrow>
   length (concat (map encode_registration ps)) = length ps * (20 + 32 + 32 + 32)"
  by (induction ps) (auto simp: encode_registration_def wf_registration_def)

lemma decode_bool_encode [simp]: "decode_bool msg (encode_bool b) = Inr b"
  by (simp add: decode_bool_def encode_bool_def)

lemma decode_bool_Inr: "decode_bool msg x = Inr b \<Longrightarrow> x = encode_bool b"
  by (auto simp: decode_bool_def encode_bool_def split: if_splits)

text \<open>The two halves of the payload.\<close>

definition boundary_head :: "dkg_boundary_artifact \<Rightarrow> bytes" where
  "boundary_head r =
     to_be_bytes 8 (boundary_epoch r) @ to_be_bytes 8 (dkg_cycle r) @
     to_be_bytes 8 (freeze_height r) @ to_be_bytes 8 (planned_activation_height r) @
     target_set_hash r @ to_be_bytes 8 (boundary_vrf_material_version r) @
     boundary_vrf_group_public_key r @ boundary_committee_set_hash r @
     encode_bool (is_validator_set_change r) # encode_bool (is_full_dkg r) # reshare_active_set_hash r"

definition boundary_tail :: "dkg_boundary_artifact \<Rightarrow> bytes" where
  "boundary_tail r =
     encode_addresses (reshare_new_active_set r) @
     encode_bytes_u32 (dkg_outcome r) @
     encode_bytes_u32 (boundary_vrf_group_public_key_bytes r) @
     to_be_bytes 2 (word_of_nat (length (tee_recipient_pubkeys r)) :: u16) @
     concat (map encode_recipient (tee_recipient_pubkeys r)) @
     to_be_bytes 2 (word_of_nat (length (tee_reshare_registrations r)) :: u16) @
     concat (map encode_registration (tee_reshare_registrations r))"

lemma boundary_payload_split: "boundary_payload r = boundary_head r @ boundary_tail r"
  by (simp add: boundary_payload_def boundary_head_def boundary_tail_def)

lemma read_boundary_head_encode:
  assumes "wf_boundary r" and "10 \<le> length rest"
  shows "read_boundary_head (boundary_head r @ rest) =
    Inr ((boundary_epoch r, dkg_cycle r, freeze_height r, planned_activation_height r, target_set_hash r,
      boundary_vrf_material_version r, boundary_vrf_group_public_key r, boundary_committee_set_hash r,
      is_validator_set_change r, is_full_dkg r, reshare_active_set_hash r), rest)"
  using assms unfolding wf_boundary_def boundary_types_def read_boundary_head_def boundary_head_def Let_def
  by (simp add: BOUNDARY_MIN_LEN_def)

lemma read_boundary_tail_encode:
  assumes "wf_boundary r"
  shows "read_boundary_tail (boundary_tail r) =
    Inr ((reshare_new_active_set r, dkg_outcome r, boundary_vrf_group_public_key_bytes r,
      tee_recipient_pubkeys r, tee_reshare_registrations r), [])"
proof -
  have wf: "length (reshare_new_active_set r) < 2 ^ 16" "length (dkg_outcome r) < 2 ^ 32"
    "length (boundary_vrf_group_public_key_bytes r) < 2 ^ 32" "length (tee_recipient_pubkeys r) < 2 ^ 16"
    "length (tee_reshare_registrations r) < 2 ^ 16"
    and recs: "\<forall>p\<in>set (tee_recipient_pubkeys r). length (snd p) = 32"
    and regs: "\<forall>g\<in>set (tee_reshare_registrations r). wf_registration g"
    using assms by (simp_all add: wf_boundary_def boundary_types_def)
  note counts = wf(1,4,5) [simplified, THEN unat_word_of_nat_exact [where 'n = 16, simplified]]
    wf(2,3) [simplified, THEN unat_word_of_nat_exact [where 'n = 32, simplified]]
  show ?thesis
    unfolding read_boundary_tail_def boundary_tail_def encode_addresses_def encode_bytes_u32_def Let_def
    by (simp add: counts length_encode_address_list length_encode_recipients [OF recs]
        length_encode_registrations [OF regs, simplified] recipient.read_n_enc [OF recs]
        registration.read_n_enc [OF regs, where rest = "[]", simplified] chunk_encoded_addresses)
qed

lemma length_boundary_tail: "10 \<le> length (boundary_tail r)"
  by (simp add: boundary_tail_def encode_addresses_def encode_bytes_u32_def)

lemma decode_boundary_encode: "wf_boundary r \<Longrightarrow> decode_boundary_payload (boundary_payload r) = Inr r"
  by (simp add: decode_boundary_payload_def boundary_payload_split read_boundary_head_encode
      read_boundary_tail_encode length_boundary_tail)

lemma read_boundary_head_Inr:
  assumes "read_boundary_head bs = Inr ((e, cy, fr, pl, tg, v, pk, sh, ch, fu, ah), rest)"
  shows "length tg = 32 \<and> length pk = 32 \<and> length sh = 32 \<and> length ah = 32 \<and>
    bs = to_be_bytes 8 e @ to_be_bytes 8 cy @ to_be_bytes 8 fr @ to_be_bytes 8 pl @ tg @ to_be_bytes 8 v @ pk @ sh @
      encode_bool ch # encode_bool fu # ah @ rest"
  using assms unfolding read_boundary_head_def Let_def
  by (auto simp: and_then_eq_Inr dest!: read_be_Inr read_exact_Inr read_u8_Inr decode_bool_Inr)

lemma read_boundary_tail_Inr:
  assumes "read_boundary_tail bs = Inr ((as, out, pk, recs, regs), rest)"
  shows "rest = [] \<and> length as < 2 ^ 16 \<and> length out < 2 ^ 32 \<and> length pk < 2 ^ 32 \<and> length recs < 2 ^ 16 \<and>
    (\<forall>p\<in>set recs. length (snd p) = 32) \<and> length regs < 2 ^ 16 \<and> (\<forall>g\<in>set regs. wf_registration g) \<and>
    bs = encode_addresses as @ encode_bytes_u32 out @ encode_bytes_u32 pk @
      to_be_bytes 2 (word_of_nat (length recs) :: u16) @ concat (map encode_recipient recs) @
      to_be_bytes 2 (word_of_nat (length regs) :: u16) @ concat (map encode_registration regs)"
proof -
  from assms obtain n :: u16 and x and lo lp :: u32 and nt nr :: u16 where
    bs: "bs = to_be_bytes 2 n @ x @ to_be_bytes 4 lo @ out @ to_be_bytes 4 lp @ pk @ to_be_bytes 2 nt @
      concat (map encode_recipient recs) @ to_be_bytes 2 nr @ concat (map encode_registration regs) @ rest"
    and lens: "length x = unat n * 20" "length out = unat lo" "length pk = unat lp" "length recs = unat nt"
      "length regs = unat nr"
    and as: "as = chunk_addresses (unat n) x"
    and recs: "\<forall>p\<in>set recs. length (snd p) = 32" and regs: "\<forall>g\<in>set regs. wf_registration g"
    and tot: "length (concat (map encode_registration regs) @ rest) = unat nr * (20 + 32 + 32 + 32)"
    unfolding read_boundary_tail_def Let_def
    by (auto simp: and_then_eq_Inr split: if_splits
        dest!: read_be_Inr read_exact_Inr recipient.read_n_canonical registration.read_n_canonical)
  have "rest = []" using tot length_encode_registrations [OF regs] lens(5) by simp
  moreover have "concat (map (to_be_bytes 20) as) = x \<and> length as = unat n"
    unfolding as by (rule encode_chunk_addresses [OF lens(1)])
  ultimately show ?thesis
    using bs lens recs regs unat_lt_2p [of n] unat_lt_2p [of lo] unat_lt_2p [of lp] unat_lt_2p [of nt]
      unat_lt_2p [of nr]
    by (simp add: encode_addresses_def encode_bytes_u32_def)
qed

lemma decode_boundary_canonical:
  "decode_boundary_payload bs = Inr r \<Longrightarrow> wf_boundary r \<and> bs = boundary_payload r"
  unfolding decode_boundary_payload_def
  by (auto simp: and_then_eq_Inr wf_boundary_def boundary_types_def boundary_payload_def
      dest!: read_boundary_head_Inr read_boundary_tail_Inr)

section \<open>The record list\<close>

text \<open>A batch without credits is not written at all.\<close>

definition normalise :: "outbe_block_artifacts \<Rightarrow> outbe_block_artifacts" where
  "normalise a = a\<lparr>late_finalize_credits :=
     (if late_finalize_credits a = Some [] then None else late_finalize_credits a)\<rparr>"

interpretation record_codec: codec encode_record read_record "\<lambda>r. length (snd r) < 2 ^ 16"
proof
  show "read_record (encode_record x @ rest) = Inr (x, rest)" if "length (snd x) < 2 ^ 16" for x rest
    using that by (cases x) (simp add: read_record_def encode_record_def Let_def unat_word_of_nat_exact)
  show "length (snd x) < 2 ^ 16 \<and> bs = encode_record x @ rest" if "read_record bs = Inr (x, rest)" for bs x rest
    using that unat_lt_2p [where 'n = 16]
    by (auto simp: read_record_def encode_record_def Let_def and_then_eq_Inr
        dest!: read_u8_Inr read_be_Inr read_exact_Inr)
qed

lemma decode_records_encode:
  "\<forall>r\<in>set rs. length (snd r) < 2 ^ 16 \<Longrightarrow>
   decode_records (length rs) (concat (map encode_record rs) @ rest) a =
     and_then (fold_res (\<lambda>(tag, payload). decode_record tag payload) rs a) (\<lambda>a. Inr (a, rest))"
proof (induction rs arbitrary: a)
  case (Cons r rs)
  then show ?case
    by (cases r; cases "decode_record (fst r) (snd r) a") (simp_all add: record_codec.dec_enc)
qed simp

lemma record_sizes:
  assumes "fold_res (\<lambda>(_, payload) acc.
      and_then (ensure_payload_fits_u16 (length payload)) (\<lambda>_. Inr (acc + (1 + 2 + length payload)))) rs n = Inr tot"
  shows "(\<forall>r\<in>set rs. length (snd r) < 2 ^ 16) \<and> tot = n + length (concat (map encode_record rs))"
  using assms
proof (induction rs arbitrary: n)
  case (Cons r rs)
  then show ?case
    by (cases r) (fastforce simp: and_then_eq_Inr ensure_payload_fits_u16_def encode_record_def split: if_splits)
qed simp

lemma header_record_decodes:
  assumes "header_record h = Inr (tag, payload)" and "header_artifact a = None"
    and "case h of BoundaryOutcome r \<Rightarrow> boundary_types r | DealerLog _ \<Rightarrow> True"
  shows "decode_record tag payload a = Inr (a\<lparr>header_artifact := Some h\<rparr>)"
proof (cases h)
  case (BoundaryOutcome r)
  with assms(1,3) have "wf_boundary r" "tag = BOUNDARY_TAG" "payload = boundary_payload r"
    by (auto simp: header_record_def encode_boundary_payload_def and_then_eq_Inr ensure_count_fits_u16_def
        ensure_len_fits_u32_def wf_boundary_def split: if_splits)
  with BoundaryOutcome assms(2) show ?thesis by (simp add: decode_record_def decode_boundary_encode)
next
  case (DealerLog log)
  with assms(1,2) show ?thesis by (auto simp: header_record_def and_then_eq_Inr decode_record_def)
qed

lemma credits_record_decodes:
  assumes "credits_record cs = Inr (tag, payload)" and "late_finalize_credits a = None"
    and "\<forall>c\<in>set cs. length (fb_hash c) = 32 \<and> length (credit_committee_set_hash c) = 32 \<and>
      length (aggregate_signature c) = LATE_FINALIZE_SIG_LEN"
  shows "decode_record tag payload a = Inr (a\<lparr>late_finalize_credits := Some cs\<rparr>)"
proof -
  from assms(1) have "tag = LATE_FINALIZE_CREDITS_TAG" "length cs \<le> LATE_FINALIZE_MAX_BATCHES"
    "ascending_from None cs" "\<forall>c\<in>set cs. length (credit_signer_bitmap c) \<le> LATE_FINALIZE_MAX_BITMAP_LEN"
    "payload = to_be_bytes 2 (word_of_nat (length cs) :: u16) @ concat (map encode_credit cs)"
    by (auto simp: credits_record_def and_then_eq_Inr encode_credits_Inr split: if_splits)
  moreover from this assms(3) have "\<forall>c\<in>set cs. wf_credit c" by (simp add: wf_credit_def)
  ultimately have "decode_late_finalize_credits payload = Inr cs" by (simp add: decode_credits_Inr)
  with assms(2) \<open>tag = _\<close> show ?thesis by (simp add: decode_record_def)
qed

lemma artifact_records_decode:
  assumes "artifact_records a = Inr rs" and types: "artifact_types a"
  shows "fold_res (\<lambda>(tag, payload). decode_record tag payload) rs default_artifacts = Inr (normalise a)"
proof -
  obtain es h ts lf where a: "a = \<lparr>execution_summary = es, header_artifact = h,
      timestamp_millis_part = ts, late_finalize_credits = lf\<rparr>" by (cases a) auto
  obtain hr cr where hr: "(case h of None \<Rightarrow> Inr [] | Some h \<Rightarrow> and_then (header_record h) (\<lambda>r. Inr [r])) = Inr hr"
    and cr: "(case lf of None \<Rightarrow> Inr [] | Some batches \<Rightarrow>
        if batches = [] then Inr [] else and_then (credits_record batches) (\<lambda>r. Inr [r])) = Inr cr"
    and rs: "rs = (case es of None \<Rightarrow> [] | Some fees \<Rightarrow> [(EXECUTION_SUMMARY_TAG, to_be_bytes 32 fees)]) @ hr @ cr @
        (if ts \<noteq> 0 then [(TIMESTAMP_MILLIS_PART_TAG, to_be_bytes 8 ts)] else [])"
    using assms(1) by (auto simp: artifact_records_def a Let_def and_then_eq_Inr)
  let ?dec = "fold_res (\<lambda>(tag, payload). decode_record tag payload)"
  have 1: "?dec (case es of None \<Rightarrow> [] | Some fees \<Rightarrow> [(EXECUTION_SUMMARY_TAG, to_be_bytes 32 fees)]) default_artifacts
      = Inr (default_artifacts\<lparr>execution_summary := es\<rparr>)"
    by (auto simp: decode_record_def decode_execution_summary_def default_artifacts_def split: option.split)
  have 2: "?dec hr b = Inr (b\<lparr>header_artifact := h\<rparr>)" if "header_artifact b = None" for b
    using hr that types header_record_decodes [of _ _ _ b]
    by (auto simp: a artifact_types_def and_then_eq_Inr split: option.splits consensus_header_artifact.splits)
  have 3: "?dec cr b = Inr (b\<lparr>late_finalize_credits := if lf = Some [] then None else lf\<rparr>)"
    if "late_finalize_credits b = None" for b
    using cr that types credits_record_decodes [of _ _ _ b]
    by (auto simp: a artifact_types_def and_then_eq_Inr split: option.splits if_splits)
  have 4: "?dec (if ts \<noteq> 0 then [(TIMESTAMP_MILLIS_PART_TAG, to_be_bytes 8 ts)] else []) b =
      Inr (b\<lparr>timestamp_millis_part := ts\<rparr>)" if "timestamp_millis_part b = 0" for b
    using that by (simp add: decode_record_def)
  define b1 where "b1 = default_artifacts\<lparr>execution_summary := es\<rparr>"
  define b2 where "b2 = b1\<lparr>header_artifact := h\<rparr>"
  define b3 where "b3 = b2\<lparr>late_finalize_credits := if lf = Some [] then None else lf\<rparr>"
  have "?dec hr b1 = Inr b2" "?dec cr b2 = Inr b3"
    using 2 [of b1] 3 [of b2] by (simp_all add: b1_def b2_def b3_def default_artifacts_def)
  moreover have "timestamp_millis_part b3 = 0" by (simp add: b1_def b2_def b3_def default_artifacts_def)
  ultimately have "?dec rs default_artifacts = Inr (b3\<lparr>timestamp_millis_part := ts\<rparr>)"
    unfolding rs fold_res_append 1 by (simp only: and_then_simps b1_def [symmetric] 4)
  then show ?thesis by (simp add: b1_def b2_def b3_def default_artifacts_def normalise_def a)
qed

lemma decode_encode_artifacts:
  assumes enc: "encode_outbe_block_artifacts a = Inr bs" and types: "artifact_types a"
  shows "decode_outbe_block_artifacts bs = Inr (normalise a) \<and> length bs \<le> OUTBE_MAX_EXTRA_DATA_SIZE"
proof -
  from enc obtain rs where rs: "artifact_records a = Inr rs"
    by (auto simp: encode_outbe_block_artifacts_def and_then_eq_Inr)
  note dec = artifact_records_decode [OF rs types]
  show ?thesis
  proof (cases "rs = []")
    case True
    with enc rs dec show ?thesis
      by (simp add: encode_outbe_block_artifacts_def decode_outbe_block_artifacts_def)
  next
    case False
    with enc rs obtain tot where size: "length rs \<le> 255" "4 + 1 + 1 + tot \<le> OUTBE_MAX_EXTRA_DATA_SIZE"
      and bs: "bs = ARTIFACT_MAGIC @ [ARTIFACT_VERSION, word_of_nat (length rs)] @ concat (map encode_record rs)"
      and fold: "fold_res (\<lambda>(_, payload) acc.
        and_then (ensure_payload_fits_u16 (length payload)) (\<lambda>_. Inr (acc + (1 + 2 + length payload)))) rs 0 = Inr tot"
      by (auto simp: encode_outbe_block_artifacts_def and_then_eq_Inr split: if_splits)
    from record_sizes [OF fold] have small: "\<forall>r\<in>set rs. length (snd r) < 2 ^ 16"
      and tot: "tot = length (concat (map encode_record rs))" by auto
    have "unat (word_of_nat (length rs) :: u8) = length rs"
      using size(1) by (intro unat_word_of_nat_exact) simp
    with decode_records_encode [OF small, of "[]" default_artifacts] dec
    have "decode_outbe_block_artifacts bs = Inr (normalise a)"
      by (simp add: decode_outbe_block_artifacts_def bs ARTIFACT_MAGIC_def)
    with size(2) tot show ?thesis by (simp add: bs ARTIFACT_MAGIC_def)
  qed
qed

text \<open>
  C29. Decoding what the encoder wrote returns the artifacts, up to an empty batch of
  late-finalize credits, which is not written; and the encoding fits the budget of the extra
  data field.
\<close>

theorem block_artifacts_roundtrip:
  assumes "encode_outbe_block_artifacts a = Inr bs" and "artifact_types a"
  shows "decode_outbe_block_artifacts bs = Inr (normalise a) \<and> length bs \<le> OUTBE_MAX_EXTRA_DATA_SIZE"
  using assms by (rule decode_encode_artifacts)

lemma decode_record_safe:
  assumes "decode_record tag payload a = Inr a'"
    and "case late_finalize_credits a of None \<Rightarrow> True | Some cs \<Rightarrow>
      length cs \<le> LATE_FINALIZE_MAX_BATCHES \<and> ascending_from None cs \<and> (\<forall>c\<in>set cs. wf_credit c)"
    and "case header_artifact a of Some (BoundaryOutcome r) \<Rightarrow> wf_boundary r | _ \<Rightarrow> True"
  shows "(case late_finalize_credits a' of None \<Rightarrow> True | Some cs \<Rightarrow>
      length cs \<le> LATE_FINALIZE_MAX_BATCHES \<and> ascending_from None cs \<and> (\<forall>c\<in>set cs. wf_credit c)) \<and>
    (case header_artifact a' of Some (BoundaryOutcome r) \<Rightarrow> wf_boundary r | _ \<Rightarrow> True)"
  using assms decode_boundary_canonical
  by (auto simp: decode_record_def and_then_eq_Inr decode_credits_Inr split: if_splits)

definition safe_artifacts :: "outbe_block_artifacts \<Rightarrow> bool" where
  "safe_artifacts a \<longleftrightarrow>
     (case late_finalize_credits a of None \<Rightarrow> True | Some cs \<Rightarrow>
        length cs \<le> LATE_FINALIZE_MAX_BATCHES \<and> ascending_from None cs \<and> (\<forall>c\<in>set cs. wf_credit c)) \<and>
     (case header_artifact a of Some (BoundaryOutcome r) \<Rightarrow> wf_boundary r | _ \<Rightarrow> True)"

lemma decode_records_safe:
  "decode_records n bs a = Inr (a', rest) \<Longrightarrow> safe_artifacts a \<Longrightarrow> safe_artifacts a'"
proof (induction n arbitrary: bs a)
  case (Suc n)
  from Suc.prems(1) obtain tag payload bs' b where "decode_record tag payload a = Inr b"
    "decode_records n bs' b = Inr (a', rest)"
    by (auto simp: and_then_eq_Inr)
  with decode_record_safe [of tag payload a b] Suc show ?case by (auto simp: safe_artifacts_def)
qed simp

text \<open>
  C30. Whatever bytes are decoded, the credits of the result are those of distinct finalized
  blocks in strictly ascending order of number and hash, at most one per block of the
  inclusion window, and a boundary outcome is well formed.
\<close>

theorem decoded_artifacts_canonical:
  assumes "decode_outbe_block_artifacts bs = Inr a"
  shows "(\<forall>cs. late_finalize_credits a = Some cs \<longrightarrow> sorted_wrt (<) (map credit_key cs) \<and>
      length cs \<le> unat LATE_FINALIZE_WINDOW_K \<and> (\<forall>c\<in>set cs. wf_credit c)) \<and>
    (\<forall>r. header_artifact a = Some (BoundaryOutcome r) \<longrightarrow> wf_boundary r)"
proof -
  have "safe_artifacts default_artifacts" by (simp add: safe_artifacts_def default_artifacts_def)
  with assms have "safe_artifacts a"
    by (auto simp: decode_outbe_block_artifacts_def and_then_eq_Inr split: if_splits dest: decode_records_safe)
  then show ?thesis
    using ascending_from_sorted [of None]
    by (auto simp: safe_artifacts_def LATE_FINALIZE_MAX_BATCHES_def)
qed

text \<open>
  A header may carry the timestamp record twice when the first one is zero: the duplicate test
  compares the value with zero, so the second record is accepted.
\<close>

theorem duplicate_timestamp_accepted:
  "decode_outbe_block_artifacts (ARTIFACT_MAGIC @ [ARTIFACT_VERSION, 2] @
     encode_record (TIMESTAMP_MILLIS_PART_TAG, to_be_bytes 8 (0 :: u64)) @
     encode_record (TIMESTAMP_MILLIS_PART_TAG, to_be_bytes 8 (7 :: u64))) =
   Inr (default_artifacts\<lparr>timestamp_millis_part := 7\<rparr>)"
proof -
  define rs where "rs = [(TIMESTAMP_MILLIS_PART_TAG, to_be_bytes 8 (0 :: u64)),
    (TIMESTAMP_MILLIS_PART_TAG, to_be_bytes 8 (7 :: u64))]"
  have small: "\<forall>r\<in>set rs. length (snd r) < 2 ^ 16" and len: "length rs = 2" by (simp_all add: rs_def)
  have "fold_res (\<lambda>(tag, payload). decode_record tag payload) rs default_artifacts =
      Inr (default_artifacts\<lparr>timestamp_millis_part := 7\<rparr>)"
    by (simp add: rs_def decode_record_def default_artifacts_def)
  with decode_records_encode [OF small, of "[]" default_artifacts]
  have "decode_records 2 (concat (map encode_record rs)) default_artifacts =
      Inr (default_artifacts\<lparr>timestamp_millis_part := 7\<rparr>, [])" by (simp only: len and_then_simps append_Nil2)
  then show ?thesis
    by (simp add: rs_def decode_outbe_block_artifacts_def ARTIFACT_MAGIC_def)
qed

definition demo_artifacts :: outbe_block_artifacts where
  "demo_artifacts = \<lparr>execution_summary = Some 5, header_artifact = Some (DealerLog [1, 2]),
     timestamp_millis_part = 7, late_finalize_credits = None\<rparr>"

lemma demo_artifacts_encode: "\<exists>bs. encode_outbe_block_artifacts demo_artifacts = Inr bs"
  by (simp add: encode_outbe_block_artifacts_def artifact_records_def demo_artifacts_def header_record_def
      ensure_payload_fits_u16_def OUTBE_MAX_EXTRA_DATA_SIZE_def)

theorem block_artifacts_roundtrip_witness:
  "\<exists>bs. encode_outbe_block_artifacts demo_artifacts = Inr bs \<and>
     decode_outbe_block_artifacts bs = Inr demo_artifacts"
proof -
  obtain bs where bs: "encode_outbe_block_artifacts demo_artifacts = Inr bs" using demo_artifacts_encode by auto
  have "artifact_types demo_artifacts" "normalise demo_artifacts = demo_artifacts"
    by (simp_all add: artifact_types_def normalise_def demo_artifacts_def)
  with block_artifacts_roundtrip [OF bs] bs show ?thesis by auto
qed

text \<open>Credits of two blocks.\<close>

definition demo_credit :: "u64 \<Rightarrow> per_block_credit" where
  "demo_credit n = \<lparr>fb_number = n, fb_hash = replicate 32 1, credit_epoch = 1, credit_view = 2, credit_parent_view = 1,
     credit_committee_set_hash = replicate 32 2, credit_signer_bitmap = [1], aggregate_signature = replicate 96 3\<rparr>"

definition credit_artifacts :: outbe_block_artifacts where
  "credit_artifacts = default_artifacts\<lparr>late_finalize_credits := Some [demo_credit 5, demo_credit 6]\<rparr>"

lemma credit_artifacts_encode: "\<exists>bs. encode_outbe_block_artifacts credit_artifacts = Inr bs"
proof -
  have "length (encode_credit (demo_credit n)) = 195" for n by (simp add: encode_credit_def demo_credit_def)
  then show ?thesis
    by (simp add: encode_outbe_block_artifacts_def artifact_records_def credit_artifacts_def default_artifacts_def
      credits_record_def ensure_count_fits_u16_def LATE_FINALIZE_MAX_BATCHES_def LATE_FINALIZE_WINDOW_K_def
      ascending_def credit_key_def demo_credit_def LATE_FINALIZE_MAX_BITMAP_LEN_def
      ensure_payload_fits_u16_def OUTBE_MAX_EXTRA_DATA_SIZE_def)
qed

theorem decoded_artifacts_canonical_witness:
  "\<exists>bs. decode_outbe_block_artifacts bs = Inr credit_artifacts \<and>
     sorted_wrt (<) (map credit_key [demo_credit 5, demo_credit 6]) \<and> wf_credit (demo_credit 5)"
proof -
  obtain bs where bs: "encode_outbe_block_artifacts credit_artifacts = Inr bs" using credit_artifacts_encode by auto
  have "artifact_types credit_artifacts" "normalise credit_artifacts = credit_artifacts"
    by (simp_all add: artifact_types_def normalise_def credit_artifacts_def default_artifacts_def demo_credit_def)
  with decode_encode_artifacts [OF bs] have "decode_outbe_block_artifacts bs = Inr credit_artifacts" by simp
  moreover from decoded_artifacts_canonical [OF this]
  have "sorted_wrt (<) (map credit_key [demo_credit 5, demo_credit 6])" "wf_credit (demo_credit 5)"
    by (simp_all add: credit_artifacts_def)
  ultimately show ?thesis by blast
qed

end
