(* ===== verification/Tee_Bootstrap.thy ===== *)
theory Tee_Bootstrap
  imports Committee_Snapshot "HOL-Library.Multiset"
begin

text \<open>
  The one-time bootstrap payload of the enclave registry
  (\<^verbatim>\<open>crates/blockchain/primitives/src/tee_bootstrap.rs\<close>): the signed body, the wire codec with
  every error, the attestation policy and its order-independent hash, and the recovery of a
  validator's signature. Point recovery on the curve is a parameter.
\<close>

section \<open>Types and constants\<close>

record tee_policy =
  allowed_mrsigner :: "b256 list"
  allowed_mrenclave :: "b256 list"
  min_isv_svn :: u16

record tee_registration_bundle =
  tr_validator :: address
  tr_recipient_x25519 :: b256
  tr_attestation_pub :: b256
  tr_noise_static_pub :: b256
  tr_mrenclave :: b256
  tr_mrsigner :: b256
  tr_isv_svn :: u16
  tr_keys_hash :: b256

record tee_validator_signature =
  ts_validator :: address
  ts_signature :: bytes

record tee_bootstrap_payload =
  tb_policy_hash :: b256
  committee_snapshot_hash :: b256
  committee_snapshot_block :: u64
  key_epoch :: u64
  tribute_offer_epoch :: u64
  dkg_transcript_hash :: b256
  tribute_offer_public_key :: b256
  registrations :: "tee_registration_bundle list"
  tb_policy :: tee_policy
  validator_signatures :: "tee_validator_signature list"

definition TEE_MAGIC :: bytes where "TEE_MAGIC = [84, 84, 66, 49]"
definition MAX_TEE_REGISTRATIONS :: nat where "MAX_TEE_REGISTRATIONS = 256"
definition MAX_TEE_POLICY_ENTRIES :: nat where "MAX_TEE_POLICY_ENTRIES = 64"
definition TEE_BOOTSTRAP_SIGNING_DOMAIN :: bytes where
  "TEE_BOOTSTRAP_SIGNING_DOMAIN = ascii ''outbe/tee/bootstrap/v1''"
definition TEE_KEYS_HASH_DOMAIN :: bytes where "TEE_KEYS_HASH_DOMAIN = ascii ''outbe/tee/keys/v1''"
definition TEE_POLICY_HASH_DOMAIN :: bytes where "TEE_POLICY_HASH_DOMAIN = ascii ''outbe/tee/policy/v1''"

section \<open>Policy\<close>

definition count_u16 :: "'a list \<Rightarrow> bytes" where
  "count_u16 xs = to_be_bytes 2 (word_of_nat (length xs) :: u16)"

definition policy_preimage :: "tee_policy \<Rightarrow> bytes" where
  "policy_preimage p =
     TEE_POLICY_HASH_DOMAIN @
     count_u16 (allowed_mrsigner p) @ concat (sort (allowed_mrsigner p)) @
     count_u16 (allowed_mrenclave p) @ concat (sort (allowed_mrenclave p)) @
     to_be_bytes 2 (min_isv_svn p)"

definition compute_hash :: "crypto \<Rightarrow> tee_policy \<Rightarrow> b256" where
  "compute_hash c p = keccak256 c (policy_preimage p)"

definition policy_is_empty :: "tee_policy \<Rightarrow> bool" where
  "policy_is_empty p \<longleftrightarrow> allowed_mrsigner p = [] \<and> allowed_mrenclave p = [] \<and> min_isv_svn p = 0"

definition admits :: "tee_policy \<Rightarrow> b256 \<Rightarrow> b256 \<Rightarrow> u16 \<Rightarrow> bool" where
  "admits p mrsigner mrenclave isv_svn \<longleftrightarrow>
     mrsigner \<in> set (allowed_mrsigner p) \<and> mrenclave \<in> set (allowed_mrenclave p) \<and> min_isv_svn p \<le> isv_svn"

definition keys_hash_preimage :: "tee_registration_bundle \<Rightarrow> bytes" where
  "keys_hash_preimage r =
     TEE_KEYS_HASH_DOMAIN @ to_be_bytes 20 (tr_validator r) @ tr_recipient_x25519 r @ tr_attestation_pub r @
     tr_noise_static_pub r @ tr_mrenclave r @ tr_mrsigner r @ to_be_bytes 2 (tr_isv_svn r)"

definition computed_keys_hash :: "crypto \<Rightarrow> tee_registration_bundle \<Rightarrow> b256" where
  "computed_keys_hash c r = keccak256 c (keys_hash_preimage r)"

section \<open>Encoder\<close>

definition encode_tee_registration :: "tee_registration_bundle \<Rightarrow> bytes" where
  "encode_tee_registration r =
     to_be_bytes 20 (tr_validator r) @ tr_recipient_x25519 r @ tr_attestation_pub r @ tr_noise_static_pub r @
     tr_mrenclave r @ tr_mrsigner r @ to_be_bytes 2 (tr_isv_svn r) @ tr_keys_hash r"

definition encode_tee_signature :: "tee_validator_signature \<Rightarrow> bytes" where
  "encode_tee_signature s = to_be_bytes 20 (ts_validator s) @ ts_signature s"

definition encode_body :: "tee_bootstrap_payload \<Rightarrow> bytes" where
  "encode_body p =
     TEE_MAGIC @ tb_policy_hash p @ committee_snapshot_hash p @ to_be_bytes 8 (committee_snapshot_block p) @
     to_be_bytes 8 (key_epoch p) @ to_be_bytes 8 (tribute_offer_epoch p) @ dkg_transcript_hash p @
     tribute_offer_public_key p @
     count_u16 (registrations p) @ concat (map encode_tee_registration (registrations p)) @
     count_u16 (allowed_mrsigner (tb_policy p)) @ concat (allowed_mrsigner (tb_policy p)) @
     count_u16 (allowed_mrenclave (tb_policy p)) @ concat (allowed_mrenclave (tb_policy p)) @
     to_be_bytes 2 (min_isv_svn (tb_policy p))"

definition encode_tee_payload :: "tee_bootstrap_payload \<Rightarrow> bytes result" where
  "encode_tee_payload p =
     (if MAX_TEE_REGISTRATIONS < length (registrations p) then Inl (Revert ''too many TEE registrations'')
      else if MAX_TEE_REGISTRATIONS < length (validator_signatures p) then Inl (Revert ''too many TEE signatures'')
      else Inr (encode_body p @ count_u16 (validator_signatures p) @
        concat (map encode_tee_signature (validator_signatures p))))"

definition signing_hash :: "crypto \<Rightarrow> tee_bootstrap_payload \<Rightarrow> b256" where
  "signing_hash c p = keccak256 c (TEE_BOOTSTRAP_SIGNING_DOMAIN @ encode_body p)"

text \<open>
  The calls into the ECDSA library: whether a byte is a recovery id, whether 64 bytes are a
  signature, and the recovered key as its 64 coordinate bytes.
\<close>

record ecdsa =
  recovery_id_from_byte :: "u8 \<Rightarrow> bool"
  signature_from_slice :: "bytes \<Rightarrow> bool"
  recover_from_prehash :: "b256 \<Rightarrow> bytes \<Rightarrow> u8 \<Rightarrow> bytes option"

definition recover_signer :: "crypto \<Rightarrow> ecdsa \<Rightarrow> b256 \<Rightarrow> bytes \<Rightarrow> address result" where
  "recover_signer c k prehash sig =
     (let v = sig ! 64; normalized = (if v = 27 \<or> v = 28 then v - 27 else v)
      in if \<not> recovery_id_from_byte k normalized then Inl (Revert ''TeeBootstrap: invalid recovery id'')
         else if \<not> signature_from_slice k (take 64 sig) then Inl (Revert ''TeeBootstrap: malformed signature'')
         else case recover_from_prehash k prehash (take 64 sig) normalized of
           None \<Rightarrow> Inl (Revert ''TeeBootstrap: signature recovery failed'')
         | Some xy \<Rightarrow> Inr (from_be_bytes (drop 12 (keccak256 c xy))))"

section \<open>Decoder\<close>

definition take_n :: "nat \<Rightarrow> bytes \<Rightarrow> (bytes \<times> bytes) result" where
  "take_n n bs = read_exact (Revert ''TeeBootstrap truncated'') n bs"

definition reader_u16 :: "bytes \<Rightarrow> (u16 \<times> bytes) result" where
  "reader_u16 bs = read_be (Revert ''TeeBootstrap truncated'') 2 bs"

definition reader_u64 :: "bytes \<Rightarrow> (u64 \<times> bytes) result" where
  "reader_u64 bs = read_be (Revert ''TeeBootstrap truncated'') 8 bs"

definition reader_address :: "bytes \<Rightarrow> (address \<times> bytes) result" where
  "reader_address bs = read_be (Revert ''TeeBootstrap truncated'') 20 bs"

definition read_tee_registration :: "bytes \<Rightarrow> (tee_registration_bundle \<times> bytes) result" where
  "read_tee_registration bs =
     and_then (reader_address bs) (\<lambda>(v, bs).
     and_then (take_n 32 bs) (\<lambda>(x, bs).
     and_then (take_n 32 bs) (\<lambda>(a, bs).
     and_then (take_n 32 bs) (\<lambda>(n, bs).
     and_then (take_n 32 bs) (\<lambda>(e, bs).
     and_then (take_n 32 bs) (\<lambda>(s, bs).
     and_then (reader_u16 bs) (\<lambda>(svn, bs).
     and_then (take_n 32 bs) (\<lambda>(h, bs).
       Inr (\<lparr>tr_validator = v, tr_recipient_x25519 = x, tr_attestation_pub = a, tr_noise_static_pub = n,
             tr_mrenclave = e, tr_mrsigner = s, tr_isv_svn = svn, tr_keys_hash = h\<rparr>, bs)))))))))"

definition read_tee_signature :: "bytes \<Rightarrow> (tee_validator_signature \<times> bytes) result" where
  "read_tee_signature bs =
     and_then (reader_address bs) (\<lambda>(v, bs).
     and_then (take_n 65 bs) (\<lambda>(s, bs).
       Inr (\<lparr>ts_validator = v, ts_signature = s\<rparr>, bs)))"

text \<open>A count with its cap, then that many elements.\<close>

definition read_capped ::
  "string \<Rightarrow> nat \<Rightarrow> (bytes \<Rightarrow> ('a \<times> bytes) result) \<Rightarrow> bytes \<Rightarrow> ('a list \<times> bytes) result" where
  "read_capped msg cap rd bs =
     and_then (reader_u16 bs) (\<lambda>(n, bs).
       if cap < unat n then Inl (Revert msg) else read_n rd (unat n) bs)"

definition decode_tee_payload :: "bytes \<Rightarrow> tee_bootstrap_payload result" where
  "decode_tee_payload bs =
     and_then (take_n 4 bs) (\<lambda>(magic, bs).
     if magic \<noteq> TEE_MAGIC then Inl (Revert ''bad TeeBootstrap magic'')
     else
     and_then (take_n 32 bs) (\<lambda>(policy_hash, bs).
     and_then (take_n 32 bs) (\<lambda>(snap_hash, bs).
     and_then (reader_u64 bs) (\<lambda>(snap_block, bs).
     and_then (reader_u64 bs) (\<lambda>(epoch, bs).
     and_then (reader_u64 bs) (\<lambda>(offer_epoch, bs).
     and_then (take_n 32 bs) (\<lambda>(transcript, bs).
     and_then (take_n 32 bs) (\<lambda>(offer_pk, bs).
     and_then (read_capped ''too many TEE registrations'' MAX_TEE_REGISTRATIONS read_tee_registration bs) (\<lambda>(regs, bs).
     and_then (read_capped ''too many policy mrsigner entries'' MAX_TEE_POLICY_ENTRIES (take_n 32) bs) (\<lambda>(signers, bs).
     and_then (read_capped ''too many policy mrenclave entries'' MAX_TEE_POLICY_ENTRIES (take_n 32) bs) (\<lambda>(enclaves, bs).
     and_then (reader_u16 bs) (\<lambda>(svn, bs).
     and_then (read_capped ''too many TEE signatures'' MAX_TEE_REGISTRATIONS read_tee_signature bs) (\<lambda>(sigs, bs).
       if bs \<noteq> [] then Inl (Revert ''TeeBootstrap trailing bytes'')
       else Inr \<lparr>tb_policy_hash = policy_hash, committee_snapshot_hash = snap_hash,
         committee_snapshot_block = snap_block, key_epoch = epoch, tribute_offer_epoch = offer_epoch,
         dkg_transcript_hash = transcript, tribute_offer_public_key = offer_pk, registrations = regs,
         tb_policy = \<lparr>allowed_mrsigner = signers, allowed_mrenclave = enclaves, min_isv_svn = svn\<rparr>,
         validator_signatures = sigs\<rparr>)))))))))))))"

section \<open>The decoder inverts the encoder\<close>

definition wf_tee_registration :: "tee_registration_bundle \<Rightarrow> bool" where
  "wf_tee_registration r \<longleftrightarrow> length (tr_recipient_x25519 r) = 32 \<and> length (tr_attestation_pub r) = 32 \<and>
     length (tr_noise_static_pub r) = 32 \<and> length (tr_mrenclave r) = 32 \<and> length (tr_mrsigner r) = 32 \<and>
     length (tr_keys_hash r) = 32"

definition wf_tee_payload :: "tee_bootstrap_payload \<Rightarrow> bool" where
  "wf_tee_payload p \<longleftrightarrow> length (tb_policy_hash p) = 32 \<and> length (committee_snapshot_hash p) = 32 \<and>
     length (dkg_transcript_hash p) = 32 \<and> length (tribute_offer_public_key p) = 32 \<and>
     (\<forall>r\<in>set (registrations p). wf_tee_registration r) \<and> length (registrations p) \<le> MAX_TEE_REGISTRATIONS \<and>
     (\<forall>h\<in>set (allowed_mrsigner (tb_policy p)). length h = 32) \<and>
     length (allowed_mrsigner (tb_policy p)) \<le> MAX_TEE_POLICY_ENTRIES \<and>
     (\<forall>h\<in>set (allowed_mrenclave (tb_policy p)). length h = 32) \<and>
     length (allowed_mrenclave (tb_policy p)) \<le> MAX_TEE_POLICY_ENTRIES \<and>
     (\<forall>s\<in>set (validator_signatures p). length (ts_signature s) = 65) \<and>
     length (validator_signatures p) \<le> MAX_TEE_REGISTRATIONS"

lemmas readers = take_n_def reader_u16_def reader_u64_def reader_address_def

interpretation tee_reg: codec encode_tee_registration read_tee_registration wf_tee_registration
proof
  show "read_tee_registration (encode_tee_registration x @ rest) = Inr (x, rest)" if "wf_tee_registration x" for x rest
    using that by (simp add: read_tee_registration_def encode_tee_registration_def wf_tee_registration_def readers)
  show "wf_tee_registration x \<and> bs = encode_tee_registration x @ rest"
    if "read_tee_registration bs = Inr (x, rest)" for bs x rest
    using that by (auto simp: read_tee_registration_def encode_tee_registration_def wf_tee_registration_def readers
        and_then_eq_Inr dest!: read_be_Inr read_exact_Inr)
qed

interpretation tee_sig: codec encode_tee_signature read_tee_signature "\<lambda>s. length (ts_signature s) = 65"
proof
  show "read_tee_signature (encode_tee_signature x @ rest) = Inr (x, rest)" if "length (ts_signature x) = 65" for x rest
    using that by (simp add: read_tee_signature_def encode_tee_signature_def readers)
  show "length (ts_signature x) = 65 \<and> bs = encode_tee_signature x @ rest"
    if "read_tee_signature bs = Inr (x, rest)" for bs x rest
    using that by (auto simp: read_tee_signature_def encode_tee_signature_def readers and_then_eq_Inr
        dest!: read_be_Inr read_exact_Inr)
qed

interpretation hash32: codec "\<lambda>h. h" "take_n 32" "\<lambda>h. length h = 32"
  by unfold_locales (auto simp: take_n_def dest!: read_exact_Inr)

lemma read_capped_encode:
  assumes "length xs \<le> cap" and "cap < 2 ^ 16" and "read_n rd (length xs) (bs @ rest) = Inr (xs, rest)"
  shows "read_capped msg cap rd (count_u16 xs @ bs @ rest) = Inr (xs, rest)"
  using assms by (simp add: read_capped_def count_u16_def reader_u16_def unat_word_of_nat_exact)

lemma read_capped_Inr:
  assumes "read_capped msg cap rd bs = Inr (xs, rest)"
    and "\<And>n bs. read_n rd n bs = Inr (xs, rest) \<Longrightarrow> length xs = n \<and> P \<and> bs = e @ rest"
  shows "length xs \<le> cap \<and> P \<and> bs = count_u16 xs @ e @ rest"
proof -
  from assms(1) obtain n :: u16 and bs' where "bs = to_be_bytes 2 n @ bs'" "unat n \<le> cap"
    "read_n rd (unat n) bs' = Inr (xs, rest)"
    by (auto simp: read_capped_def reader_u16_def and_then_eq_Inr dest!: read_be_Inr split: if_splits)
  with assms(2) [of "unat n" bs'] show ?thesis by (auto simp: count_u16_def)
qed

text \<open>The counted sections with their codecs.\<close>

lemma read_registrations_encode:
  "\<forall>r\<in>set xs. wf_tee_registration r \<Longrightarrow> length xs \<le> MAX_TEE_REGISTRATIONS \<Longrightarrow>
     read_capped msg MAX_TEE_REGISTRATIONS read_tee_registration
       (count_u16 xs @ concat (map encode_tee_registration xs) @ rest) = Inr (xs, rest)"
  by (rule read_capped_encode) (simp_all add: tee_reg.read_n_enc MAX_TEE_REGISTRATIONS_def)

lemma read_signatures_encode:
  "\<forall>s\<in>set xs. length (ts_signature s) = 65 \<Longrightarrow> length xs \<le> MAX_TEE_REGISTRATIONS \<Longrightarrow>
     read_capped msg MAX_TEE_REGISTRATIONS read_tee_signature
       (count_u16 xs @ concat (map encode_tee_signature xs) @ rest) = Inr (xs, rest)"
  by (rule read_capped_encode) (simp_all add: tee_sig.read_n_enc MAX_TEE_REGISTRATIONS_def)

lemma read_hashes_encode:
  "\<forall>h\<in>set xs. length h = 32 \<Longrightarrow> length xs \<le> MAX_TEE_POLICY_ENTRIES \<Longrightarrow>
     read_capped msg MAX_TEE_POLICY_ENTRIES (take_n 32) (count_u16 xs @ concat xs @ rest) = Inr (xs, rest)"
  using hash32.read_n_enc [of xs rest]
  by (intro read_capped_encode) (simp_all add: MAX_TEE_POLICY_ENTRIES_def)

lemma read_registrations_canonical:
  "read_capped msg MAX_TEE_REGISTRATIONS read_tee_registration bs = Inr (xs, rest) \<Longrightarrow>
     length xs \<le> MAX_TEE_REGISTRATIONS \<and> (\<forall>r\<in>set xs. wf_tee_registration r) \<and>
     bs = count_u16 xs @ concat (map encode_tee_registration xs) @ rest"
  by (erule read_capped_Inr) (rule tee_reg.read_n_canonical)

lemma read_signatures_canonical:
  "read_capped msg MAX_TEE_REGISTRATIONS read_tee_signature bs = Inr (xs, rest) \<Longrightarrow>
     length xs \<le> MAX_TEE_REGISTRATIONS \<and> (\<forall>s\<in>set xs. length (ts_signature s) = 65) \<and>
     bs = count_u16 xs @ concat (map encode_tee_signature xs) @ rest"
  by (erule read_capped_Inr) (rule tee_sig.read_n_canonical)

lemma read_hashes_canonical:
  "read_capped msg MAX_TEE_POLICY_ENTRIES (take_n 32) bs = Inr (xs, rest) \<Longrightarrow>
     length xs \<le> MAX_TEE_POLICY_ENTRIES \<and> (\<forall>h\<in>set xs. length h = 32) \<and> bs = count_u16 xs @ concat xs @ rest"
  by (erule read_capped_Inr) (use hash32.read_n_canonical in simp)

lemma decode_encode_tee:
  assumes "wf_tee_payload p" "encode_tee_payload p = Inr bs"
  shows "decode_tee_payload bs = Inr p"
proof -
  have magic: "length TEE_MAGIC = 4" by (simp add: TEE_MAGIC_def)
  have "bs = encode_body p @ count_u16 (validator_signatures p) @
        concat (map encode_tee_signature (validator_signatures p)) @ []"
    using assms(2) by (simp add: encode_tee_payload_def split: if_splits)
  then show ?thesis
    using assms(1) magic unfolding wf_tee_payload_def
    by (simp add: decode_tee_payload_def encode_body_def readers read_registrations_encode
        read_signatures_encode [where rest = "[]", simplified] read_hashes_encode)
qed

lemma encode_decode_tee:
  assumes "decode_tee_payload bs = Inr p"
  shows "wf_tee_payload p \<and> encode_tee_payload p = Inr bs"
proof -
  from assms obtain a1 a2 a3 a4 a5 a6 a7 a8 a9 a10 a11 a12 where
    "take_n 4 bs = Inr (TEE_MAGIC, a1)" "take_n 32 a1 = Inr (tb_policy_hash p, a2)"
    "take_n 32 a2 = Inr (committee_snapshot_hash p, a3)" "reader_u64 a3 = Inr (committee_snapshot_block p, a4)"
    "reader_u64 a4 = Inr (key_epoch p, a5)" "reader_u64 a5 = Inr (tribute_offer_epoch p, a6)"
    "take_n 32 a6 = Inr (dkg_transcript_hash p, a7)" "take_n 32 a7 = Inr (tribute_offer_public_key p, a8)"
    and regs: "read_capped ''too many TEE registrations'' MAX_TEE_REGISTRATIONS read_tee_registration a8 = Inr (registrations p, a9)"
    and signers: "read_capped ''too many policy mrsigner entries'' MAX_TEE_POLICY_ENTRIES (take_n 32) a9 = Inr (allowed_mrsigner (tb_policy p), a10)"
    and enclaves: "read_capped ''too many policy mrenclave entries'' MAX_TEE_POLICY_ENTRIES (take_n 32) a10 = Inr (allowed_mrenclave (tb_policy p), a11)"
    and "reader_u16 a11 = Inr (min_isv_svn (tb_policy p), a12)"
    and sigs: "read_capped ''too many TEE signatures'' MAX_TEE_REGISTRATIONS read_tee_signature a12 = Inr (validator_signatures p, [])"
    unfolding decode_tee_payload_def
    by (clarsimp simp: and_then_eq_Inr split: if_splits)
  note heads = this(1-8,12)
  have "bs = TEE_MAGIC @ a1" "a1 = tb_policy_hash p @ a2" "a2 = committee_snapshot_hash p @ a3"
    "a3 = to_be_bytes 8 (committee_snapshot_block p) @ a4" "a4 = to_be_bytes 8 (key_epoch p) @ a5"
    "a5 = to_be_bytes 8 (tribute_offer_epoch p) @ a6" "a6 = dkg_transcript_hash p @ a7"
    "a7 = tribute_offer_public_key p @ a8" "a11 = to_be_bytes 2 (min_isv_svn (tb_policy p)) @ a12"
    "length (tb_policy_hash p) = 32" "length (committee_snapshot_hash p) = 32" "length (dkg_transcript_hash p) = 32"
    "length (tribute_offer_public_key p) = 32"
    using heads unfolding readers by (simp_all add: read_exact_Inr read_be_Inr)
  with read_registrations_canonical [OF regs] read_hashes_canonical [OF signers]
    read_hashes_canonical [OF enclaves] read_signatures_canonical [OF sigs]
  show ?thesis by (simp add: wf_tee_payload_def encode_tee_payload_def encode_body_def)
qed

text \<open>
  C32. The decoder of the bootstrap payload accepts exactly the encodings of well-formed
  payloads (32-byte hashes, at most 256 registrations and signatures, at most 64 entries per
  allowlist) and returns the payload that was encoded: no byte string has two readings, none
  with trailing bytes or a wrong count is accepted, and two payloads never share their bytes.
\<close>

theorem decode_tee_payload_iff:
  "decode_tee_payload bs = Inr p \<longleftrightarrow> wf_tee_payload p \<and> encode_tee_payload p = Inr bs"
  using decode_encode_tee encode_decode_tee by blast

text \<open>
  What the types of the payload fix, and the cap on the allowlists. The encoder checks the
  counts of registrations and signatures but neither allowlist: it writes an oversized one to
  bytes the decoder does not read back.
\<close>

definition tee_payload_types :: "tee_bootstrap_payload \<Rightarrow> bool" where
  "tee_payload_types p \<longleftrightarrow> length (tb_policy_hash p) = 32 \<and> length (committee_snapshot_hash p) = 32 \<and>
     length (dkg_transcript_hash p) = 32 \<and> length (tribute_offer_public_key p) = 32 \<and>
     (\<forall>r\<in>set (registrations p). wf_tee_registration r) \<and>
     (\<forall>h\<in>set (allowed_mrsigner (tb_policy p)). length h = 32) \<and>
     (\<forall>h\<in>set (allowed_mrenclave (tb_policy p)). length h = 32) \<and>
     (\<forall>s\<in>set (validator_signatures p). length (ts_signature s) = 65)"

definition policy_within_cap :: "tee_policy \<Rightarrow> bool" where
  "policy_within_cap p \<longleftrightarrow> length (allowed_mrsigner p) \<le> MAX_TEE_POLICY_ENTRIES \<and>
     length (allowed_mrenclave p) \<le> MAX_TEE_POLICY_ENTRIES"

lemma tee_roundtrip_within_cap:
  assumes "tee_payload_types p" "encode_tee_payload p = Inr bs"
  shows "decode_tee_payload bs = Inr p \<longleftrightarrow> policy_within_cap (tb_policy p)"
proof
  show "policy_within_cap (tb_policy p)" if "decode_tee_payload bs = Inr p"
    using encode_decode_tee [OF that] by (simp add: wf_tee_payload_def policy_within_cap_def)
  show "decode_tee_payload bs = Inr p" if "policy_within_cap (tb_policy p)"
    using that assms decode_encode_tee [of p bs]
    by (auto simp: wf_tee_payload_def tee_payload_types_def policy_within_cap_def encode_tee_payload_def
        split: if_splits)
qed

lemma read_capped_oversized:
  "cap < length xs \<Longrightarrow> length xs < 2 ^ 16 \<Longrightarrow> read_capped msg cap rd (count_u16 xs @ bs) = Inl (Revert msg)"
  by (simp add: read_capped_def count_u16_def reader_u16_def unat_word_of_nat_exact)

lemma tee_oversized_policy_error:
  assumes "tee_payload_types p" "encode_tee_payload p = Inr bs" "\<not> policy_within_cap (tb_policy p)"
    and "length (allowed_mrsigner (tb_policy p)) < 2 ^ 16" "length (allowed_mrenclave (tb_policy p)) < 2 ^ 16"
  shows "decode_tee_payload bs = Inl (Revert
    (if MAX_TEE_POLICY_ENTRIES < length (allowed_mrsigner (tb_policy p)) then ''too many policy mrsigner entries''
     else ''too many policy mrenclave entries''))"
proof -
  have magic: "length TEE_MAGIC = 4" by (simp add: TEE_MAGIC_def)
  have bs: "bs = encode_body p @ count_u16 (validator_signatures p) @
        concat (map encode_tee_signature (validator_signatures p))"
    and regs: "length (registrations p) \<le> MAX_TEE_REGISTRATIONS"
    using assms(2) by (simp_all add: encode_tee_payload_def split: if_splits)
  show ?thesis
  proof (cases "MAX_TEE_POLICY_ENTRIES < length (allowed_mrsigner (tb_policy p))")
    case True
    with assms(1,4) magic regs show ?thesis unfolding tee_payload_types_def
      by (simp add: bs decode_tee_payload_def encode_body_def readers read_registrations_encode read_capped_oversized)
  next
    case False
    with assms(3) have "MAX_TEE_POLICY_ENTRIES < length (allowed_mrenclave (tb_policy p))"
      by (simp add: policy_within_cap_def)
    with False assms(1,5) magic regs show ?thesis unfolding tee_payload_types_def
      by (simp add: bs decode_tee_payload_def encode_body_def readers read_registrations_encode read_hashes_encode
          read_capped_oversized)
  qed
qed

text \<open>A payload with one allowlist entry too many.\<close>

definition oversized_policy_payload :: tee_bootstrap_payload where
  "oversized_policy_payload =
     \<lparr>tb_policy_hash = B256_ZERO, committee_snapshot_hash = B256_ZERO, committee_snapshot_block = 1,
      key_epoch = 0, tribute_offer_epoch = 0, dkg_transcript_hash = B256_ZERO,
      tribute_offer_public_key = B256_ZERO, registrations = [],
      tb_policy = \<lparr>allowed_mrsigner = replicate 65 B256_ZERO, allowed_mrenclave = [], min_isv_svn = 0\<rparr>,
      validator_signatures = []\<rparr>"

definition wf_policy :: "tee_policy \<Rightarrow> bool" where
  "wf_policy p \<longleftrightarrow>
     list_all (\<lambda>h. length h = 32) (allowed_mrsigner p) \<and> length (allowed_mrsigner p) \<le> MAX_TEE_POLICY_ENTRIES \<and>
     list_all (\<lambda>h. length h = 32) (allowed_mrenclave p) \<and> length (allowed_mrenclave p) \<le> MAX_TEE_POLICY_ENTRIES"

lemma counted_hashes_inj:
  assumes "count_u16 xs @ concat (sort xs) @ r = count_u16 ys @ concat (sort ys) @ s"
    and "\<forall>h\<in>set xs. length h = 32" "length xs \<le> MAX_TEE_POLICY_ENTRIES"
    and "\<forall>h\<in>set ys. length h = 32" "length ys \<le> MAX_TEE_POLICY_ENTRIES"
  shows "mset xs = mset ys \<and> r = s"
proof -
  have c: "count_u16 zs = count_u16 (sort zs)" for zs :: "b256 list" by (simp add: count_u16_def)
  have "Inr (sort xs, r) = read_capped [] MAX_TEE_POLICY_ENTRIES (take_n 32) (count_u16 xs @ concat (sort xs) @ r)"
    using assms(2,3) by (subst c, subst read_hashes_encode) simp_all
  also have "\<dots> = Inr (sort ys, s)"
    unfolding assms(1) using assms(4,5) by (subst c, subst read_hashes_encode) simp_all
  finally show ?thesis by (metis mset_sort Inr_inject prod.inject)
qed

text \<open>
  C33. The preimage of the policy hash is the same for two policies exactly when their
  allowlists agree up to order (as multisets) and the version floors are equal: insertion
  order does not matter, and nothing else is lost before hashing.
\<close>

theorem policy_preimage_iff:
  assumes "wf_policy p" and "wf_policy q"
  shows "policy_preimage p = policy_preimage q \<longleftrightarrow>
    mset (allowed_mrsigner p) = mset (allowed_mrsigner q) \<and>
    mset (allowed_mrenclave p) = mset (allowed_mrenclave q) \<and> min_isv_svn p = min_isv_svn q"
proof
  assume eq: "policy_preimage p = policy_preimage q"
  from assms have p: "\<forall>h\<in>set (allowed_mrsigner r). length h = 32" "length (allowed_mrsigner r) \<le> MAX_TEE_POLICY_ENTRIES"
    "\<forall>h\<in>set (allowed_mrenclave r). length h = 32" "length (allowed_mrenclave r) \<le> MAX_TEE_POLICY_ENTRIES"
    if "r = p \<or> r = q" for r using that by (auto simp: wf_policy_def list_all_iff)
  from eq have eq': "count_u16 (allowed_mrsigner p) @ concat (sort (allowed_mrsigner p)) @
      count_u16 (allowed_mrenclave p) @ concat (sort (allowed_mrenclave p)) @ to_be_bytes 2 (min_isv_svn p) =
      count_u16 (allowed_mrsigner q) @ concat (sort (allowed_mrsigner q)) @
      count_u16 (allowed_mrenclave q) @ concat (sort (allowed_mrenclave q)) @ to_be_bytes 2 (min_isv_svn q)"
    by (simp only: policy_preimage_def same_append_eq)
  have 1: "mset (allowed_mrsigner p) = mset (allowed_mrsigner q) \<and>
      count_u16 (allowed_mrenclave p) @ concat (sort (allowed_mrenclave p)) @ to_be_bytes 2 (min_isv_svn p) =
      count_u16 (allowed_mrenclave q) @ concat (sort (allowed_mrenclave q)) @ to_be_bytes 2 (min_isv_svn q)"
    by (rule counted_hashes_inj [OF eq']) (rule p; simp)+
  have 2: "mset (allowed_mrenclave p) = mset (allowed_mrenclave q) \<and>
      to_be_bytes 2 (min_isv_svn p) = to_be_bytes 2 (min_isv_svn q)"
    by (intro counted_hashes_inj [OF conjunct2 [OF 1]] p) simp_all
  then have "min_isv_svn p = min_isv_svn q"
    by (simp add: to_be_bytes_eq)
  with 1 2 show "mset (allowed_mrsigner p) = mset (allowed_mrsigner q) \<and>
    mset (allowed_mrenclave p) = mset (allowed_mrenclave q) \<and> min_isv_svn p = min_isv_svn q" by blast
next
  have sort_eq: "sort xs = sort ys" if "mset xs = mset ys" for xs ys :: "b256 list"
    using that by (intro properties_for_sort) simp_all
  assume "mset (allowed_mrsigner p) = mset (allowed_mrsigner q) \<and>
    mset (allowed_mrenclave p) = mset (allowed_mrenclave q) \<and> min_isv_svn p = min_isv_svn q"
  then have "sort (allowed_mrsigner p) = sort (allowed_mrsigner q)" "sort (allowed_mrenclave p) = sort (allowed_mrenclave q)"
    "length (allowed_mrsigner p) = length (allowed_mrsigner q)" "length (allowed_mrenclave p) = length (allowed_mrenclave q)"
    "min_isv_svn p = min_isv_svn q"
    by (auto intro: sort_eq mset_eq_length)
  then show "policy_preimage p = policy_preimage q"
    by (simp add: policy_preimage_def count_u16_def)
qed

theorem policy_preimage_iff_witness:
  "policy_preimage \<lparr>allowed_mrsigner = [replicate 32 2, replicate 32 1], allowed_mrenclave = [], min_isv_svn = 4\<rparr> =
   policy_preimage \<lparr>allowed_mrsigner = [replicate 32 1, replicate 32 2], allowed_mrenclave = [], min_isv_svn = 4\<rparr>"
  by (subst policy_preimage_iff) (simp_all add: wf_policy_def MAX_TEE_POLICY_ENTRIES_def add_mset_commute)

end
