(* ===== verification/System_Tx.thy ===== *)
theory System_Tx
  imports Block_Artifacts Tee_Bootstrap
begin

text \<open>
  The system transactions a block carries before its user transactions
  (\<^verbatim>\<open>crates/blockchain/primitives/src/system_tx.rs\<close>): their calldata codec, the cursor of the block
  executor over the begin zone, nonces, visible gas, the canonical envelope of the first one,
  and the split of a block body into zones. Signature hashing, signer recovery and the
  EIP-2718 decoder are parameters.
\<close>

section \<open>Kinds\<close>

definition SYSTEM_TX_INPUT_VERSION :: u8 where "SYSTEM_TX_INPUT_VERSION = 2"
definition CERTIFIED_PARENT_ACCOUNTING_SELECTOR :: bytes where "CERTIFIED_PARENT_ACCOUNTING_SELECTOR = [79, 83, 65, 51]"
definition CYCLE_TICK_SELECTOR :: bytes where "CYCLE_TICK_SELECTOR = [79, 83, 67, 50]"
definition BOUNDARY_OUTCOME_SELECTOR :: bytes where "BOUNDARY_OUTCOME_SELECTOR = [79, 83, 66, 50]"
definition ORACLE_SLASH_WINDOW_SELECTOR :: bytes where "ORACLE_SLASH_WINDOW_SELECTOR = [79, 83, 79, 50]"
definition TEE_BOOTSTRAP_SELECTOR :: bytes where "TEE_BOOTSTRAP_SELECTOR = [79, 83, 84, 50]"
definition LATE_FINALIZE_CREDITS_SELECTOR :: bytes where "LATE_FINALIZE_CREDITS_SELECTOR = [79, 83, 76, 50]"

lemmas selector_defs = CERTIFIED_PARENT_ACCOUNTING_SELECTOR_def CYCLE_TICK_SELECTOR_def
  BOUNDARY_OUTCOME_SELECTOR_def ORACLE_SLASH_WINDOW_SELECTOR_def TEE_BOOTSTRAP_SELECTOR_def
  LATE_FINALIZE_CREDITS_SELECTOR_def

definition MAX_SYSTEM_TXS_PER_BLOCK :: u8 where "MAX_SYSTEM_TXS_PER_BLOCK = 16"
definition SYSTEM_TX_VISIBLE_GAS_FLOOR :: u64 where "SYSTEM_TX_VISIBLE_GAS_FLOOR = 21000"
definition SYSTEM_TX_ZERO_BYTE_GAS :: u64 where "SYSTEM_TX_ZERO_BYTE_GAS = 4"
definition SYSTEM_TX_NON_ZERO_BYTE_GAS :: u64 where "SYSTEM_TX_NON_ZERO_BYTE_GAS = 16"
definition OUTBE_SYSTEM_TX_ADDRESS :: address where
  "OUTBE_SYSTEM_TX_ADDRESS = 0xff00000000000000000000000000000000000001"

datatype body_zone = BeginBlock | EndBlock

datatype system_tx_kind =
    KCertifiedParentAccounting | KLateFinalizeCredits | KCycleTick | KBoundaryOutcome | KTeeBootstrap
  | KOracleSlashWindow

fun selector :: "system_tx_kind \<Rightarrow> bytes" where
  "selector KCertifiedParentAccounting = CERTIFIED_PARENT_ACCOUNTING_SELECTOR"
| "selector KLateFinalizeCredits = LATE_FINALIZE_CREDITS_SELECTOR"
| "selector KCycleTick = CYCLE_TICK_SELECTOR"
| "selector KBoundaryOutcome = BOUNDARY_OUTCOME_SELECTOR"
| "selector KTeeBootstrap = TEE_BOOTSTRAP_SELECTOR"
| "selector KOracleSlashWindow = ORACLE_SLASH_WINDOW_SELECTOR"

definition kind_body_zone :: "system_tx_kind \<Rightarrow> body_zone" where
  "kind_body_zone k = BeginBlock"

fun revert_fails_block :: "system_tx_kind \<Rightarrow> bool" where
  "revert_fails_block KTeeBootstrap = False"
| "revert_fails_block KOracleSlashWindow = False"
| "revert_fails_block _ = True"

fun begin_order :: "system_tx_kind \<Rightarrow> u8 option" where
  "begin_order KCertifiedParentAccounting = Some 0"
| "begin_order KLateFinalizeCredits = Some 1"
| "begin_order KCycleTick = Some 2"
| "begin_order KBoundaryOutcome = Some 3"
| "begin_order KTeeBootstrap = Some 4"
| "begin_order KOracleSlashWindow = Some 5"

definition end_order :: "system_tx_kind \<Rightarrow> u8 option" where
  "end_order k = None"

fun order_in :: "system_tx_kind \<Rightarrow> body_zone \<Rightarrow> u8 option" where
  "order_in k BeginBlock = begin_order k"
| "order_in k EndBlock = end_order k"

datatype system_tx_error =
    InputTooShort nat
  | UnknownSelector bytes
  | UnsupportedVersion u8
  | UnexpectedBody system_tx_kind nat
  | MissingBoundaryOutcomeBody
  | Codec precompile_error
  | CalldataKindMismatch system_tx_kind system_tx_kind
  | OrdinalTooLarge u8 u8
  | NonceOverflow u64 u8
  | VisibleGasOverflow nat
  | SystemTxInWrongZone system_tx_kind body_zone body_zone
  | OutOfOrder body_zone system_tx_kind system_tx_kind
  | MidBlockSystemTx nat
  | TooManySystemTxs nat u8
  | ActiveSystemTxSetMismatch "system_tx_kind list" "system_tx_kind list" "system_tx_kind list"
  | V2Block1MissingBoundaryOutcome
  | Phase1TxDecode string
  | Phase1SignatureRecovery string
  | Phase1WrongRecipient
  | Phase1NonZeroValue
  | Phase1ChainIdMismatch u64 "u64 option"
  | Phase1NonceMismatch u64 u64
  | Phase1GasLimitMismatch u64 u64
  | Phase1CalldataMismatch
  | Phase1SignatureHashMismatch
  | Phase1SignerMismatch address address

text \<open>\<open>SystemTxError::from_precompile\<close>: the error is kept instead of its rendered text.\<close>

definition from_precompile :: "'a result \<Rightarrow> system_tx_error + 'a" where
  "from_precompile r = (case r of Inl e \<Rightarrow> Inl (Codec e) | Inr x \<Rightarrow> Inr x)"

definition system_tx_kind_from_selector :: "bytes \<Rightarrow> system_tx_error + system_tx_kind" where
  "system_tx_kind_from_selector s =
     (if s = CERTIFIED_PARENT_ACCOUNTING_SELECTOR then Inr KCertifiedParentAccounting
      else if s = LATE_FINALIZE_CREDITS_SELECTOR then Inr KLateFinalizeCredits
      else if s = CYCLE_TICK_SELECTOR then Inr KCycleTick
      else if s = BOUNDARY_OUTCOME_SELECTOR then Inr KBoundaryOutcome
      else if s = TEE_BOOTSTRAP_SELECTOR then Inr KTeeBootstrap
      else if s = ORACLE_SLASH_WINDOW_SELECTOR then Inr KOracleSlashWindow
      else Inl (UnknownSelector s))"

definition selector_from_input :: "bytes \<Rightarrow> system_tx_error + bytes" where
  "selector_from_input input =
     (if length input < 4 then Inl (InputTooShort (length input)) else Inr (take 4 input))"

section \<open>Calldata\<close>

datatype system_tx_input =
    CertifiedParentAccountingInput certified_parent_metadata
  | LateFinalizeCreditsInput "per_block_credit list"
  | CycleTickInput
  | BoundaryOutcomeInput dkg_boundary_artifact
  | TeeBootstrapInput tee_bootstrap_payload
  | OracleSlashWindowInput

fun input_kind :: "system_tx_input \<Rightarrow> system_tx_kind" where
  "input_kind (CertifiedParentAccountingInput _) = KCertifiedParentAccounting"
| "input_kind (LateFinalizeCreditsInput _) = KLateFinalizeCredits"
| "input_kind CycleTickInput = KCycleTick"
| "input_kind (BoundaryOutcomeInput _) = KBoundaryOutcome"
| "input_kind (TeeBootstrapInput _) = KTeeBootstrap"
| "input_kind OracleSlashWindowInput = KOracleSlashWindow"

fun encode_input_body :: "system_tx_input \<Rightarrow> system_tx_error + bytes" where
  "encode_input_body (CertifiedParentAccountingInput md) = from_precompile (encode_metadata md)"
| "encode_input_body CycleTickInput = Inr []"
| "encode_input_body OracleSlashWindowInput = Inr []"
| "encode_input_body (LateFinalizeCreditsInput a) = from_precompile (encode_late_finalize_credits_artifact a)"
| "encode_input_body (BoundaryOutcomeInput a) = from_precompile (encode_boundary_artifact a)"
| "encode_input_body (TeeBootstrapInput p) = from_precompile (encode_tee_payload p)"

definition encode_input :: "system_tx_input \<Rightarrow> system_tx_error + bytes" where
  "encode_input i =
     and_then (encode_input_body i) (\<lambda>body.
       Inr (selector (input_kind i) @ [SYSTEM_TX_INPUT_VERSION] @ body))"

fun decode_input_body :: "system_tx_kind \<Rightarrow> bytes \<Rightarrow> system_tx_error + system_tx_input" where
  "decode_input_body KCertifiedParentAccounting body =
     and_then (from_precompile (decode_metadata body)) (\<lambda>md. Inr (CertifiedParentAccountingInput md))"
| "decode_input_body KLateFinalizeCredits body =
     and_then (from_precompile (decode_late_finalize_credits_artifact body)) (\<lambda>a.
       Inr (LateFinalizeCreditsInput (case a of None \<Rightarrow> [] | Some cs \<Rightarrow> cs)))"
| "decode_input_body KCycleTick body =
     (if body \<noteq> [] then Inl (UnexpectedBody KCycleTick (length body)) else Inr CycleTickInput)"
| "decode_input_body KOracleSlashWindow body =
     (if body \<noteq> [] then Inl (UnexpectedBody KOracleSlashWindow (length body)) else Inr OracleSlashWindowInput)"
| "decode_input_body KBoundaryOutcome body =
     and_then (from_precompile (decode_boundary_artifact body)) (\<lambda>a.
       case a of None \<Rightarrow> Inl MissingBoundaryOutcomeBody | Some r \<Rightarrow> Inr (BoundaryOutcomeInput r))"
| "decode_input_body KTeeBootstrap body =
     and_then (from_precompile (decode_tee_payload body)) (\<lambda>p. Inr (TeeBootstrapInput p))"

definition decode_input :: "bytes \<Rightarrow> system_tx_error + system_tx_input" where
  "decode_input bs =
     (if length bs < 5 then Inl (InputTooShort (length bs))
      else and_then (selector_from_input bs) (\<lambda>sel.
        and_then (system_tx_kind_from_selector sel) (\<lambda>kind.
          if bs ! 4 \<noteq> SYSTEM_TX_INPUT_VERSION then Inl (UnsupportedVersion (bs ! 4))
          else decode_input_body kind (drop 5 bs))))"

section \<open>The cursor of the executor\<close>






definition expected_begin_block_kinds :: "u64 \<Rightarrow> bool \<Rightarrow> bool \<Rightarrow> system_tx_kind list" where
  "expected_begin_block_kinds bn has_boundary has_tee =
     (if bn = 0 then [] else if bn = 1 then [KCycleTick]
      else [KCertifiedParentAccounting, KLateFinalizeCredits, KCycleTick]) @
     (if 0 < bn \<and> has_boundary then [KBoundaryOutcome] else []) @
     (if 0 < bn \<and> has_tee then [KTeeBootstrap] else []) @
     (if 0 < bn then [KOracleSlashWindow] else [])"

section \<open>Envelopes\<close>

text \<open>
  The legacy transaction the proposer signs, and the envelope types of the transaction library:
  a signed transaction is an unsigned one, legacy or typed, with a signature. The accessors
  read the same field of either; \<open>typed_rest\<close> holds what only the typed kinds have (fee caps,
  access lists, blobs, authorisations).
\<close>

record tx_legacy =
  legacy_chain_id :: "u64 option"
  legacy_nonce :: u64
  legacy_gas_price :: u128
  legacy_gas_limit :: u64
  legacy_to :: "address option"
  legacy_value :: u256
  legacy_input :: bytes

record typed_tx =
  typed_kind :: u8
  typed_chain_id :: u64
  typed_nonce :: u64
  typed_gas_limit :: u64
  typed_to :: "address option"
  typed_value :: u256
  typed_input :: bytes
  typed_rest :: bytes

datatype unsigned_tx = LegacyTx tx_legacy | TypedTx typed_tx

record signed_tx =
  tx_unsigned :: unsigned_tx
  tx_signature :: bytes

definition tx_to :: "signed_tx \<Rightarrow> address option" where
  "tx_to tx = (case tx_unsigned tx of LegacyTx u \<Rightarrow> legacy_to u | TypedTx t \<Rightarrow> typed_to t)"

definition tx_value :: "signed_tx \<Rightarrow> u256" where
  "tx_value tx = (case tx_unsigned tx of LegacyTx u \<Rightarrow> legacy_value u | TypedTx t \<Rightarrow> typed_value t)"

definition tx_chain_id :: "signed_tx \<Rightarrow> u64 option" where
  "tx_chain_id tx =
     (case tx_unsigned tx of LegacyTx u \<Rightarrow> legacy_chain_id u | TypedTx t \<Rightarrow> Some (typed_chain_id t))"

definition tx_nonce :: "signed_tx \<Rightarrow> u64" where
  "tx_nonce tx = (case tx_unsigned tx of LegacyTx u \<Rightarrow> legacy_nonce u | TypedTx t \<Rightarrow> typed_nonce t)"

definition tx_gas_limit :: "signed_tx \<Rightarrow> u64" where
  "tx_gas_limit tx = (case tx_unsigned tx of LegacyTx u \<Rightarrow> legacy_gas_limit u | TypedTx t \<Rightarrow> typed_gas_limit t)"

definition tx_input :: "signed_tx \<Rightarrow> bytes" where
  "tx_input tx = (case tx_unsigned tx of LegacyTx u \<Rightarrow> legacy_input u | TypedTx t \<Rightarrow> typed_input t)"

lemmas tx_fields = tx_to_def tx_value_def tx_chain_id_def tx_nonce_def tx_gas_limit_def tx_input_def

text \<open>The calls into the transaction library; the signature hash is that of the unsigned transaction.\<close>

record tx_lib =
  signature_hash :: "unsigned_tx \<Rightarrow> b256"
  try_recover :: "signed_tx \<Rightarrow> string + address"
  decode_2718 :: "bytes \<Rightarrow> string + (signed_tx \<times> bytes)"

definition is_reserved_system_tx :: "signed_tx \<Rightarrow> bool" where
  "is_reserved_system_tx tx \<longleftrightarrow> tx_to tx = Some OUTBE_SYSTEM_TX_ADDRESS"

definition decode_system_tx_kind :: "signed_tx \<Rightarrow> system_tx_error + system_tx_kind" where
  "decode_system_tx_kind tx = and_then (decode_input (tx_input tx)) (\<lambda>i. Inr (input_kind i))"

definition system_tx_nonce :: "u64 \<Rightarrow> u8 \<Rightarrow> system_tx_error + u64" where
  "system_tx_nonce bn ordinal =
     (if MAX_SYSTEM_TXS_PER_BLOCK \<le> ordinal then Inl (OrdinalTooLarge ordinal MAX_SYSTEM_TXS_PER_BLOCK)
      else case checked_mul bn (ucast MAX_SYSTEM_TXS_PER_BLOCK) of
          None \<Rightarrow> Inl (NonceOverflow bn ordinal)
        | Some base \<Rightarrow> (case checked_add base (ucast ordinal) of
            None \<Rightarrow> Inl (NonceOverflow bn ordinal)
          | Some n \<Rightarrow> Inr n))"

fun gas_fold :: "bytes \<Rightarrow> u64 \<Rightarrow> u64 option" where
  "gas_fold [] gas = Some gas"
| "gas_fold (b # bs) gas =
     (case checked_add gas (if b = 0 then SYSTEM_TX_ZERO_BYTE_GAS else SYSTEM_TX_NON_ZERO_BYTE_GAS) of
        None \<Rightarrow> None | Some gas \<Rightarrow> gas_fold bs gas)"

definition system_tx_visible_gas_limit :: "bytes \<Rightarrow> system_tx_error + u64" where
  "system_tx_visible_gas_limit calldata =
     (case gas_fold calldata SYSTEM_TX_VISIBLE_GAS_FLOOR of
        None \<Rightarrow> Inl (VisibleGasOverflow (length calldata)) | Some g \<Rightarrow> Inr g)"

definition build_unsigned_system_tx ::
  "system_tx_kind \<Rightarrow> u8 \<Rightarrow> u64 \<Rightarrow> u64 \<Rightarrow> bytes \<Rightarrow> system_tx_error + tx_legacy" where
  "build_unsigned_system_tx kind ordinal bn chain_id calldata =
     and_then (decode_input calldata) (\<lambda>i.
     if input_kind i \<noteq> kind then Inl (CalldataKindMismatch kind (input_kind i))
     else and_then (system_tx_nonce bn ordinal) (\<lambda>nonce.
       and_then (system_tx_visible_gas_limit calldata) (\<lambda>gas.
         Inr \<lparr>legacy_chain_id = Some chain_id, legacy_nonce = nonce, legacy_gas_price = 0,
              legacy_gas_limit = gas, legacy_to = Some OUTBE_SYSTEM_TX_ADDRESS, legacy_value = 0,
              legacy_input = calldata\<rparr>)))"

definition validate_phase1_envelope_shape ::
  "tx_lib \<Rightarrow> signed_tx \<Rightarrow> bytes \<Rightarrow> u64 \<Rightarrow> u64 \<Rightarrow> system_tx_error + b256" where
  "validate_phase1_envelope_shape l tx calldata chain_id bn =
     (if tx_to tx \<noteq> Some OUTBE_SYSTEM_TX_ADDRESS then Inl Phase1WrongRecipient
      else if tx_value tx \<noteq> 0 then Inl Phase1NonZeroValue
      else if tx_chain_id tx \<noteq> Some chain_id then Inl (Phase1ChainIdMismatch chain_id (tx_chain_id tx))
      else and_then (system_tx_nonce bn 0) (\<lambda>expected_nonce.
        if tx_nonce tx \<noteq> expected_nonce then Inl (Phase1NonceMismatch expected_nonce (tx_nonce tx))
        else and_then (system_tx_visible_gas_limit calldata) (\<lambda>expected_gas.
          if tx_gas_limit tx \<noteq> expected_gas then Inl (Phase1GasLimitMismatch expected_gas (tx_gas_limit tx))
          else if tx_input tx \<noteq> calldata then Inl Phase1CalldataMismatch
          else and_then (decode_input calldata) (\<lambda>i.
            if input_kind i \<noteq> KCertifiedParentAccounting
            then Inl (CalldataKindMismatch KCertifiedParentAccounting (input_kind i))
            else and_then (build_unsigned_system_tx KCertifiedParentAccounting 0 bn chain_id calldata) (\<lambda>expected.
              if signature_hash l (tx_unsigned tx) \<noteq> signature_hash l (LegacyTx expected)
              then Inl Phase1SignatureHashMismatch
              else Inr (signature_hash l (tx_unsigned tx)))))))"

definition recover_tx :: "tx_lib \<Rightarrow> signed_tx \<Rightarrow> system_tx_error + address" where
  "recover_tx l tx = (case try_recover l tx of Inl e \<Rightarrow> Inl (Phase1SignatureRecovery e) | Inr a \<Rightarrow> Inr a)"

definition validate_phase1_witness_against ::
  "tx_lib \<Rightarrow> signed_tx \<Rightarrow> bytes \<Rightarrow> address \<Rightarrow> u64 \<Rightarrow> u64 \<Rightarrow> system_tx_error + b256" where
  "validate_phase1_witness_against l tx expected_calldata proposer chain_id bn =
     and_then (validate_phase1_envelope_shape l tx expected_calldata chain_id bn) (\<lambda>tx_hash.
     and_then (recover_tx l tx) (\<lambda>signer.
       if signer \<noteq> proposer then Inl (Phase1SignerMismatch proposer signer) else Inr tx_hash))"

definition recover_phase1_proposer ::
  "tx_lib \<Rightarrow> bytes \<Rightarrow> u64 \<Rightarrow> u64 \<Rightarrow> system_tx_error + (address \<times> bytes)" where
  "recover_phase1_proposer l tx_bytes chain_id bn =
     (case decode_2718 l tx_bytes of
        Inl e \<Rightarrow> Inl (Phase1TxDecode e)
      | Inr (tx, rest) \<Rightarrow>
          if rest \<noteq> [] then Inl (Phase1TxDecode ''phase1 tx has trailing bytes after EIP-2718 envelope'')
          else and_then (validate_phase1_envelope_shape l tx (tx_input tx) chain_id bn) (\<lambda>_.
            and_then (recover_tx l tx) (\<lambda>proposer. Inr (proposer, tx_input tx))))"

section \<open>Zones of a block body\<close>

record system_tx_layout =
  layout_begin :: "signed_tx list"
  layout_user :: "signed_tx list"
  layout_end :: "signed_tx list"

definition layout_is_empty :: "system_tx_layout \<Rightarrow> bool" where
  "layout_is_empty l \<longleftrightarrow> layout_begin l = [] \<and> layout_user l = [] \<and> layout_end l = []"

definition system_tx_count :: "system_tx_layout \<Rightarrow> nat" where
  "system_tx_count l = length (layout_begin l) + length (layout_end l)"

fun tx_kinds :: "signed_tx list \<Rightarrow> system_tx_error + system_tx_kind list" where
  "tx_kinds [] = Inr []"
| "tx_kinds (tx # txs) =
     and_then (decode_system_tx_kind tx) (\<lambda>k. and_then (tx_kinds txs) (\<lambda>ks. Inr (k # ks)))"

definition begin_block_kinds :: "system_tx_layout \<Rightarrow> system_tx_error + system_tx_kind list" where
  "begin_block_kinds l = tx_kinds (layout_begin l)"

definition end_block_kinds :: "system_tx_layout \<Rightarrow> system_tx_error + system_tx_kind list" where
  "end_block_kinds l = tx_kinds (layout_end l)"

definition has_begin_kind :: "system_tx_layout \<Rightarrow> system_tx_kind \<Rightarrow> bool" where
  "has_begin_kind l k = (case begin_block_kinds l of Inl _ \<Rightarrow> False | Inr ks \<Rightarrow> k \<in> set ks)"

definition ensure_system_tx_in_zone :: "system_tx_kind \<Rightarrow> body_zone \<Rightarrow> system_tx_error + unit" where
  "ensure_system_tx_in_zone k actual =
     (if kind_body_zone k \<noteq> actual then Inl (SystemTxInWrongZone k (kind_body_zone k) actual) else Inr ())"

definition ensure_monotonic ::
  "body_zone \<Rightarrow> system_tx_kind option \<Rightarrow> system_tx_kind \<Rightarrow> system_tx_error + unit" where
  "ensure_monotonic zone previous current =
     (case previous of
        None \<Rightarrow> Inr ()
      | Some prev \<Rightarrow>
          (case order_in prev zone of
             None \<Rightarrow> Inl (SystemTxInWrongZone prev (kind_body_zone prev) zone)
           | Some po \<Rightarrow>
               (case order_in current zone of
                  None \<Rightarrow> Inl (SystemTxInWrongZone current (kind_body_zone current) zone)
                | Some co \<Rightarrow> if co \<le> po then Inl (OutOfOrder zone prev current) else Inr ())))"

text \<open>The prefix loop: the begin zone and what is left of the block.\<close>

fun split_prefix ::
  "system_tx_kind option \<Rightarrow> signed_tx list \<Rightarrow> system_tx_error + (signed_tx list \<times> signed_tx list)" where
  "split_prefix previous [] = Inr ([], [])"
| "split_prefix previous (tx # txs) =
     (if \<not> is_reserved_system_tx tx then Inr ([], tx # txs)
      else and_then (decode_system_tx_kind tx) (\<lambda>kind.
        and_then (ensure_system_tx_in_zone kind BeginBlock) (\<lambda>_.
        and_then (ensure_monotonic BeginBlock previous kind) (\<lambda>_.
        and_then (split_prefix (Some kind) txs) (\<lambda>(begin_zone, rest). Inr (tx # begin_zone, rest))))))"

text \<open>
  The suffix loop runs from the last transaction backwards: the argument is the reversed
  rest, the result the suffix in block order and the reversed middle.
\<close>

fun split_suffix ::
  "(signed_tx \<times> system_tx_kind) list \<Rightarrow> signed_tx list \<Rightarrow>
     system_tx_error + ((signed_tx \<times> system_tx_kind) list \<times> signed_tx list)" where
  "split_suffix acc [] = Inr (acc, [])"
| "split_suffix acc (tx # txs) =
     (if \<not> is_reserved_system_tx tx then Inr (acc, tx # txs)
      else and_then (decode_system_tx_kind tx) (\<lambda>kind.
        and_then (ensure_system_tx_in_zone kind EndBlock) (\<lambda>_. split_suffix ((tx, kind) # acc) txs)))"

fun check_end_order :: "system_tx_kind option \<Rightarrow> (signed_tx \<times> system_tx_kind) list \<Rightarrow> system_tx_error + unit" where
  "check_end_order previous [] = Inr ()"
| "check_end_order previous ((tx, kind) # rest) =
     and_then (ensure_monotonic EndBlock previous kind) (\<lambda>_. check_end_order (Some kind) rest)"

fun check_user_zone :: "nat \<Rightarrow> signed_tx list \<Rightarrow> system_tx_error + unit" where
  "check_user_zone i [] = Inr ()"
| "check_user_zone i (tx # txs) =
     (if is_reserved_system_tx tx then Inl (MidBlockSystemTx i) else check_user_zone (Suc i) txs)"

definition split_system_layout :: "signed_tx list \<Rightarrow> system_tx_error + system_tx_layout" where
  "split_system_layout txs =
     and_then (split_prefix None txs) (\<lambda>(begin_zone, rest).
     and_then (split_suffix [] (rev rest)) (\<lambda>(suffix, rev_middle).
     and_then (check_end_order None suffix) (\<lambda>_.
     and_then (check_user_zone (length begin_zone) (rev rev_middle)) (\<lambda>_.
       Inr \<lparr>layout_begin = begin_zone, layout_user = rev rev_middle, layout_end = map fst suffix\<rparr>))))"

definition validate_active_system_tx_set ::
  "system_tx_layout \<Rightarrow> u64 \<Rightarrow> bool \<Rightarrow> bool \<Rightarrow> system_tx_error + unit" where
  "validate_active_system_tx_set l bn has_boundary has_tee =
     (if unat MAX_SYSTEM_TXS_PER_BLOCK < system_tx_count l
      then Inl (TooManySystemTxs (system_tx_count l) MAX_SYSTEM_TXS_PER_BLOCK)
      else if bn = 1 \<and> \<not> has_boundary then Inl V2Block1MissingBoundaryOutcome
      else
        let expected = expected_begin_block_kinds bn has_boundary has_tee
        in and_then (begin_block_kinds l) (\<lambda>actual_begin.
           and_then (end_block_kinds l) (\<lambda>actual_end.
             if actual_begin \<noteq> expected \<or> actual_end \<noteq> []
             then Inl (ActiveSystemTxSetMismatch expected actual_begin actual_end) else Inr ())))"

section \<open>Calldata round trip\<close>

text \<open>What the types of an input fix: the lengths of its hashes, keys and signatures.\<close>

fun input_types :: "system_tx_input \<Rightarrow> bool" where
  "input_types (CertifiedParentAccountingInput md) \<longleftrightarrow> length (finalized_block_hash md) = 32 \<and>
     length (metadata_committee_set_hash md) = 32 \<and> length (vrf_group_public_key_hash md) = 32"
| "input_types (LateFinalizeCreditsInput cs) = artifact_types (default_artifacts\<lparr>late_finalize_credits := Some cs\<rparr>)"
| "input_types (BoundaryOutcomeInput r) = boundary_types r"
| "input_types (TeeBootstrapInput p) = tee_payload_types p"
| "input_types _ = True"

text \<open>The one cap the decoder checks and the encoder does not.\<close>

fun input_within_cap :: "system_tx_input \<Rightarrow> bool" where
  "input_within_cap (TeeBootstrapInput p) = policy_within_cap (tb_policy p)"
| "input_within_cap _ = True"

lemma length_selector [simp]: "length (selector k) = 4"
  by (cases k) (simp_all add: selector_defs)

lemma kind_of_selector [simp]: "system_tx_kind_from_selector (selector k) = Inr k"
  by (cases k) (simp_all add: system_tx_kind_from_selector_def selector_defs)

lemma from_precompile_Inr [simp]: "from_precompile r = Inr x \<longleftrightarrow> r = Inr x"
  by (auto simp: from_precompile_def split: sum.splits)

lemma from_precompile_of [simp]: "from_precompile (Inr x) = Inr x" "from_precompile (Inl e) = Inl (Codec e)"
  by (simp_all add: from_precompile_def)

lemma decode_late_credits_body:
  assumes "encode_late_finalize_credits_artifact cs = Inr bs" "input_types (LateFinalizeCreditsInput cs)"
  shows "decode_late_finalize_credits_artifact bs = Inr (if cs = [] then None else Some cs)"
  using decode_encode_artifacts [of "default_artifacts\<lparr>late_finalize_credits := Some cs\<rparr>" bs] assms
  by (simp add: encode_late_finalize_credits_artifact_def decode_late_finalize_credits_artifact_def normalise_def)

lemma decode_boundary_body:
  assumes "encode_boundary_artifact r = Inr bs" "boundary_types r"
  shows "decode_boundary_artifact bs = Inr (Some r)"
  using decode_encode_artifacts [of "default_artifacts\<lparr>header_artifact := Some (BoundaryOutcome r)\<rparr>" bs] assms
  by (simp add: encode_boundary_artifact_def encode_consensus_header_artifact_def decode_boundary_artifact_def
      decode_consensus_header_artifact_def normalise_def artifact_types_def default_artifacts_def)

lemma decode_metadata_body:
  assumes "encode_metadata md = Inr bs" "input_types (CertifiedParentAccountingInput md)"
  shows "decode_metadata bs = Inr md"
  using assms encode_metadata_Inr [of md bs] decode_encode_metadata [of md bs] by simp

lemma decode_encode_input_body:
  assumes "encode_input_body i = Inr body" "input_types i"
  shows "decode_input_body (input_kind i) body = Inr i \<longleftrightarrow> input_within_cap i"
  using assms
  by (cases i) (simp_all add: decode_metadata_body tee_roundtrip_within_cap decode_late_credits_body
      decode_boundary_body and_then_eq_Inr)

lemma decode_encoded_input:
  assumes "encode_input i = Inr bs"
  shows "\<exists>body. encode_input_body i = Inr body \<and> decode_input bs = decode_input_body (input_kind i) body \<and>
    selector_from_input bs = Inr (selector (input_kind i))"
proof -
  from assms obtain body where body: "encode_input_body i = Inr body"
    and bs: "bs = selector (input_kind i) @ [SYSTEM_TX_INPUT_VERSION] @ body"
    by (auto simp: encode_input_def and_then_eq_Inr)
  have "bs ! 4 = SYSTEM_TX_INPUT_VERSION" "drop 5 bs = body" "take 4 bs = selector (input_kind i)" "5 \<le> length bs"
    by (simp_all add: bs nth_append)
  with body show ?thesis by (simp add: decode_input_def selector_from_input_def)
qed

text \<open>
  C35. The selector of encoded calldata names the input's kind, so the six formats cannot be
  confused with one another, and the calldata decodes to the input it was encoded from exactly
  when the allowlists of a bootstrap payload are within the cap of 64 entries; inputs of the
  five other kinds always decode. An allowlist beyond the cap (and below 65536 entries, where
  its count still fits) is encoded all the same and the decoder answers with the error for it.
\<close>

theorem system_tx_input_roundtrip:
  assumes "encode_input i = Inr bs" and "input_types i"
  shows "selector_from_input bs = Inr (selector (input_kind i)) \<and>
    (decode_input bs = Inr i \<longleftrightarrow> input_within_cap i) \<and>
    (\<forall>p. i = TeeBootstrapInput p \<and> \<not> policy_within_cap (tb_policy p) \<and>
       length (allowed_mrsigner (tb_policy p)) < 2 ^ 16 \<and> length (allowed_mrenclave (tb_policy p)) < 2 ^ 16 \<longrightarrow>
       decode_input bs = Inl (Codec (Revert
         (if MAX_TEE_POLICY_ENTRIES < length (allowed_mrsigner (tb_policy p)) then ''too many policy mrsigner entries''
          else ''too many policy mrenclave entries''))))"
proof -
  obtain body where body: "encode_input_body i = Inr body" "decode_input bs = decode_input_body (input_kind i) body"
    "selector_from_input bs = Inr (selector (input_kind i))"
    using decode_encoded_input [OF assms(1)] by blast
  moreover have "decode_input bs = Inl (Codec (Revert
      (if MAX_TEE_POLICY_ENTRIES < length (allowed_mrsigner (tb_policy p)) then ''too many policy mrsigner entries''
       else ''too many policy mrenclave entries'')))"
    if "i = TeeBootstrapInput p" "\<not> policy_within_cap (tb_policy p)"
      "length (allowed_mrsigner (tb_policy p)) < 2 ^ 16" "length (allowed_mrenclave (tb_policy p)) < 2 ^ 16" for p
    using body that assms(2) tee_oversized_policy_error [of p body] by simp
  ultimately show ?thesis using decode_encode_input_body [OF body(1) assms(2)] by simp
qed

section \<open>The cursor visits the expected transactions\<close>








section \<open>Nonces\<close>

lemma system_tx_nonce_Inr:
  "system_tx_nonce bn k = Inr n \<longleftrightarrow> unat k < 16 \<and> unat n = 16 * unat bn + unat k"
proof -
  have c16: "unat (ucast MAX_SYSTEM_TXS_PER_BLOCK :: u64) = 16" by (simp add: MAX_SYSTEM_TXS_PER_BLOCK_def)
  have le: "MAX_SYSTEM_TXS_PER_BLOCK \<le> k \<longleftrightarrow> 16 \<le> unat k"
    by (simp add: MAX_SYSTEM_TXS_PER_BLOCK_def word_le_nat_alt)
  have n64: "unat n < 2 ^ 64" using unat_lt_2p [of n] by simp
  show ?thesis
  proof (cases "unat bn * 16 + unat k < 2 ^ 64")
    case True
    let ?b = "bn * ucast MAX_SYSTEM_TXS_PER_BLOCK"
    have mul: "checked_mul bn (ucast MAX_SYSTEM_TXS_PER_BLOCK) = Some ?b" "unat ?b = unat bn * 16"
      using True by (simp_all add: checked_mul_def c16 unat_mult_exact)
    have "checked_add ?b (ucast k) = Some (?b + ucast k)" "unat (?b + ucast k) = unat bn * 16 + unat k"
      using True mul(2) by (simp_all add: checked_add_def unat_add_exact)
    with mul(1) le show ?thesis
      by (auto simp: system_tx_nonce_def intro: word_unat_eq_iff [THEN iffD2])
  next
    case False
    have "\<not> (checked_mul bn (ucast MAX_SYSTEM_TXS_PER_BLOCK) = Some m \<and> checked_add m (ucast k) = Some n)" for m
      using False n64 by (auto dest!: checked_mul_Some checked_add_Some simp: c16)
    then show ?thesis
      using False n64 by (auto simp: system_tx_nonce_def split: option.splits if_splits)
  qed
qed

text \<open>
  The nonce of a system transaction is \<open>16 * block + ordinal\<close> without wrap-around, an error
  when the ordinal or the product does not fit, and no two transactions of any two blocks
  share a nonce.
\<close>

theorem system_tx_nonce_correct:
  "(system_tx_nonce bn k = Inr n \<longleftrightarrow> unat k < 16 \<and> unat n = 16 * unat bn + unat k) \<and>
   (system_tx_nonce bn k = Inr n \<and> system_tx_nonce bn' k' = Inr n \<longrightarrow> bn = bn' \<and> k = k')"
proof (intro conjI impI)
  show "system_tx_nonce bn k = Inr n \<longleftrightarrow> unat k < 16 \<and> unat n = 16 * unat bn + unat k"
    by (rule system_tx_nonce_Inr)
next
  assume "system_tx_nonce bn k = Inr n \<and> system_tx_nonce bn' k' = Inr n"
  then have lt: "unat k < 16" "unat k' < 16" and eq: "16 * unat bn + unat k = 16 * unat bn' + unat k'"
    by (simp_all add: system_tx_nonce_Inr)
  have "(16 * unat bn + unat k) div 16 = unat bn" "(16 * unat bn' + unat k') div 16 = unat bn'"
    using lt by (simp_all add: div_mult_self2)
  with eq have "unat bn = unat bn' \<and> unat k = unat k'" by simp
  then show "bn = bn'" and "k = k'" by (simp_all add: word_unat_eq_iff)
qed

theorem system_tx_nonce_correct_witness:
  "system_tx_nonce 3 2 = Inr 50 \<and> system_tx_nonce 2 2 \<noteq> Inr 50"
  using system_tx_nonce_correct [of 3 2 50 2 2] by auto

section \<open>Accepted block layouts\<close>

fun ordered_from :: "system_tx_kind option \<Rightarrow> system_tx_kind list \<Rightarrow> bool" where
  "ordered_from prev [] = True"
| "ordered_from prev (k # ks) \<longleftrightarrow> ensure_monotonic BeginBlock prev k = Inr () \<and> ordered_from (Some k) ks"

lemma and_then_unit_Inr: "and_then r (\<lambda>_ :: unit. k) = Inr y \<longleftrightarrow> r = Inr () \<and> k = Inr y"
  by (cases r) auto

lemma in_begin_zone [simp]: "ensure_system_tx_in_zone k BeginBlock = Inr ()"
  by (simp add: ensure_system_tx_in_zone_def kind_body_zone_def)

lemma not_in_end_zone [simp]: "ensure_system_tx_in_zone k EndBlock = Inl (SystemTxInWrongZone k BeginBlock EndBlock)"
  by (simp add: ensure_system_tx_in_zone_def kind_body_zone_def)

lemma split_prefix_iff:
  "split_prefix prev txs = Inr (bz, rest) \<longleftrightarrow>
     txs = bz @ rest \<and> list_all is_reserved_system_tx bz \<and> (rest = [] \<or> \<not> is_reserved_system_tx (hd rest)) \<and>
     (\<exists>ks. tx_kinds bz = Inr ks \<and> ordered_from prev ks)"
proof (induction txs arbitrary: prev bz)
  case Nil
  then show ?case by auto
next
  case (Cons tx txs)
  show ?case
  proof (cases bz)
    case Nil
    then show ?thesis
      by (auto simp: and_then_eq_Inr and_then_unit_Inr)
  next
    case (Cons x xs)
    have "split_prefix prev (tx # txs) = Inr (x # xs, rest) \<longleftrightarrow>
        is_reserved_system_tx tx \<and> x = tx \<and>
        (\<exists>k. decode_system_tx_kind tx = Inr k \<and> ensure_monotonic BeginBlock prev k = Inr () \<and>
          split_prefix (Some k) txs = Inr (xs, rest))"
      by (auto simp: and_then_eq_Inr and_then_unit_Inr)
    then show ?thesis
      unfolding Cons Cons.IH by (auto simp: and_then_eq_Inr)
  qed
qed

lemma split_suffix_iff:
  "split_suffix [] txs = Inr (suffix, mid) \<longleftrightarrow>
     suffix = [] \<and> mid = txs \<and> (txs = [] \<or> \<not> is_reserved_system_tx (hd txs))"
  by (cases txs) (auto simp: and_then_eq_Inr)

lemma check_user_zone_iff:
  "check_user_zone i txs = Inr () \<longleftrightarrow> list_all (\<lambda>tx. \<not> is_reserved_system_tx tx) txs"
  by (induction txs arbitrary: i) auto

lemma split_system_layout_iff:
  "split_system_layout txs = Inr l \<longleftrightarrow>
     txs = layout_begin l @ layout_user l \<and> layout_end l = [] \<and>
     list_all is_reserved_system_tx (layout_begin l) \<and>
     list_all (\<lambda>tx. \<not> is_reserved_system_tx tx) (layout_user l) \<and>
     (\<exists>ks. tx_kinds (layout_begin l) = Inr ks \<and> ordered_from None ks)"
proof -
  have "split_system_layout txs = Inr l \<longleftrightarrow>
     (\<exists>bz rest. split_prefix None txs = Inr (bz, rest) \<and> (rest = [] \<or> \<not> is_reserved_system_tx (last rest)) \<and>
       list_all (\<lambda>tx. \<not> is_reserved_system_tx tx) rest \<and> l = \<lparr>layout_begin = bz, layout_user = rest, layout_end = []\<rparr>)"
    by (auto simp: split_system_layout_def and_then_eq_Inr and_then_unit_Inr split_suffix_iff check_user_zone_iff hd_rev)
  moreover have "list_all P xs \<Longrightarrow> xs = [] \<or> P (last xs)" "list_all P xs \<Longrightarrow> xs = [] \<or> P (hd xs)"
    for P :: "signed_tx \<Rightarrow> bool" and xs by (metis last_in_set list_all_iff, metis hd_in_set list_all_iff)
  ultimately show ?thesis
    unfolding split_prefix_iff by (cases l) auto
qed

lemma ordered_expected: "ordered_from None (expected_begin_block_kinds bn b t)"
  by (simp add: expected_begin_block_kinds_def ensure_monotonic_def word_le_nat_alt)

lemma tx_kinds_iff: "tx_kinds txs = Inr ks \<longleftrightarrow> map decode_system_tx_kind txs = map Inr ks"
proof (induction txs arbitrary: ks)
  case (Cons tx txs)
  then show ?case by (cases ks) (auto simp: and_then_eq_Inr)
qed auto

text \<open>
  C9. A block body passes the split and the set check exactly when it is the expected
  system transactions, in order and each exactly once, followed by transactions none of which
  goes to the reserved address; block 1 must carry the boundary outcome. The result is that
  split, with an empty end zone.
\<close>

theorem accepted_layout_iff:
  "split_system_layout txs = Inr l \<and> validate_active_system_tx_set l bn b t = Inr () \<longleftrightarrow>
     txs = layout_begin l @ layout_user l \<and> layout_end l = [] \<and>
     list_all is_reserved_system_tx (layout_begin l) \<and>
     map decode_system_tx_kind (layout_begin l) = map Inr (expected_begin_block_kinds bn b t) \<and>
     list_all (\<lambda>tx. \<not> is_reserved_system_tx tx) (layout_user l) \<and> \<not> (bn = 1 \<and> \<not> b)"
proof -
  have len: "length (expected_begin_block_kinds bn b t) \<le> 6" by (simp add: expected_begin_block_kinds_def)
  have count: "length (layout_begin l) = length (expected_begin_block_kinds bn b t)"
    if "map decode_system_tx_kind (layout_begin l) = map Inr (expected_begin_block_kinds bn b t)"
    using that by (metis length_map)
  have "validate_active_system_tx_set l bn b t = Inr () \<longleftrightarrow> (bn = 1 \<longrightarrow> b) \<and>
      tx_kinds (layout_begin l) = Inr (expected_begin_block_kinds bn b t)" if "layout_end l = []"
    using that len count unfolding tx_kinds_iff [symmetric]
    by (auto simp: validate_active_system_tx_set_def system_tx_count_def begin_block_kinds_def end_block_kinds_def
        MAX_SYSTEM_TXS_PER_BLOCK_def Let_def and_then_eq_Inr)
  then show ?thesis
    using ordered_expected [of bn b t] unfolding split_system_layout_iff tx_kinds_iff [symmetric] by auto
qed

section \<open>The canonical first transaction\<close>

text \<open>
  No legacy transaction other than \<open>tx\<close> itself has the signature hash of \<open>tx\<close>: the hash is
  keccak-256 of an encoding of every field that the transaction types do not share.
\<close>

definition no_hash_collision :: "tx_lib \<Rightarrow> signed_tx \<Rightarrow> bool" where
  "no_hash_collision l tx \<longleftrightarrow>
     (\<forall>u. signature_hash l (tx_unsigned tx) = signature_hash l (LegacyTx u) \<longrightarrow> tx_unsigned tx = LegacyTx u)"

lemma envelope_shape_Inr:
  "validate_phase1_envelope_shape l tx calldata chain_id bn = Inr h \<longleftrightarrow>
     (\<exists>u. build_unsigned_system_tx KCertifiedParentAccounting 0 bn chain_id calldata = Inr u \<and>
       tx_to tx = legacy_to u \<and> tx_value tx = legacy_value u \<and> tx_chain_id tx = legacy_chain_id u \<and>
       tx_nonce tx = legacy_nonce u \<and> tx_gas_limit tx = legacy_gas_limit u \<and> tx_input tx = legacy_input u \<and>
       signature_hash l (tx_unsigned tx) = signature_hash l (LegacyTx u) \<and> h = signature_hash l (tx_unsigned tx))"
  unfolding validate_phase1_envelope_shape_def build_unsigned_system_tx_def if_Inl_eq_Inr and_then_eq_Inr
  by auto

text \<open>
  C36. A first system transaction is accepted for a calldata, proposer, chain and block exactly
  when the builder produces an unsigned transaction for them (so the calldata decodes as
  certified-parent accounting), the signed one has its recipient, value, chain, nonce, gas limit
  and input and the same signature hash, and the signature recovers to the proposer. The gas
  price and the transaction type are compared only through that hash: if no other legacy
  transaction has the hash of the signed one, it is accepted exactly when it is the builder's
  legacy transaction in every field, gas price 0 included.
\<close>

theorem phase1_witness_iff:
  "(validate_phase1_witness_against l tx calldata proposer chain_id bn = Inr h \<longleftrightarrow>
     (\<exists>u. build_unsigned_system_tx KCertifiedParentAccounting 0 bn chain_id calldata = Inr u \<and>
       tx_to tx = legacy_to u \<and> tx_value tx = legacy_value u \<and> tx_chain_id tx = legacy_chain_id u \<and>
       tx_nonce tx = legacy_nonce u \<and> tx_gas_limit tx = legacy_gas_limit u \<and> tx_input tx = legacy_input u \<and>
       signature_hash l (tx_unsigned tx) = signature_hash l (LegacyTx u) \<and> h = signature_hash l (tx_unsigned tx) \<and>
       try_recover l tx = Inr proposer)) \<and>
   (no_hash_collision l tx \<longrightarrow>
     (validate_phase1_witness_against l tx calldata proposer chain_id bn = Inr h \<longleftrightarrow>
       (\<exists>u. build_unsigned_system_tx KCertifiedParentAccounting 0 bn chain_id calldata = Inr u \<and>
         legacy_gas_price u = 0 \<and> tx_unsigned tx = LegacyTx u \<and> h = signature_hash l (LegacyTx u) \<and>
         try_recover l tx = Inr proposer)))"
proof -
  have price: "legacy_gas_price u = 0"
    if "build_unsigned_system_tx KCertifiedParentAccounting 0 bn chain_id calldata = Inr u" for u
    using that by (auto simp: build_unsigned_system_tx_def and_then_eq_Inr split: if_splits)
  have first: "validate_phase1_witness_against l tx calldata proposer chain_id bn = Inr h \<longleftrightarrow>
     (\<exists>u. build_unsigned_system_tx KCertifiedParentAccounting 0 bn chain_id calldata = Inr u \<and>
       tx_to tx = legacy_to u \<and> tx_value tx = legacy_value u \<and> tx_chain_id tx = legacy_chain_id u \<and>
       tx_nonce tx = legacy_nonce u \<and> tx_gas_limit tx = legacy_gas_limit u \<and> tx_input tx = legacy_input u \<and>
       signature_hash l (tx_unsigned tx) = signature_hash l (LegacyTx u) \<and> h = signature_hash l (tx_unsigned tx) \<and>
       try_recover l tx = Inr proposer)"
    unfolding validate_phase1_witness_against_def and_then_eq_Inr recover_tx_def envelope_shape_Inr
    by (auto split: sum.splits)
  have same: "tx_to tx = legacy_to u \<and> tx_value tx = legacy_value u \<and> tx_chain_id tx = legacy_chain_id u \<and>
      tx_nonce tx = legacy_nonce u \<and> tx_gas_limit tx = legacy_gas_limit u \<and> tx_input tx = legacy_input u"
    if "tx_unsigned tx = LegacyTx u" for u
    using that by (simp add: tx_fields)
  show ?thesis
  proof (intro conjI impI first)
    assume "no_hash_collision l tx"
    then have hash: "signature_hash l (tx_unsigned tx) = signature_hash l (LegacyTx u) \<longleftrightarrow> tx_unsigned tx = LegacyTx u" for u
      by (auto simp: no_hash_collision_def)
    show "validate_phase1_witness_against l tx calldata proposer chain_id bn = Inr h \<longleftrightarrow>
       (\<exists>u. build_unsigned_system_tx KCertifiedParentAccounting 0 bn chain_id calldata = Inr u \<and>
         legacy_gas_price u = 0 \<and> tx_unsigned tx = LegacyTx u \<and> h = signature_hash l (LegacyTx u) \<and>
         try_recover l tx = Inr proposer)"
      unfolding first by (rule ex_cong1) (use price same hash in auto)
  qed
qed

section \<open>Witnesses\<close>

text \<open>Certified-parent accounting of block 7 in block 8 of chain 9, and its canonical transaction.\<close>

definition vrf_metadata :: certified_parent_metadata where
  "vrf_metadata = \<lparr>finalized_block_number = 7, finalized_block_hash = replicate 32 9, finalized_epoch = 1,
     finalized_view = 2, parent_view = 1, ordered_committee = [5], signer_bitmap = [1], proof_bytes = [],
     metadata_committee_set_hash = replicate 32 1, metadata_vrf_material_version = 2,
     vrf_group_public_key_hash = replicate 32 1, proof_kind = Finalization, missed_proposers = []\<rparr>"

definition vrf_calldata :: bytes where
  "vrf_calldata = selector KCertifiedParentAccounting @ [SYSTEM_TX_INPUT_VERSION] @
     CERTIFIED_PARENT_ACCOUNTING_MAGIC @ CERTIFIED_PARENT_ACCOUNTING_VERSION # encode_fields vrf_metadata"

definition vrf_unsigned :: tx_legacy where
  "vrf_unsigned = \<lparr>legacy_chain_id = Some 9, legacy_nonce = 128, legacy_gas_price = 0,
     legacy_gas_limit = (case system_tx_visible_gas_limit vrf_calldata of Inl _ \<Rightarrow> 0 | Inr g \<Rightarrow> g),
     legacy_to = Some OUTBE_SYSTEM_TX_ADDRESS, legacy_value = 0, legacy_input = vrf_calldata\<rparr>"

definition vrf_tx :: signed_tx where
  "vrf_tx = \<lparr>tx_unsigned = LegacyTx vrf_unsigned, tx_signature = []\<rparr>"

text \<open>A library whose hash tells this transaction from every other, signed by account 5.\<close>

definition vrf_lib :: tx_lib where
  "vrf_lib = \<lparr>signature_hash = (\<lambda>t. if t = LegacyTx vrf_unsigned then replicate 32 1 else B256_ZERO),
     try_recover = (\<lambda>_. Inr 5), decode_2718 = (\<lambda>_. Inr (vrf_tx, []))\<rparr>"

lemma vrf_encodes: "encode_input (CertifiedParentAccountingInput vrf_metadata) = Inr vrf_calldata"
proof -
  have "encode_metadata vrf_metadata =
      Inr (CERTIFIED_PARENT_ACCOUNTING_MAGIC @ CERTIFIED_PARENT_ACCOUNTING_VERSION # encode_fields vrf_metadata)"
    by (subst encode_metadata_Inr) (simp_all add: vrf_metadata_def wf_metadata_def)
  then show ?thesis by (simp add: encode_input_def vrf_calldata_def)
qed

lemma vrf_types: "input_types (CertifiedParentAccountingInput vrf_metadata)"
  by (simp add: vrf_metadata_def)

lemma vrf_decodes: "decode_input vrf_calldata = Inr (CertifiedParentAccountingInput vrf_metadata)"
  using decode_encoded_input [OF vrf_encodes] decode_encode_input_body [OF _ vrf_types] by auto

lemma gas_small: "unat g + 16 * length bs < 2 ^ 64 \<Longrightarrow> \<exists>g'. gas_fold bs g = Some g'"
proof (induction bs arbitrary: g)
  case (Cons b bs)
  define k where "k = (if b = 0 then SYSTEM_TX_ZERO_BYTE_GAS else SYSTEM_TX_NON_ZERO_BYTE_GAS)"
  have "unat k \<le> 16" by (simp add: k_def SYSTEM_TX_ZERO_BYTE_GAS_def SYSTEM_TX_NON_ZERO_BYTE_GAS_def)
  with Cons.prems have fits: "unat g + unat k < 2 ^ 64" and rest: "unat g + unat k + 16 * length bs < 2 ^ 64" by simp_all
  from fits have "unat (g + k) = unat g + unat k" by (simp add: unat_add_exact)
  with rest Cons.IH [of "g + k"] fits show ?case by (simp add: checked_add_def k_def [symmetric])
qed simp

lemma vrf_gas: "\<exists>g. system_tx_visible_gas_limit vrf_calldata = Inr g"
proof -
  have "length vrf_calldata < 1000"
    by (simp add: vrf_calldata_def encode_fields_def vrf_metadata_def CERTIFIED_PARENT_ACCOUNTING_MAGIC_def ascii_def
        encode_addresses_def encode_bytes_u32_def del: selector.simps)
  then show ?thesis using gas_small [of SYSTEM_TX_VISIBLE_GAS_FLOOR vrf_calldata]
    by (auto simp: system_tx_visible_gas_limit_def SYSTEM_TX_VISIBLE_GAS_FLOOR_def)
qed

lemma vrf_builds: "build_unsigned_system_tx KCertifiedParentAccounting 0 8 9 vrf_calldata = Inr vrf_unsigned"
proof -
  obtain g where g: "system_tx_visible_gas_limit vrf_calldata = Inr g" using vrf_gas by blast
  have n: "system_tx_nonce 8 0 = Inr 128"
    by (simp add: system_tx_nonce_def checked_mul_def checked_add_def MAX_SYSTEM_TXS_PER_BLOCK_def)
  show ?thesis by (simp add: build_unsigned_system_tx_def vrf_unsigned_def vrf_decodes g n)
qed

lemma oversized_encodes:
  "\<exists>bs. encode_input (TeeBootstrapInput oversized_policy_payload) = Inr bs"
  by (simp add: encode_input_def encode_tee_payload_def oversized_policy_payload_def MAX_TEE_REGISTRATIONS_def)

theorem system_tx_input_roundtrip_witness:
  "encode_input (CertifiedParentAccountingInput vrf_metadata) = Inr vrf_calldata \<and>
   decode_input vrf_calldata = Inr (CertifiedParentAccountingInput vrf_metadata) \<and>
   (\<exists>bs. encode_input (TeeBootstrapInput oversized_policy_payload) = Inr bs \<and>
      decode_input bs = Inl (Codec (Revert ''too many policy mrsigner entries'')))"
proof -
  obtain bs where bs: "encode_input (TeeBootstrapInput oversized_policy_payload) = Inr bs"
    using oversized_encodes by blast
  have "input_types (TeeBootstrapInput oversized_policy_payload)"
    by (simp add: tee_payload_types_def oversized_policy_payload_def)
  from system_tx_input_roundtrip [OF bs this]
  have "decode_input bs = Inl (Codec (Revert ''too many policy mrsigner entries''))"
    by (simp add: oversized_policy_payload_def policy_within_cap_def MAX_TEE_POLICY_ENTRIES_def)
  with bs system_tx_input_roundtrip [OF vrf_encodes vrf_types] vrf_encodes show ?thesis by auto
qed

theorem phase1_witness_iff_witness:
  "no_hash_collision vrf_lib vrf_tx \<and>
   validate_phase1_witness_against vrf_lib vrf_tx vrf_calldata 5 9 8 = Inr (replicate 32 1)"
proof -
  have "no_hash_collision vrf_lib vrf_tx"
    by (simp add: no_hash_collision_def vrf_lib_def vrf_tx_def B256_ZERO_def)
  moreover have "tx_unsigned vrf_tx = LegacyTx vrf_unsigned" "legacy_gas_price vrf_unsigned = 0"
    "replicate 32 1 = signature_hash vrf_lib (LegacyTx vrf_unsigned)" "try_recover vrf_lib vrf_tx = Inr 5"
    by (simp_all add: vrf_tx_def vrf_unsigned_def vrf_lib_def)
  ultimately show ?thesis
    using vrf_builds phase1_witness_iff [of vrf_lib vrf_tx vrf_calldata 5 9 8 "replicate 32 1"] by blast
qed

end
