(* ===== verification/Tee_Registry.thy ===== *)
theory Tee_Registry
  imports Tee_Bootstrap Validator_Registry
begin

text \<open>
  The enclave registry (\<^verbatim>\<open>crates/system/teeregistry/src/runtime.rs\<close>, \<^verbatim>\<open>schema.rs\<close>): its slots,
  every operation that writes them, and the one-time bootstrap of the begin-block precompile
  (\<open>run_tee_bootstrap\<close> of \<^verbatim>\<open>crates/blockchain/evm/src/begin_block_precompile.rs\<close>) with all its
  checks. The enclave's sealing call is a parameter.
\<close>

section \<open>Storage\<close>

record tee_registry =
  tee_bootstrapped :: bool
  tee_offer_public_key :: b256
  tee_policy_hash :: b256
  tee_key_epoch :: u64
  tee_tribute_offer_epoch :: u64
  tee_dkg_transcript_hash :: b256
  tee_committee_snapshot_block :: u64
  tee_committee_snapshot_hash :: b256
  tee_registered_count :: u32
  tee_recipient_x25519 :: "address \<Rightarrow> b256"
  tee_attestation_pub :: "address \<Rightarrow> b256"
  tee_noise_static_pub :: "address \<Rightarrow> b256"
  tee_mrenclave :: "address \<Rightarrow> b256"
  tee_mrsigner :: "address \<Rightarrow> b256"
  tee_isv_svn :: "address \<Rightarrow> u64"
  tee_keys_hash :: "address \<Rightarrow> b256"
  tee_announced_recipient_x25519 :: "address \<Rightarrow> b256"
  tee_events :: "(address \<times> bytes) list"

record tee_registration =
  rg_validator :: address
  rg_recipient_x25519 :: b256
  rg_attestation_pub :: b256
  rg_noise_static_pub :: b256
  rg_mrenclave :: b256
  rg_mrsigner :: b256
  rg_isv_svn :: u64
  rg_keys_hash :: b256

record tee_bootstrap_data =
  bd_tribute_offer_public_key :: b256
  bd_policy_hash :: b256
  bd_key_epoch :: u64
  bd_tribute_offer_epoch :: u64
  bd_dkg_transcript_hash :: b256
  bd_committee_snapshot_block :: u64
  bd_committee_snapshot_hash :: b256
  bd_registrations :: "tee_registration list"

section \<open>Operations\<close>

definition compute_keys_hash ::
  "crypto \<Rightarrow> address \<Rightarrow> b256 \<Rightarrow> b256 \<Rightarrow> b256 \<Rightarrow> b256 \<Rightarrow> b256 \<Rightarrow> u16 \<Rightarrow> b256" where
  "compute_keys_hash c validator recipient attestation noise enclave signer svn =
     keccak256 c (TEE_KEYS_HASH_DOMAIN @ to_be_bytes 20 validator @ recipient @ attestation @ noise @ enclave @
       signer @ to_be_bytes 2 svn)"

definition registration :: "tee_registry \<Rightarrow> address \<Rightarrow> tee_registration" where
  "registration r v =
     \<lparr>rg_validator = v, rg_recipient_x25519 = tee_recipient_x25519 r v,
      rg_attestation_pub = tee_attestation_pub r v, rg_noise_static_pub = tee_noise_static_pub r v,
      rg_mrenclave = tee_mrenclave r v, rg_mrsigner = tee_mrsigner r v,
      rg_isv_svn = tee_isv_svn r v, rg_keys_hash = tee_keys_hash r v\<rparr>"

definition record_boundary_recipient_keys :: "(address \<times> b256) list \<Rightarrow> tee_registry \<Rightarrow> tee_registry" where
  "record_boundary_recipient_keys keys r =
     fold (\<lambda>(v, k) r. r\<lparr>tee_announced_recipient_x25519 := (tee_announced_recipient_x25519 r)(v := k)\<rparr>) keys r"

definition write_registration :: "tee_registration \<Rightarrow> tee_registry \<Rightarrow> tee_registry" where
  "write_registration g r =
     (let v = rg_validator g
      in r\<lparr>tee_recipient_x25519 := (tee_recipient_x25519 r)(v := rg_recipient_x25519 g),
           tee_attestation_pub := (tee_attestation_pub r)(v := rg_attestation_pub g),
           tee_noise_static_pub := (tee_noise_static_pub r)(v := rg_noise_static_pub g),
           tee_mrenclave := (tee_mrenclave r)(v := rg_mrenclave g),
           tee_mrsigner := (tee_mrsigner r)(v := rg_mrsigner g),
           tee_isv_svn := (tee_isv_svn r)(v := rg_isv_svn g),
           tee_keys_hash := (tee_keys_hash r)(v := rg_keys_hash g)\<rparr>)"

definition write_bootstrap :: "tee_bootstrap_data \<Rightarrow> tee_registry \<Rightarrow> tee_registry result" where
  "write_bootstrap d r =
     (if tee_bootstrapped r then Inl (Revert ''TEE registry already bootstrapped'')
      else if \<not> length (bd_registrations d) < 2 ^ 32 then Inl (Revert ''too many TEE registrations'')
      else
        let r = r\<lparr>tee_offer_public_key := bd_tribute_offer_public_key d, tee_policy_hash := bd_policy_hash d,
                  tee_key_epoch := bd_key_epoch d, tee_tribute_offer_epoch := bd_tribute_offer_epoch d,
                  tee_dkg_transcript_hash := bd_dkg_transcript_hash d,
                  tee_committee_snapshot_block := bd_committee_snapshot_block d,
                  tee_committee_snapshot_hash := bd_committee_snapshot_hash d\<rparr>;
            r = fold write_registration (bd_registrations d) r
        in Inr (r\<lparr>tee_registered_count := word_of_nat (length (bd_registrations d)), tee_bootstrapped := True\<rparr>))"

definition record_reshare_registrations :: "(address \<times> b256 \<times> b256 \<times> b256) list \<Rightarrow> tee_registry \<Rightarrow> tee_registry" where
  "record_reshare_registrations regs r =
     fold (\<lambda>(v, x, a, n) r.
         r\<lparr>tee_recipient_x25519 := (tee_recipient_x25519 r)(v := x),
           tee_attestation_pub := (tee_attestation_pub r)(v := a),
           tee_noise_static_pub := (tee_noise_static_pub r)(v := n)\<rparr>) regs r"

definition verify_enclave_registration ::
  "address \<Rightarrow> b256 \<Rightarrow> b256 \<Rightarrow> b256 \<Rightarrow> b256 \<Rightarrow> b256 \<Rightarrow> u16 \<Rightarrow> bool result" where
  "verify_enclave_registration caller recipient attestation noise enclave signer svn = Inr True"

text \<open>
  \<open>seal\<close> is \<open>outbe_tee::seal_offer_key_for_registry\<close>: an error, or the sealed blob if the node
  has an enclave.
\<close>

definition register_enclave ::
  "crypto \<Rightarrow> (b256 \<Rightarrow> string + bytes option) \<Rightarrow> address \<Rightarrow> b256 \<Rightarrow> b256 \<Rightarrow> b256 \<Rightarrow> b256 \<Rightarrow> b256 \<Rightarrow> u16 \<Rightarrow>
     tee_registry \<Rightarrow> tee_registry result" where
  "register_enclave c seal caller recipient attestation noise enclave signer svn r =
     and_then (verify_enclave_registration caller recipient attestation noise enclave signer svn) (\<lambda>ok.
     if \<not> ok then Inl (Revert ''enclave registration attestation verification failed'')
     else
       let first_time = tee_recipient_x25519 r caller = B256_ZERO;
           r = write_registration
                 \<lparr>rg_validator = caller, rg_recipient_x25519 = recipient, rg_attestation_pub = attestation,
                  rg_noise_static_pub = noise, rg_mrenclave = enclave, rg_mrsigner = signer,
                  rg_isv_svn = ucast svn,
                  rg_keys_hash = compute_keys_hash c caller recipient attestation noise enclave signer svn\<rparr> r;
           r = (if first_time then r\<lparr>tee_registered_count := saturating_add (tee_registered_count r) 1\<rparr> else r)
       in if tee_offer_public_key r = B256_ZERO then Inr r
          else case seal recipient of
            Inr (Some sealed) \<Rightarrow> Inr (r\<lparr>tee_events := tee_events r @ [(caller, sealed)]\<rparr>)
          | Inr None \<Rightarrow> Inr r
          | Inl e \<Rightarrow> Inl (Revert ''offer-key seal for registration failed''))"

section \<open>The bootstrap system transaction\<close>

definition check_registration ::
  "crypto \<Rightarrow> address set \<Rightarrow> tee_registration_bundle \<Rightarrow> address set \<Rightarrow> address set result" where
  "check_registration c com g seen =
     (if computed_keys_hash c g \<noteq> tr_keys_hash g then Inl (Revert ''TeeBootstrap: keys_hash mismatch for registration'')
      else if tr_validator g \<notin> com then Inl (Revert ''TeeBootstrap: registration for non-committee validator'')
      else if tr_validator g \<in> seen then Inl (Revert ''TeeBootstrap: duplicate registration for validator'')
      else Inr (insert (tr_validator g) seen))"

definition check_signature ::
  "crypto \<Rightarrow> ecdsa \<Rightarrow> b256 \<Rightarrow> address set \<Rightarrow> tee_validator_signature \<Rightarrow> address set \<Rightarrow> address set result" where
  "check_signature c k digest com sig seen =
     and_then (recover_signer c k digest (ts_signature sig)) (\<lambda>recovered.
       if recovered \<noteq> ts_validator sig then Inl (Revert ''TeeBootstrap: signature signer does not match declared validator'')
       else if ts_validator sig \<notin> com then Inl (Revert ''TeeBootstrap: signature from non-committee validator'')
       else if ts_validator sig \<in> seen then Inl (Revert ''TeeBootstrap: duplicate signature for validator'')
       else Inr (insert (ts_validator sig) seen))"

definition check_policy :: "crypto \<Rightarrow> tee_bootstrap_payload \<Rightarrow> b256 \<Rightarrow> unit result" where
  "check_policy c p genesis =
     (if tb_policy_hash p \<noteq> compute_hash c (tb_policy p)
      then Inl (Revert ''TeeBootstrap: policy_hash does not commit to the payload policy allowlist'')
      else if genesis \<noteq> B256_ZERO then
        (if tb_policy_hash p \<noteq> genesis then Inl (Revert ''TeeBootstrap: payload policy_hash does not match genesis teePolicy'')
         else fold_res (\<lambda>g _. if admits (tb_policy p) (tr_mrsigner g) (tr_mrenclave g) (tr_isv_svn g) then Inr ()
                              else Inl (Revert ''TeeBootstrap: registration fails genesis teePolicy''))
                (registrations p) ())
      else Inr ())"

definition registration_of :: "tee_registration_bundle \<Rightarrow> tee_registration" where
  "registration_of g =
     \<lparr>rg_validator = tr_validator g, rg_recipient_x25519 = tr_recipient_x25519 g,
      rg_attestation_pub = tr_attestation_pub g, rg_noise_static_pub = tr_noise_static_pub g,
      rg_mrenclave = tr_mrenclave g, rg_mrsigner = tr_mrsigner g, rg_isv_svn = ucast (tr_isv_svn g),
      rg_keys_hash = tr_keys_hash g\<rparr>"

definition bootstrap_data :: "tee_bootstrap_payload \<Rightarrow> tee_bootstrap_data" where
  "bootstrap_data p =
     \<lparr>bd_tribute_offer_public_key = tribute_offer_public_key p, bd_policy_hash = tb_policy_hash p,
      bd_key_epoch = key_epoch p, bd_tribute_offer_epoch = tribute_offer_epoch p,
      bd_dkg_transcript_hash = dkg_transcript_hash p,
      bd_committee_snapshot_block = committee_snapshot_block p,
      bd_committee_snapshot_hash = committee_snapshot_hash p,
      bd_registrations = map registration_of (registrations p)\<rparr>"

text \<open>The counts are bounded by the caps of the codec and of the validator set, so no product saturates.\<close>

definition run_tee_bootstrap ::
  "crypto \<Rightarrow> ecdsa \<Rightarrow> u64 \<Rightarrow> validator_set \<Rightarrow> tee_bootstrap_payload \<Rightarrow> tee_registry \<Rightarrow> tee_registry result" where
  "run_tee_bootstrap c k bn vs p r =
     (if tee_bootstrapped r then Inl (Revert ''TeeBootstrap: registry already bootstrapped'')
      else if committee_snapshot_block p \<noteq> bn
      then Inl (Revert ''TeeBootstrap: committee_snapshot_block != current block'')
      else
        let com = set (map validator_address (get_active_consensus_set vs))
        in if com = {} then Inl (Revert ''TeeBootstrap: no active consensus committee to authorize bootstrap'')
           else and_then (fold_res (check_registration c com) (registrations p) {}) (\<lambda>registrants.
             let digest = signing_hash c p
             in and_then (fold_res (check_signature c k digest com) (validator_signatures p) {}) (\<lambda>signers.
               if registrants \<noteq> signers
               then Inl (Revert ''TeeBootstrap: registrations and signatures cover different validator sets'')
               else if card signers * 3 \<le> card com * 2
               then Inl (Revert ''TeeBootstrap: insufficient validator signatures'')
               else and_then (check_policy c p (tee_policy_hash r)) (\<lambda>_.
                 write_bootstrap (bootstrap_data p) r))))"

section \<open>Who can bootstrap the registry, and what it then holds\<close>

text \<open>A loop that checks each element and collects its key, rejecting a key seen before.\<close>

lemma fold_res_collect:
  assumes "\<And>x s t. f x s = Inr t \<longleftrightarrow> P x \<and> k x \<notin> s \<and> t = insert (k x) s"
  shows "fold_res f xs s = Inr t \<longleftrightarrow>
    list_all P xs \<and> distinct (map k xs) \<and> set (map k xs) \<inter> s = {} \<and> t = set (map k xs) \<union> s"
  by (induction xs arbitrary: s) (auto simp: and_then_eq_Inr assms)

lemma check_registrations_iff:
  "fold_res (check_registration c com) gs {} = Inr t \<longleftrightarrow>
     list_all (\<lambda>g. computed_keys_hash c g = tr_keys_hash g \<and> tr_validator g \<in> com) gs \<and>
     distinct (map tr_validator gs) \<and> t = set (map tr_validator gs)"
  by (subst fold_res_collect [where P = "\<lambda>g. computed_keys_hash c g = tr_keys_hash g \<and> tr_validator g \<in> com"
        and k = tr_validator]) (auto simp: check_registration_def)

lemma check_signatures_iff:
  "fold_res (check_signature c k digest com) ss {} = Inr t \<longleftrightarrow>
     list_all (\<lambda>s. recover_signer c k digest (ts_signature s) = Inr (ts_validator s) \<and> ts_validator s \<in> com) ss \<and>
     distinct (map ts_validator ss) \<and> t = set (map ts_validator ss)"
  by (subst fold_res_collect [where P = "\<lambda>s. recover_signer c k digest (ts_signature s) = Inr (ts_validator s) \<and>
        ts_validator s \<in> com" and k = ts_validator])
     (auto simp: check_signature_def and_then_eq_Inr)

lemma fold_res_unit_iff:
  "fold_res (\<lambda>x _. if P x then Inr () else Inl e) xs () = Inr () \<longleftrightarrow> list_all P xs"
  by (induction xs) auto

lemma check_policy_iff:
  "check_policy c p genesis = Inr () \<longleftrightarrow>
     tb_policy_hash p = compute_hash c (tb_policy p) \<and>
     (genesis = B256_ZERO \<or> tb_policy_hash p = genesis \<and>
       list_all (\<lambda>g. admits (tb_policy p) (tr_mrsigner g) (tr_mrenclave g) (tr_isv_svn g)) (registrations p))"
  by (auto simp: check_policy_def fold_res_unit_iff)

text \<open>What the begin-block transaction demands of the payload.\<close>

definition bootstrap_authorised ::
  "crypto \<Rightarrow> ecdsa \<Rightarrow> u64 \<Rightarrow> address list \<Rightarrow> tee_bootstrap_payload \<Rightarrow> b256 \<Rightarrow> bool" where
  "bootstrap_authorised c k bn com p genesis \<longleftrightarrow>
     committee_snapshot_block p = bn \<and>
     list_all (\<lambda>g. tr_keys_hash g = computed_keys_hash c g) (registrations p) \<and>
     list_all (\<lambda>s. recover_signer c k (signing_hash c p) (ts_signature s) = Inr (ts_validator s)) (validator_signatures p) \<and>
     distinct (map tr_validator (registrations p)) \<and> distinct (map ts_validator (validator_signatures p)) \<and>
     set (map tr_validator (registrations p)) = set (map ts_validator (validator_signatures p)) \<and>
     set (map ts_validator (validator_signatures p)) \<subseteq> set com \<and>
     2 * card (set com) < 3 * length (validator_signatures p) \<and>
     tb_policy_hash p = compute_hash c (tb_policy p) \<and>
     (genesis = B256_ZERO \<or> tb_policy_hash p = genesis \<and>
       list_all (\<lambda>g. admits (tb_policy p) (tr_mrsigner g) (tr_mrenclave g) (tr_isv_svn g)) (registrations p))"

lemma run_tee_bootstrap_eq_Inr:
  "run_tee_bootstrap c k bn vs p r = Inr r' \<longleftrightarrow>
     \<not> tee_bootstrapped r \<and>
     bootstrap_authorised c k bn (map validator_address (get_active_consensus_set vs)) p (tee_policy_hash r) \<and>
     write_bootstrap (bootstrap_data p) r = Inr r'"
proof -
  let ?com = "set (map validator_address (get_active_consensus_set vs))"
  let ?sg = "set (map ts_validator (validator_signatures p))"
  have card: "card ?sg = length (validator_signatures p)" if "distinct (map ts_validator (validator_signatures p))"
    using distinct_card [OF that] by simp
  have sub: "list_all (\<lambda>x. P x \<and> f x \<in> A) xs \<longleftrightarrow> list_all P xs \<and> set (map f xs) \<subseteq> A"
    for P and f :: "'x \<Rightarrow> address" and A xs
    by (auto simp: list_all_iff)
  have pol: "and_then (check_policy c p (tee_policy_hash r)) (\<lambda>_. X) = Inr r' \<longleftrightarrow>
     check_policy c p (tee_policy_hash r) = Inr () \<and> X = Inr r'" for X
    by (auto simp: and_then_eq_Inr)
  show ?thesis
    unfolding run_tee_bootstrap_def Let_def if_Inl_eq_Inr and_then_eq_Inr [of "fold_res _ _ _"]
      check_registrations_iff check_signatures_iff sub pol check_policy_iff bootstrap_authorised_def
    using card by (auto simp: list_all_iff) (metis imageI subsetD)+
qed

lemma fold_write_registration:
  assumes "distinct (map rg_validator gs)"
  shows "registration (fold write_registration gs r) v =
    (case find (\<lambda>g. rg_validator g = v) gs of Some g \<Rightarrow> g | None \<Rightarrow> registration r v)"
  using assms
proof (induction gs arbitrary: r)
  case (Cons g gs)
  have "find (\<lambda>h. rg_validator h = v) gs = None" if "rg_validator g = v"
    using Cons.prems that by (auto simp: find_None_iff) (metis image_eqI)
  then show ?case
    using Cons by (auto simp: registration_def write_registration_def Let_def split: option.splits)
qed simp

lemma fold_write_registration_frame:
  "tee_offer_public_key (fold write_registration gs r) = tee_offer_public_key r"
  "tee_policy_hash (fold write_registration gs r) = tee_policy_hash r"
  "tee_key_epoch (fold write_registration gs r) = tee_key_epoch r"
  "tee_announced_recipient_x25519 (fold write_registration gs r) = tee_announced_recipient_x25519 r"
  by (induction gs arbitrary: r) (simp_all add: write_registration_def Let_def)

lemma registration_cong:
  "tee_recipient_x25519 r = tee_recipient_x25519 s \<Longrightarrow> tee_attestation_pub r = tee_attestation_pub s \<Longrightarrow>
   tee_noise_static_pub r = tee_noise_static_pub s \<Longrightarrow> tee_mrenclave r = tee_mrenclave s \<Longrightarrow>
   tee_mrsigner r = tee_mrsigner s \<Longrightarrow> tee_isv_svn r = tee_isv_svn s \<Longrightarrow> tee_keys_hash r = tee_keys_hash s \<Longrightarrow>
   registration r v = registration s v"
  by (simp add: registration_def)

lemma write_bootstrap_result:
  assumes "write_bootstrap (bootstrap_data p) r = Inr r'" and "distinct (map tr_validator (registrations p))"
  shows "tee_bootstrapped r'" "tee_offer_public_key r' = tribute_offer_public_key p"
    "tee_policy_hash r' = tb_policy_hash p" "unat (tee_registered_count r') = length (registrations p)"
    "registration r' v = (case find (\<lambda>g. tr_validator g = v) (registrations p) of
       Some g \<Rightarrow> registration_of g | None \<Rightarrow> registration r v)"
proof -
  define r1 where "r1 = r\<lparr>tee_offer_public_key := tribute_offer_public_key p, tee_policy_hash := tb_policy_hash p,
     tee_key_epoch := key_epoch p, tee_tribute_offer_epoch := tribute_offer_epoch p,
     tee_dkg_transcript_hash := dkg_transcript_hash p, tee_committee_snapshot_block := committee_snapshot_block p,
     tee_committee_snapshot_hash := committee_snapshot_hash p\<rparr>"
  let ?gs = "map registration_of (registrations p)"
  have r': "r' = (fold write_registration ?gs r1)
      \<lparr>tee_registered_count := word_of_nat (length ?gs), tee_bootstrapped := True\<rparr>" "length ?gs < 2 ^ 32"
    using assms(1) by (auto simp: write_bootstrap_def bootstrap_data_def r1_def Let_def)
  have k: "rg_validator \<circ> registration_of = tr_validator" by (simp add: registration_of_def fun_eq_iff)
  have fnd: "find (\<lambda>g. rg_validator g = v) (map registration_of xs) = map_option registration_of (find (\<lambda>g. tr_validator g = v) xs)"
    for xs by (induction xs) (simp_all add: registration_of_def)
  show "tee_bootstrapped r'" "tee_offer_public_key r' = tribute_offer_public_key p"
    "tee_policy_hash r' = tb_policy_hash p"
    by (simp_all add: r' r1_def fold_write_registration_frame)
  show "unat (tee_registered_count r') = length (registrations p)"
    using r'(2) by (simp add: r'(1) unat_of_nat)
  have "registration r' v = registration (fold write_registration ?gs r1) v"
    unfolding r'(1) by (rule registration_cong) simp_all
  also have "\<dots> = (case find (\<lambda>g. tr_validator g = v) (registrations p) of
       Some g \<Rightarrow> registration_of g | None \<Rightarrow> registration r1 v)"
    using assms(2) by (subst fold_write_registration) (auto simp: k fnd split: option.splits)
  also have "registration r1 v = registration r v" by (rule registration_cong) (simp_all add: r1_def)
  finally show "registration r' v = (case find (\<lambda>g. tr_validator g = v) (registrations p) of
       Some g \<Rightarrow> registration_of g | None \<Rightarrow> registration r v)" .
qed

text \<open>
  C10. The bootstrap transaction succeeds exactly when the registry is still empty, the
  payload is for this block, every registration carries the hash of its own keys, every
  signature recovers to its declared validator over the signed body, registrants and signers
  are the same duplicate-free set of committee members and more than two thirds of the
  committee, and the allowlist commits to the policy hash and, with a genesis policy, admits
  every enclave. It then stores the offer key and exactly the registrations of the payload;
  every other validator keeps its entry.
\<close>

theorem run_tee_bootstrap_correct:
  assumes "length (registrations p) < 2 ^ 32"
  shows "((\<exists>r'. run_tee_bootstrap c k bn vs p r = Inr r') \<longleftrightarrow>
      \<not> tee_bootstrapped r \<and>
      bootstrap_authorised c k bn (map validator_address (get_active_consensus_set vs)) p (tee_policy_hash r)) \<and>
    (\<forall>r'. run_tee_bootstrap c k bn vs p r = Inr r' \<longrightarrow>
      tee_bootstrapped r' \<and> tee_offer_public_key r' = tribute_offer_public_key p \<and>
      tee_policy_hash r' = tb_policy_hash p \<and> unat (tee_registered_count r') = length (registrations p) \<and>
      (\<forall>v. registration r' v = (case find (\<lambda>g. tr_validator g = v) (registrations p) of
        Some g \<Rightarrow> registration_of g | None \<Rightarrow> registration r v)))"
proof (intro conjI allI impI)
  have "\<exists>r'. write_bootstrap (bootstrap_data p) r = Inr r'" if "\<not> tee_bootstrapped r"
    using assms that by (simp add: write_bootstrap_def bootstrap_data_def Let_def)
  then show "(\<exists>r'. run_tee_bootstrap c k bn vs p r = Inr r') \<longleftrightarrow>
      \<not> tee_bootstrapped r \<and>
      bootstrap_authorised c k bn (map validator_address (get_active_consensus_set vs)) p (tee_policy_hash r)"
    by (auto simp: run_tee_bootstrap_eq_Inr)
next
  fix r' v
  assume "run_tee_bootstrap c k bn vs p r = Inr r'"
  then have "write_bootstrap (bootstrap_data p) r = Inr r'" "distinct (map tr_validator (registrations p))"
    by (auto simp: run_tee_bootstrap_eq_Inr bootstrap_authorised_def)
  note res = write_bootstrap_result [OF this]
  from res show "tee_bootstrapped r'" "tee_offer_public_key r' = tribute_offer_public_key p"
    "tee_policy_hash r' = tb_policy_hash p" "unat (tee_registered_count r') = length (registrations p)"
    "registration r' v = (case find (\<lambda>g. tr_validator g = v) (registrations p) of
        Some g \<Rightarrow> registration_of g | None \<Rightarrow> registration r v)" by blast+
qed

section \<open>The bootstrap is final\<close>

text \<open>
  The transactions that write the registry: the bootstrap, a boundary outcome (announced keys,
  then reshare registrations) and an enclave registration by any caller.
\<close>

inductive tee_step :: "crypto \<Rightarrow> ecdsa \<Rightarrow> (b256 \<Rightarrow> string + bytes option) \<Rightarrow> tee_registry \<Rightarrow> tee_registry \<Rightarrow> bool"
  for c k seal where
  bootstrap: "run_tee_bootstrap c k bn vs p r = Inr r' \<Longrightarrow> tee_step c k seal r r'"
| boundary: "tee_step c k seal r (record_reshare_registrations regs (record_boundary_recipient_keys keys r))"
| enclave: "register_enclave c seal caller x a n e s svn r = Inr r' \<Longrightarrow> tee_step c k seal r r'"

definition bootstrap_slots :: "tee_registry \<Rightarrow> b256 \<times> b256 \<times> u64 \<times> u64 \<times> b256 \<times> u64 \<times> b256" where
  "bootstrap_slots r = (tee_offer_public_key r, tee_policy_hash r, tee_key_epoch r, tee_tribute_offer_epoch r,
     tee_dkg_transcript_hash r, tee_committee_snapshot_block r, tee_committee_snapshot_hash r)"

lemma fold_keeps: "(\<And>x r. g (f x r) = g r) \<Longrightarrow> g (fold f xs r) = g r"
  by (induction xs arbitrary: r) simp_all

lemma boundary_keeps_bootstrap:
  "bootstrap_slots (record_reshare_registrations regs (record_boundary_recipient_keys keys r)) = bootstrap_slots r"
  "tee_bootstrapped (record_reshare_registrations regs (record_boundary_recipient_keys keys r)) = tee_bootstrapped r"
proof -
  have "bootstrap_slots (record_reshare_registrations regs s) = bootstrap_slots s"
    "tee_bootstrapped (record_reshare_registrations regs s) = tee_bootstrapped s"
    "bootstrap_slots (record_boundary_recipient_keys keys s) = bootstrap_slots s"
    "tee_bootstrapped (record_boundary_recipient_keys keys s) = tee_bootstrapped s" for s
    unfolding record_reshare_registrations_def record_boundary_recipient_keys_def
    by (rule fold_keeps; simp add: bootstrap_slots_def case_prod_beta)+
  then show "bootstrap_slots (record_reshare_registrations regs (record_boundary_recipient_keys keys r)) = bootstrap_slots r"
    "tee_bootstrapped (record_reshare_registrations regs (record_boundary_recipient_keys keys r)) = tee_bootstrapped r"
    by (simp_all only:)
qed

lemma register_enclave_result:
  assumes "register_enclave c seal caller x a n e s svn r = Inr r'"
  shows "bootstrap_slots r' = bootstrap_slots r" "tee_bootstrapped r' = tee_bootstrapped r"
    "registration r' v =
       (if v = caller then \<lparr>rg_validator = caller, rg_recipient_x25519 = x, rg_attestation_pub = a,
          rg_noise_static_pub = n, rg_mrenclave = e, rg_mrsigner = s, rg_isv_svn = ucast svn,
          rg_keys_hash = compute_keys_hash c caller x a n e s svn\<rparr>
        else registration r v)"
  using assms
  by (auto simp: register_enclave_def verify_enclave_registration_def bootstrap_slots_def registration_def
      write_registration_def Let_def split: if_splits sum.splits option.splits)

lemma tee_step_keeps_bootstrap:
  assumes "tee_step c k seal r r'" and "tee_bootstrapped r"
  shows "tee_bootstrapped r' \<and> bootstrap_slots r' = bootstrap_slots r"
  using assms
proof cases
  case (bootstrap bn vs p)
  with assms(2) show ?thesis by (simp add: run_tee_bootstrap_def)
qed (use assms(2) boundary_keeps_bootstrap register_enclave_result(1,2) in auto)

text \<open>
  C31. Once the registry is bootstrapped, no sequence of transactions changes the offer key,
  the policy hash, the epochs, the transcript or the committee binding, and every later
  bootstrap transaction, whatever its payload, committee and block, is refused with the same
  error.
\<close>

theorem bootstrap_is_final:
  assumes "(tee_step c k seal)\<^sup>*\<^sup>* r r'" and "tee_bootstrapped r"
  shows "bootstrap_slots r' = bootstrap_slots r \<and>
    run_tee_bootstrap c k bn vs p r' = Inl (Revert ''TeeBootstrap: registry already bootstrapped'')"
proof -
  from assms have "tee_bootstrapped r' \<and> bootstrap_slots r' = bootstrap_slots r"
  proof (induction rule: rtranclp_induct)
    case (step s t)
    with tee_step_keeps_bootstrap [of c k seal s t] show ?case by simp
  qed simp
  then show ?thesis by (simp add: run_tee_bootstrap_def)
qed

section \<open>The keys hash\<close>

text \<open>
  An enclave registration commits to the keys it stores. A reshare registration replaces
  the keys and leaves the hash of the previous ones in its slot.
\<close>

definition keys_committed :: "crypto \<Rightarrow> tee_registry \<Rightarrow> address \<Rightarrow> bool" where
  "keys_committed c r v \<longleftrightarrow> (\<exists>svn :: u16. tee_isv_svn r v = ucast svn \<and> tee_keys_hash r v =
     compute_keys_hash c v (tee_recipient_x25519 r v) (tee_attestation_pub r v) (tee_noise_static_pub r v)
       (tee_mrenclave r v) (tee_mrsigner r v) svn)"

lemma keys_committed_registration:
  "keys_committed c r v \<longleftrightarrow> (\<exists>svn :: u16. rg_isv_svn (registration r v) = ucast svn \<and>
     rg_keys_hash (registration r v) = compute_keys_hash c v (rg_recipient_x25519 (registration r v))
       (rg_attestation_pub (registration r v)) (rg_noise_static_pub (registration r v))
       (rg_mrenclave (registration r v)) (rg_mrsigner (registration r v)) svn)"
  by (simp add: keys_committed_def registration_def)

definition empty_registry :: tee_registry where
  "empty_registry = \<lparr>tee_bootstrapped = False, tee_offer_public_key = B256_ZERO, tee_policy_hash = B256_ZERO,
     tee_key_epoch = 0, tee_tribute_offer_epoch = 0, tee_dkg_transcript_hash = B256_ZERO,
     tee_committee_snapshot_block = 0, tee_committee_snapshot_hash = B256_ZERO, tee_registered_count = 0,
     tee_recipient_x25519 = (\<lambda>_. B256_ZERO), tee_attestation_pub = (\<lambda>_. B256_ZERO),
     tee_noise_static_pub = (\<lambda>_. B256_ZERO), tee_mrenclave = (\<lambda>_. B256_ZERO), tee_mrsigner = (\<lambda>_. B256_ZERO),
     tee_isv_svn = (\<lambda>_. 0), tee_keys_hash = (\<lambda>_. B256_ZERO),
     tee_announced_recipient_x25519 = (\<lambda>_. B256_ZERO), tee_events = []\<rparr>"

theorem reshare_leaves_stale_keys_hash:
  "\<exists>r. register_enclave test_crypto (\<lambda>_. Inr None) 7 (replicate 32 1) B256_ZERO B256_ZERO B256_ZERO B256_ZERO 1
      empty_registry = Inr r \<and> keys_committed test_crypto r 7 \<and>
    \<not> keys_committed test_crypto (record_reshare_registrations [(7, replicate 32 2, B256_ZERO, B256_ZERO)] r) 7"
proof -
  let ?reg = "register_enclave test_crypto (\<lambda>_. Inr None) 7 (replicate 32 1) B256_ZERO B256_ZERO B256_ZERO B256_ZERO 1 empty_registry"
  obtain r where r: "?reg = Inr r"
    by (auto simp: register_enclave_def verify_enclave_registration_def Let_def)
  note res = register_enclave_result(3) [OF r, of 7]
  have com: "keys_committed test_crypto r 7"
    unfolding keys_committed_registration res by (rule exI [of _ 1]) simp
  have "tee_keys_hash r 7 = compute_keys_hash test_crypto 7 (replicate 32 1) B256_ZERO B256_ZERO B256_ZERO B256_ZERO 1"
    using res by (simp add: registration_def)
  then have "\<not> keys_committed test_crypto (record_reshare_registrations [(7, replicate 32 2, B256_ZERO, B256_ZERO)] r) 7"
    by (auto simp: keys_committed_def record_reshare_registrations_def compute_keys_hash_def test_crypto_def)
  with r com show ?thesis by blast
qed

section \<open>Witnesses\<close>

text \<open>
  One committee member, validator 5. The toy curve returns a key whose hash ends in the
  last 20 bytes of the signature.
\<close>

definition demo_committee :: validator_set where
  "demo_committee = empty_validator_set
     \<lparr>validator_count := 1, index_to_address := (\<lambda>_. 0)(1 := 5), address_to_index := (\<lambda>_. 0)(5 := 1),
      val_status := (\<lambda>_. 0)(5 := ACTIVE), val_has_bls_share := (\<lambda>_. False)(5 := True)\<rparr>"

definition test_ecdsa :: ecdsa where
  "test_ecdsa = \<lparr>recovery_id_from_byte = (\<lambda>v. v \<le> 3), signature_from_slice = (\<lambda>_. True),
     recover_from_prehash = (\<lambda>_ sig _. Some (replicate 12 0 @ drop 44 sig))\<rparr>"

definition demo_bundle :: tee_registration_bundle where
  "demo_bundle = (let g = \<lparr>tr_validator = 5, tr_recipient_x25519 = replicate 32 1, tr_attestation_pub = replicate 32 2,
      tr_noise_static_pub = replicate 32 3, tr_mrenclave = replicate 32 4, tr_mrsigner = replicate 32 5,
      tr_isv_svn = 1, tr_keys_hash = []\<rparr> in g\<lparr>tr_keys_hash := computed_keys_hash test_crypto g\<rparr>)"

definition demo_payload :: tee_bootstrap_payload where
  "demo_payload = oversized_policy_payload
     \<lparr>committee_snapshot_block := 9, tribute_offer_public_key := replicate 32 8, registrations := [demo_bundle],
      tb_policy := \<lparr>allowed_mrsigner = [], allowed_mrenclave = [], min_isv_svn = 0\<rparr>,
      tb_policy_hash := compute_hash test_crypto \<lparr>allowed_mrsigner = [], allowed_mrenclave = [], min_isv_svn = 0\<rparr>,
      validator_signatures := [\<lparr>ts_validator = 5, ts_signature = replicate 44 0 @ to_be_bytes 20 (5 :: address) @ [27]\<rparr>]\<rparr>"

lemma demo_committee_members: "map validator_address (get_active_consensus_set demo_committee) = [5]"
  by (simp add: demo_committee_def get_active_consensus_set_def get_all_validators_def index_range_def
      get_validator_def is_current_consensus_participant_status_def List.map_filter_def Let_def)

lemma demo_recovers:
  "recover_signer test_crypto test_ecdsa h (replicate 44 0 @ to_be_bytes 20 (v :: address) @ [27]) = Inr v"
  by (simp add: recover_signer_def test_ecdsa_def test_crypto_def nth_append Let_def)

lemma demo_authorised:
  "bootstrap_authorised test_crypto test_ecdsa 9 [5] demo_payload B256_ZERO"
  by (simp add: bootstrap_authorised_def demo_payload_def demo_bundle_def demo_recovers computed_keys_hash_def
      keys_hash_preimage_def Let_def)

theorem run_tee_bootstrap_correct_witness:
  "\<exists>r'. run_tee_bootstrap test_crypto test_ecdsa 9 demo_committee demo_payload empty_registry = Inr r' \<and>
     tee_bootstrapped r' \<and> registration r' 5 = registration_of demo_bundle"
proof -
  have "length (registrations demo_payload) < 2 ^ 32" by (simp add: demo_payload_def)
  note correct = run_tee_bootstrap_correct [OF this, of test_crypto test_ecdsa 9 demo_committee empty_registry]
  have "\<not> tee_bootstrapped empty_registry" "tee_policy_hash empty_registry = B256_ZERO"
    by (simp_all add: empty_registry_def)
  with demo_authorised correct obtain r' where
    r': "run_tee_bootstrap test_crypto test_ecdsa 9 demo_committee demo_payload empty_registry = Inr r'"
    unfolding demo_committee_members by auto
  have "find (\<lambda>g. tr_validator g = 5) (registrations demo_payload) = Some demo_bundle"
    by (simp add: demo_payload_def demo_bundle_def Let_def)
  with r' correct show ?thesis by (metis option.case(2))
qed

theorem bootstrap_is_final_witness:
  "\<exists>r'. tee_step test_crypto test_ecdsa (\<lambda>_. Inr None) (empty_registry\<lparr>tee_bootstrapped := True\<rparr>) r' \<and>
     run_tee_bootstrap test_crypto test_ecdsa 9 demo_committee demo_payload r' =
       Inl (Revert ''TeeBootstrap: registry already bootstrapped'')"
proof (intro exI conjI)
  let ?r = "empty_registry\<lparr>tee_bootstrapped := True\<rparr>"
  let ?r' = "record_reshare_registrations [(5, replicate 32 1, replicate 32 2, replicate 32 3)]
     (record_boundary_recipient_keys [(5, replicate 32 4)] ?r)"
  show step: "tee_step test_crypto test_ecdsa (\<lambda>_. Inr None) ?r ?r'" by (rule tee_step.boundary)
  show "run_tee_bootstrap test_crypto test_ecdsa 9 demo_committee demo_payload ?r' =
       Inl (Revert ''TeeBootstrap: registry already bootstrapped'')"
    using bootstrap_is_final [OF r_into_rtranclp [of "tee_step test_crypto test_ecdsa (\<lambda>_. Inr None)", OF step]]
    by simp
qed

end
