(* ===== verification/Slash_Evidence.thy ===== *)
theory Slash_Evidence
  imports Certificate
begin

text \<open>
  The evidence formats of the slash indicator (\<^verbatim>\<open>crates/system/slashindicator/src/evidence.rs\<close>,
  \<^verbatim>\<open>seed_partial_evidence.rs\<close>, \<^verbatim>\<open>vrf_evidence.rs\<close>) and their signature checks: signed votes with
  LEB128 rounds, equivocating and invalid seed partials, and invalid parent proofs.
\<close>

section \<open>LEB128\<close>

lemma unat_drop_bit_7: "unat (drop_bit 7 (v :: u64)) = unat v div 128"
  by (simp add: drop_bit_eq_div unat_div)

function write_leb128 :: "u64 \<Rightarrow> bytes" where
  "write_leb128 v =
     (let byte = ucast (v AND 0x7F); v' = drop_bit 7 v
      in if v' = 0 then [byte] else (byte OR 0x80) # write_leb128 v')"
  by pat_completeness auto

termination
proof (relation "measure unat")
  fix v byte v' :: u64
  assume "v' = drop_bit 7 v" "v' \<noteq> 0"
  then show "(v', v) \<in> measure unat"
    by (auto simp: unat_drop_bit_7 word_unat_eq_iff intro!: div_less_dividend)
qed auto

declare write_leb128.simps [simp del]

fun leb128_loop :: "bytes \<Rightarrow> u64 \<Rightarrow> nat \<Rightarrow> (u64 \<times> bytes) result" where
  "leb128_loop [] acc shift = Inl (Revert ''unexpected end of data while reading varint'')"
| "leb128_loop (byte # rest) acc shift =
     (let acc = acc OR push_bit shift (ucast (byte AND 0x7F))
      in if byte AND 0x80 = 0 then Inr (acc, rest)
         else if 64 \<le> shift + 7 then Inl (Revert ''varint overflow'')
         else leb128_loop rest acc (shift + 7))"

definition read_leb128 :: "bytes \<Rightarrow> (u64 \<times> bytes) result" where
  "read_leb128 data = leb128_loop data 0 0"

section \<open>Signed votes\<close>

record evidence_block =
  ev_pubkey :: bytes
  ev_signature :: bytes
  ev_proposal_bytes :: bytes

definition parse_evidence :: "bytes \<Rightarrow> evidence_block result" where
  "parse_evidence data =
     (if length data < 48 + 96 + 1 then Inl (Revert ''evidence block too short: need at least 145 bytes'')
      else Inr \<lparr>ev_pubkey = take 48 data, ev_signature = take 96 (drop 48 data), ev_proposal_bytes = drop 144 data\<rparr>)"

definition build_signed_payload_with_ns :: "bytes \<Rightarrow> bytes \<Rightarrow> bytes" where
  "build_signed_payload_with_ns namespace payload =
     write_leb128 (word_of_nat (length namespace)) @ namespace @ payload"

text \<open>
  \<open>bv sig payload pk\<close> is the pairing check of \<open>blst\<close> with the proof-of-possession tag; key
  and signature decoding are those of the registration check.
\<close>

definition verify_bls_signature ::
  "crypto \<Rightarrow> (bytes \<Rightarrow> bytes \<Rightarrow> bytes \<Rightarrow> bool) \<Rightarrow> bytes \<Rightarrow> evidence_block \<Rightarrow> unit result" where
  "verify_bls_signature c bv namespace ev =
     (if \<not> bls_public_key_from_bytes c (ev_pubkey ev) then Inl (Revert ''invalid BLS public key in evidence'')
      else if \<not> bls_signature_from_bytes c (ev_signature ev) then Inl (Revert ''invalid BLS signature in evidence'')
      else if \<not> bv (ev_signature ev) (build_signed_payload_with_ns namespace (ev_proposal_bytes ev)) (ev_pubkey ev)
      then Inl (Revert ''invalid BLS signature in evidence'')
      else Inr ())"

definition verify_notarize_signature ::
  "crypto \<Rightarrow> (bytes \<Rightarrow> bytes \<Rightarrow> bytes \<Rightarrow> bool) \<Rightarrow> u64 \<Rightarrow> bytes list \<Rightarrow> evidence_block \<Rightarrow> unit result" where
  "verify_notarize_signature c bv chain_id com ev = verify_bls_signature c bv (notarize_namespace c chain_id com) ev"

definition verify_nullify_signature ::
  "crypto \<Rightarrow> (bytes \<Rightarrow> bytes \<Rightarrow> bytes \<Rightarrow> bool) \<Rightarrow> u64 \<Rightarrow> bytes list \<Rightarrow> evidence_block \<Rightarrow> unit result" where
  "verify_nullify_signature c bv chain_id com ev = verify_bls_signature c bv (nullify_namespace c chain_id com) ev"

definition verify_finalize_signature ::
  "crypto \<Rightarrow> (bytes \<Rightarrow> bytes \<Rightarrow> bytes \<Rightarrow> bool) \<Rightarrow> u64 \<Rightarrow> bytes list \<Rightarrow> evidence_block \<Rightarrow> unit result" where
  "verify_finalize_signature c bv chain_id com ev = verify_bls_signature c bv (finalize_namespace c chain_id com) ev"

definition evidence_round :: "evidence_block \<Rightarrow> (u64 \<times> u64) result" where
  "evidence_round ev =
     and_then (read_leb128 (ev_proposal_bytes ev)) (\<lambda>(epoch, rest).
     and_then (read_leb128 rest) (\<lambda>(view, _). Inr (epoch, view)))"

definition canonical_evidence_hash :: "crypto \<Rightarrow> bytes \<Rightarrow> bytes \<Rightarrow> b256" where
  "canonical_evidence_hash c ev1 ev2 =
     (let (first, second) = (if ev1 \<le> ev2 then (ev1, ev2) else (ev2, ev1)) in keccak256 c (first @ second))"

section \<open>Seed partials\<close>

definition seed_partial_attest_message :: "commonware \<Rightarrow> u64 \<Rightarrow> u64 \<Rightarrow> u64 \<Rightarrow> bytes \<Rightarrow> bytes" where
  "seed_partial_attest_message b epoch view version partial =
     encode_round b epoch view @ to_be_bytes 8 version @ partial"

definition verify_seed_partial_attest_bytes ::
  "commonware \<Rightarrow> u64 \<Rightarrow> bytes \<Rightarrow> u64 \<Rightarrow> u64 \<Rightarrow> u64 \<Rightarrow> bytes \<Rightarrow> bytes \<Rightarrow> bool" where
  "verify_seed_partial_attest_bytes b chain_id pubkey epoch view version partial sig \<longleftrightarrow>
     decode_pubkey_ok b pubkey \<and> decode_signature_ok b sig \<and>
     verify_identity b pubkey (seed_attest_namespace chain_id)
       (seed_partial_attest_message b epoch view version partial) sig"

text \<open>
  \<open>partial_public b\<close> decodes the polynomial commitment and evaluates it at the signer's index.
\<close>

definition verify_seed_partial_against_commitment ::
  "commonware \<Rightarrow> u64 \<Rightarrow> bytes \<Rightarrow> u32 \<Rightarrow> u64 \<Rightarrow> u64 \<Rightarrow> bytes \<Rightarrow> bool option" where
  "verify_seed_partial_against_commitment b chain_id commitment idx epoch view partial =
     (case partial_public b commitment idx of
        None \<Rightarrow> None
      | Some pk \<Rightarrow>
          if \<not> decode_seed_signature_ok b partial then None
          else Some (verify_seed_signature_plain b chain_id pk (encode_round b epoch view) partial))"

definition SPE1_MAGIC :: bytes where "SPE1_MAGIC = ascii ''SPE1''"
definition SPE1_VERSION :: u8 where "SPE1_VERSION = 1"
definition SPE1_LEN :: nat where "SPE1_LEN = 365"

record seed_partial_equivocation =
  spe_round_epoch :: u64
  spe_round_view :: u64
  spe_vrf_version :: u64
  spe_signer_pubkey :: bytes
  spe_partial_1 :: bytes
  spe_identity_sig_1 :: bytes
  spe_partial_2 :: bytes
  spe_identity_sig_2 :: bytes

definition field_at :: "nat \<Rightarrow> nat \<Rightarrow> bytes \<Rightarrow> bytes" where
  "field_at pos n data = take n (drop pos data)"

definition decode_spe1 :: "bytes \<Rightarrow> seed_partial_equivocation result" where
  "decode_spe1 data =
     (if length data \<noteq> SPE1_LEN then Inl (Revert ''SPE1 evidence must be exactly 365 bytes'')
      else if take 4 data \<noteq> SPE1_MAGIC then Inl (Revert ''SPE1 evidence bad magic'')
      else if data ! 4 \<noteq> SPE1_VERSION then Inl (Revert ''SPE1 evidence bad version'')
      else Inr
        \<lparr>spe_round_epoch = from_be_bytes (field_at 5 8 data), spe_round_view = from_be_bytes (field_at 13 8 data),
         spe_vrf_version = from_be_bytes (field_at 21 8 data), spe_signer_pubkey = field_at 29 48 data,
         spe_partial_1 = field_at 77 48 data, spe_identity_sig_1 = field_at 125 96 data,
         spe_partial_2 = field_at 221 48 data, spe_identity_sig_2 = field_at 269 96 data\<rparr>)"

definition spe1_dedup_hash :: "crypto \<Rightarrow> seed_partial_equivocation \<Rightarrow> b256" where
  "spe1_dedup_hash c ev =
     (let (lo, hi) = (if spe_partial_1 ev \<le> spe_partial_2 ev then (spe_partial_1 ev, spe_partial_2 ev)
                      else (spe_partial_2 ev, spe_partial_1 ev))
      in keccak256 c (SPE1_MAGIC @ to_be_bytes 8 (spe_round_epoch ev) @ to_be_bytes 8 (spe_round_view ev) @
           to_be_bytes 8 (spe_vrf_version ev) @ spe_signer_pubkey ev @ lo @ hi))"

definition IPE1_MAGIC :: bytes where "IPE1_MAGIC = ascii ''IPE1''"
definition IPE1_VERSION :: u8 where "IPE1_VERSION = 1"
definition IPE1_PREFIX_LEN :: nat where "IPE1_PREFIX_LEN = 4 + 1 + 32 + 8 + 8 + 8 + 4 + 48 + 48 + 96 + 4"

record invalid_seed_partial =
  ipe_committee_set_hash :: b256
  ipe_round_epoch :: u64
  ipe_round_view :: u64
  ipe_vrf_version :: u64
  ipe_signer_index :: u32
  ipe_signer_pubkey :: bytes
  ipe_partial :: bytes
  ipe_identity_sig :: bytes
  ipe_commitment :: bytes

definition decode_ipe1 :: "bytes \<Rightarrow> invalid_seed_partial result" where
  "decode_ipe1 data =
     (if length data < IPE1_PREFIX_LEN then Inl (Revert ''IPE1 evidence too short'')
      else if take 4 data \<noteq> IPE1_MAGIC then Inl (Revert ''IPE1 evidence bad magic'')
      else if data ! 4 \<noteq> IPE1_VERSION then Inl (Revert ''IPE1 evidence bad version'')
      else
        let commitment_len = unat (from_be_bytes (field_at 257 4 data) :: u32)
        in if length data < IPE1_PREFIX_LEN + commitment_len then Inl (Revert ''IPE1 commitment length exceeds input'')
           else if IPE1_PREFIX_LEN + commitment_len \<noteq> length data then Inl (Revert ''IPE1 evidence has trailing bytes'')
           else Inr
             \<lparr>ipe_committee_set_hash = field_at 5 32 data, ipe_round_epoch = from_be_bytes (field_at 37 8 data),
              ipe_round_view = from_be_bytes (field_at 45 8 data), ipe_vrf_version = from_be_bytes (field_at 53 8 data),
              ipe_signer_index = from_be_bytes (field_at 61 4 data), ipe_signer_pubkey = field_at 65 48 data,
              ipe_partial = field_at 113 48 data, ipe_identity_sig = field_at 161 96 data,
              ipe_commitment = field_at IPE1_PREFIX_LEN commitment_len data\<rparr>)"

definition ipe1_dedup_hash :: "crypto \<Rightarrow> invalid_seed_partial \<Rightarrow> b256" where
  "ipe1_dedup_hash c ev =
     keccak256 c (IPE1_MAGIC @ to_be_bytes 8 (ipe_round_epoch ev) @ to_be_bytes 8 (ipe_round_view ev) @
       to_be_bytes 8 (ipe_vrf_version ev) @ ipe_signer_pubkey ev @ ipe_partial ev)"

section \<open>Invalid parent proofs\<close>

definition IVE2_MAGIC :: bytes where "IVE2_MAGIC = ascii ''IVE2''"
definition IVE2_VERSION :: u8 where "IVE2_VERSION = 2"
definition IVE2_FIXED_PREFIX_LEN :: nat where "IVE2_FIXED_PREFIX_LEN = 4 + 1 + 8 + 32 + 8 + 8 + 32 + 2 + 4"

record invalid_vrf_evidence =
  ive_child_block_number :: u64
  ive_child_block_hash :: b256
  ive_child_epoch :: u64
  ive_parent_block_number :: u64
  ive_parent_block_hash :: b256
  ive_failure_code :: u16
  ive_phase1_tx_bytes :: bytes

definition encode_ive2 :: "invalid_vrf_evidence \<Rightarrow> bytes" where
  "encode_ive2 e =
     IVE2_MAGIC @ [IVE2_VERSION] @ to_be_bytes 8 (ive_child_block_number e) @ ive_child_block_hash e @
     to_be_bytes 8 (ive_child_epoch e) @ to_be_bytes 8 (ive_parent_block_number e) @ ive_parent_block_hash e @
     to_be_bytes 2 (ive_failure_code e) @
     to_be_bytes 4 (word_of_nat (length (ive_phase1_tx_bytes e)) :: u32) @ ive_phase1_tx_bytes e"

definition decode_ive2 :: "bytes \<Rightarrow> invalid_vrf_evidence result" where
  "decode_ive2 input =
     (if length input < IVE2_FIXED_PREFIX_LEN then Inl (Revert ''InvalidVrfProofEvidence: input too short'')
      else if take 4 input \<noteq> IVE2_MAGIC then Inl (Revert ''InvalidVrfProofEvidence: bad magic'')
      else if input ! 4 \<noteq> IVE2_VERSION then Inl (Revert ''InvalidVrfProofEvidence: unsupported version'')
      else
        let len = unat (from_be_bytes (field_at 95 4 input) :: u32)
        in if length input < 99 + len then Inl (Revert ''InvalidVrfProofEvidence: phase1_tx_bytes length exceeds remaining input'')
           else if 99 + len \<noteq> length input then Inl (Revert ''InvalidVrfProofEvidence: trailing bytes after phase1_tx'')
           else Inr
             \<lparr>ive_child_block_number = from_be_bytes (field_at 5 8 input), ive_child_block_hash = field_at 13 32 input,
              ive_child_epoch = from_be_bytes (field_at 45 8 input),
              ive_parent_block_number = from_be_bytes (field_at 53 8 input), ive_parent_block_hash = field_at 61 32 input,
              ive_failure_code = from_be_bytes (field_at 93 2 input),
              ive_phase1_tx_bytes = field_at 99 len input\<rparr>)"

fun classify_vrf_failure :: "verify_error \<Rightarrow> u16 option" where
  "classify_vrf_failure MissingVrfProof = Some 1"
| "classify_vrf_failure MalformedVrfProof = Some 2"
| "classify_vrf_failure (WrongVrfMaterialVersion _ _) = Some 3"
| "classify_vrf_failure (WrongVrfGroupKeyHash _ _) = Some 4"
| "classify_vrf_failure WrongVrfNamespace = Some 5"
| "classify_vrf_failure (WrongVrfSeedRound _ _) = Some 6"
| "classify_vrf_failure InvalidVrfSignature = Some 7"
| "classify_vrf_failure _ = None"

section \<open>LEB128 round trip\<close>

lemma bit_7F [simp]: "bit (0x7F :: int) n \<longleftrightarrow> n < 7"
  using bit_mask_iff [where 'a = int, of 7 n] by (simp add: mask_eq_exp_minus_1)

lemma bit_80 [simp]: "bit (0x80 :: int) n \<longleftrightarrow> n = 7"
  using bit_exp_iff [where 'a = int, of 7 n] by auto

lemma leb128_byte:
  fixes v :: u64
  shows "ucast ((ucast (v AND 0x7F) :: u8) AND 0x7F) = (v AND 0x7F)"
    and "(ucast (v AND 0x7F) :: u8) AND 0x80 = 0"
    and "ucast (((ucast (v AND 0x7F) :: u8) OR 0x80) AND 0x7F) = (v AND 0x7F)"
    and "((ucast (v AND 0x7F) :: u8) OR 0x80) AND 0x80 \<noteq> 0"
proof -
  show "ucast ((ucast (v AND 0x7F) :: u8) AND 0x7F) = (v AND 0x7F)"
    by (rule bit_word_eqI) (auto simp: bit_and_iff bit_or_iff bit_ucast_iff)
  show "(ucast (v AND 0x7F) :: u8) AND 0x80 = 0"
    by (rule bit_word_eqI) (auto simp: bit_and_iff bit_or_iff bit_ucast_iff)
  show "ucast (((ucast (v AND 0x7F) :: u8) OR 0x80) AND 0x7F) = (v AND 0x7F)"
    by (rule bit_word_eqI) (auto simp: bit_and_iff bit_or_iff bit_ucast_iff)
  have "bit (((ucast (v AND 0x7F) :: u8) OR 0x80) AND 0x80) 7"
    by (simp add: bit_and_iff bit_or_iff)
  then show "((ucast (v AND 0x7F) :: u8) OR 0x80) AND 0x80 \<noteq> 0" by auto
qed

lemma leb128_split: "push_bit s (v AND 0x7F) OR push_bit (s + 7) (drop_bit 7 v) = push_bit s (v :: u64)"
proof (rule bit_word_eqI)
  fix n assume n: "n < LENGTH(64)"
  show "bit (push_bit s (v AND 0x7F) OR push_bit (s + 7) (drop_bit 7 v)) n = bit (push_bit s v) n"
  proof (cases "s + 7 \<le> n")
    case True
    then have "7 + (n - (s + 7)) = n - s" by simp
    with True n show ?thesis
      by (auto simp: bit_or_iff bit_push_bit_iff bit_and_iff bit_drop_bit_eq)
  next
    case False
    with n show ?thesis by (auto simp: bit_or_iff bit_push_bit_iff bit_and_iff)
  qed
qed

lemma leb128_last: "drop_bit 7 v = 0 \<Longrightarrow> v AND 0x7F = (v :: u64)"
  using leb128_split [of 0 v] by simp

lemma leb128_loop_write:
  assumes "unat v < 2 ^ (64 - shift)" and "shift < 64"
  shows "leb128_loop (write_leb128 v @ rest) acc shift = Inr (acc OR push_bit shift v, rest)"
  using assms
proof (induction v arbitrary: acc shift rule: write_leb128.induct)
  case (1 v)
  show ?case
  proof (cases "drop_bit 7 v = 0")
    case True
    then show ?thesis
      using leb128_byte(1,2) [of v] by (subst write_leb128.simps) (simp add: Let_def leb128_last)
  next
    case False
    then have pos: "128 \<le> unat v" by (simp add: word_unat_eq_iff unat_drop_bit_7)
    have "shift + 7 < 64"
    proof (rule ccontr)
      assume "\<not> shift + 7 < 64"
      then have "(2 :: nat) ^ (64 - shift) \<le> 2 ^ 7" by (intro power_increasing) simp_all
      with 1(2) pos show False by simp
    qed
    moreover have "unat (drop_bit 7 v) < 2 ^ (64 - (shift + 7))"
    proof -
      have "(2 :: nat) ^ (64 - shift) = 2 ^ (64 - (shift + 7)) * 128"
        using \<open>shift + 7 < 64\<close> power_add [of "2 :: nat" "64 - (shift + 7)" 7] by simp
      with 1(2) show ?thesis by (simp add: unat_drop_bit_7 less_mult_imp_div_less)
    qed
    ultimately show ?thesis
      using 1(1) [OF refl refl False, of "shift + 7"] False leb128_split [of shift v]
      by (subst write_leb128.simps) (simp add: Let_def leb128_byte or.assoc)
  qed
qed

text \<open>
  Reading back what was written returns the value and leaves the rest.
\<close>

lemma read_write_leb128: "read_leb128 (write_leb128 v @ rest) = Inr (v, rest)"
  unfolding read_leb128_def by (subst leb128_loop_write) (use unat_lt_2p [of v] in simp_all)

text \<open>
  The tenth byte of a varint holds one bit of the result; the reader drops the others instead
  of rejecting them, so a value has several encodings.
\<close>

lemma leb128_overflow_bits_ignored:
  "read_leb128 (replicate 9 0xFF @ [0x01]) = Inr (- 1, []) \<and> read_leb128 (replicate 9 0xFF @ [0x7F]) = Inr (- 1, [])"
  by code_simp

section \<open>Evidence payloads\<close>

lemma canonical_evidence_hash_commute: "canonical_evidence_hash c a b = canonical_evidence_hash c b a"
  by (auto simp: canonical_evidence_hash_def)

lemma spe1_dedup_order_independent:
  "spe1_dedup_hash c (ev\<lparr>spe_partial_1 := spe_partial_2 ev, spe_identity_sig_1 := spe_identity_sig_2 ev,
     spe_partial_2 := spe_partial_1 ev, spe_identity_sig_2 := spe_identity_sig_1 ev\<rparr>) = spe1_dedup_hash c ev"
  by (auto simp: spe1_dedup_hash_def)

definition wf_ive2 :: "invalid_vrf_evidence \<Rightarrow> bool" where
  "wf_ive2 e \<longleftrightarrow> length (ive_child_block_hash e) = 32 \<and> length (ive_parent_block_hash e) = 32 \<and>
     length (ive_phase1_tx_bytes e) < 2 ^ 32"

lemma field_at_append_skip: "length xs = n \<Longrightarrow> n \<le> pos \<Longrightarrow> field_at pos k (xs @ ys) = field_at (pos - n) k ys"
  by (simp add: field_at_def)

lemma field_at_append_hit: "length xs = k \<Longrightarrow> field_at 0 k (xs @ ys) = xs"
  by (simp add: field_at_def)

lemma decode_encode_ive2:
  assumes "wf_ive2 e" shows "decode_ive2 (encode_ive2 e) = Inr e"
proof -
  have magic: "length IVE2_MAGIC = 4" by (simp add: IVE2_MAGIC_def ascii_def)
  note e = assms [unfolded wf_ive2_def]
  let ?bs = "encode_ive2 e"
  have len: "length ?bs = 99 + length (ive_phase1_tx_bytes e)"
    using e magic by (simp add: encode_ive2_def)
  have parts: "take 4 ?bs = IVE2_MAGIC" "?bs ! 4 = IVE2_VERSION"
    "field_at 5 8 ?bs = to_be_bytes 8 (ive_child_block_number e)" "field_at 13 32 ?bs = ive_child_block_hash e"
    "field_at 45 8 ?bs = to_be_bytes 8 (ive_child_epoch e)" "field_at 53 8 ?bs = to_be_bytes 8 (ive_parent_block_number e)"
    "field_at 61 32 ?bs = ive_parent_block_hash e" "field_at 93 2 ?bs = to_be_bytes 2 (ive_failure_code e)"
    "field_at 95 4 ?bs = to_be_bytes 4 (word_of_nat (length (ive_phase1_tx_bytes e)) :: u32)"
    "field_at 99 (length (ive_phase1_tx_bytes e)) ?bs = ive_phase1_tx_bytes e"
    unfolding encode_ive2_def using e magic
    by (simp_all add: nth_append field_at_append_skip field_at_append_skip [of "[_]" 1, simplified] field_at_append_hit field_at_def)
  have n: "unat (word_of_nat (length (ive_phase1_tx_bytes e)) :: u32) = length (ive_phase1_tx_bytes e)"
    using e by (simp add: unat_word_of_nat_exact)
  show ?thesis
    unfolding decode_ive2_def by (simp add: n len parts IVE2_FIXED_PREFIX_LEN_def Let_def)
qed

end
