(* ===== verification/Slash_Indicator.thy ===== *)
theory Slash_Indicator
  imports Slash_Evidence System_Tx Chain_Steps
begin

text \<open>
  The slash indicator (\<^verbatim>\<open>crates/system/slashindicator/src/runtime.rs\<close>, \<^verbatim>\<open>schema.rs\<close>, \<^verbatim>\<open>hooks.rs\<close>):
  miss counters with their misdemeanor and felony thresholds, the per-block window guards with
  their prune ring, and every evidence entry point with its checks. Its state extends the
  world of the staking and validator-set contracts, whose operations it calls. Journal and
  metrics are not modelled.
\<close>

section \<open>State\<close>

datatype slash_event =
    ProposerFelony address u64 u64
  | ProposerMisdemeanor address u64
  | VoterFelony address u64 u64
  | VoterMisdemeanor address u64
  | EvidenceFelonyApplied address address u256 u256
  | InvalidVrfProofEvidenceApplied address address b256 u16
  | SeedPartialEquivocationApplied address address u64 u64 u64
  | InvalidSeedPartialApplied address address u64 u64 u64
  | ByzantineFelony address u256 u64

record slash_indicator =
  config_proposer_misdemeanor_threshold :: u64
  config_proposer_felony_threshold :: u64
  config_voter_misdemeanor_threshold :: u64
  config_slash_amount_percent :: u64
  config_evidence_reward_percent :: u64
  proposer_miss_count :: "address \<Rightarrow> u64"
  voter_miss_count :: "address \<Rightarrow> u64"
  felony_count :: "address \<Rightarrow> u64"
  evidence_processed :: "b256 \<Rightarrow> bool"
  voter_window_slashed :: "b256 \<Rightarrow> bool"
  proposer_window_slashed :: "b256 \<Rightarrow> bool"
  invalid_vrf_evidence_processed :: "b256 \<Rightarrow> bool"
  config_voter_felony_threshold :: u64
  seed_partial_equivocation_processed :: "b256 \<Rightarrow> bool"
  invalid_seed_partial_processed :: "b256 \<Rightarrow> bool"
  slash_guard_ring :: "u64 \<Rightarrow> b256"
  slash_guard_ring_seq :: u64
  si_events :: "slash_event list"

record slash_world = world +
  slash :: slash_indicator
  snapshots :: snapshot_store

text \<open>
  What an execution reads besides the state: block, chain, the canonical hashes of recent
  blocks, and the libraries.
\<close>

record exec_env =
  env_block_number :: u64
  env_timestamp :: u64
  env_chain_id :: u64
  canonical_block_hash :: "u64 \<Rightarrow> b256 option"
  env_crypto :: crypto
  env_commonware :: commonware
  env_tx_lib :: tx_lib
  blst_verify :: "bytes \<Rightarrow> bytes \<Rightarrow> bytes \<Rightarrow> bool"

record protocol_schedule =
  invalid_vrf_evidence_max_age_blocks :: u64
  invalid_vrf_evidence_max_bytes :: nat
  invalid_vrf_evidence_max_epoch_lag :: u64

definition default_schedule :: protocol_schedule where
  "default_schedule = \<lparr>invalid_vrf_evidence_max_age_blocks = 2048, invalid_vrf_evidence_max_bytes = 256 * 1024,
     invalid_vrf_evidence_max_epoch_lag = 1\<rparr>"

definition DEFAULT_PROPOSER_MISDEMEANOR_THRESHOLD :: u64 where "DEFAULT_PROPOSER_MISDEMEANOR_THRESHOLD = 50"
definition DEFAULT_PROPOSER_FELONY_THRESHOLD :: u64 where "DEFAULT_PROPOSER_FELONY_THRESHOLD = 150"
definition DEFAULT_VOTER_MISDEMEANOR_THRESHOLD :: u64 where "DEFAULT_VOTER_MISDEMEANOR_THRESHOLD = 150"
definition DEFAULT_VOTER_FELONY_THRESHOLD :: u64 where "DEFAULT_VOTER_FELONY_THRESHOLD = 500"
definition DEFAULT_SLASH_AMOUNT_PERCENT :: u64 where "DEFAULT_SLASH_AMOUNT_PERCENT = 5"
definition DEFAULT_EVIDENCE_REWARD_PERCENT :: u64 where "DEFAULT_EVIDENCE_REWARD_PERCENT = 10"
definition SLASH_GUARD_RETAIN :: u64 where "SLASH_GUARD_RETAIN = 64"

definition proposer_felony_threshold :: "slash_indicator \<Rightarrow> u64" where
  "proposer_felony_threshold si = (let v = config_proposer_felony_threshold si
     in if v = 0 then DEFAULT_PROPOSER_FELONY_THRESHOLD else v)"

definition proposer_misdemeanor_threshold :: "slash_indicator \<Rightarrow> u64" where
  "proposer_misdemeanor_threshold si = (let v = config_proposer_misdemeanor_threshold si
     in if v = 0 then DEFAULT_PROPOSER_MISDEMEANOR_THRESHOLD else v)"

definition voter_misdemeanor_threshold :: "slash_indicator \<Rightarrow> u64" where
  "voter_misdemeanor_threshold si = (let v = config_voter_misdemeanor_threshold si
     in if v = 0 then DEFAULT_VOTER_MISDEMEANOR_THRESHOLD else v)"

definition voter_felony_threshold :: "slash_indicator \<Rightarrow> u64" where
  "voter_felony_threshold si = (let v = config_voter_felony_threshold si
     in if v = 0 then DEFAULT_VOTER_FELONY_THRESHOLD else v)"

definition slash_amount_percent :: "slash_indicator \<Rightarrow> u64" where
  "slash_amount_percent si = (let v = config_slash_amount_percent si
     in if v = 0 then DEFAULT_SLASH_AMOUNT_PERCENT else v)"

definition evidence_reward_percent :: "slash_indicator \<Rightarrow> u64" where
  "evidence_reward_percent si = (let v = config_evidence_reward_percent si
     in if v = 0 then DEFAULT_EVIDENCE_REWARD_PERCENT else v)"

definition si_emit :: "slash_event \<Rightarrow> 'a slash_world_scheme \<Rightarrow> 'a slash_world_scheme" where
  "si_emit e w = w\<lparr>slash := (slash w)\<lparr>si_events := si_events (slash w) @ [e]\<rparr>\<rparr>"

section \<open>Felonies and misses\<close>

definition validator_already_penalized :: "'a slash_world_scheme \<Rightarrow> address \<Rightarrow> bool" where
  "validator_already_penalized w v \<longleftrightarrow> val_status (vset w) v = JAILED \<or> val_status (vset w) v = EXITING"

text \<open>
  The felony part all paths share: count it, jail the validator, then slash. Result: the new
  felony count and the slashed amount.
\<close>

definition jail_and_slash ::
  "exec_env \<Rightarrow> address \<Rightarrow> 'a slash_world_scheme \<Rightarrow> ((u64 \<times> u256) \<times> 'a slash_world_scheme) result" where
  "jail_and_slash env v w =
     (let fc = felony_count (slash w) v + 1;
          w = w\<lparr>slash := (slash w)\<lparr>felony_count := (felony_count (slash w))(v := fc)\<rparr>\<rparr>
      in and_then (jail_validator (env_block_number env) v (vset w)) (\<lambda>vs.
         let w = w\<lparr>vset := vs\<rparr>
         in and_then (slash_stake (env_block_number env) (env_timestamp env) v (slash_amount_percent (slash w)) w)
              (\<lambda>(slashed, w). Inr ((fc, slashed), w))))"

definition slash_proposer :: "exec_env \<Rightarrow> address \<Rightarrow> 'a slash_world_scheme \<Rightarrow> 'a slash_world_scheme result" where
  "slash_proposer env v w =
     (let count = proposer_miss_count (slash w) v + 1;
          w = w\<lparr>slash := (slash w)\<lparr>proposer_miss_count := (proposer_miss_count (slash w))(v := count)\<rparr>\<rparr>;
          felony = proposer_felony_threshold (slash w);
          misdemeanor = proposer_misdemeanor_threshold (slash w)
      in if validator_already_penalized w v then Inr w
         else if 0 < count \<and> count mod felony = 0 then
           and_then (jail_and_slash env v w) (\<lambda>((fc, _), w). Inr (si_emit (ProposerFelony v count fc) w))
         else if 0 < count \<and> count mod misdemeanor = 0 then Inr (si_emit (ProposerMisdemeanor v count) w)
         else Inr w)"

definition slash_voter :: "exec_env \<Rightarrow> address \<Rightarrow> 'a slash_world_scheme \<Rightarrow> 'a slash_world_scheme result" where
  "slash_voter env v w =
     (let count = voter_miss_count (slash w) v + 1;
          w = w\<lparr>slash := (slash w)\<lparr>voter_miss_count := (voter_miss_count (slash w))(v := count)\<rparr>\<rparr>;
          felony = voter_felony_threshold (slash w);
          misdemeanor = voter_misdemeanor_threshold (slash w)
      in if validator_already_penalized w v then Inr w
         else if 0 < count \<and> count mod felony = 0 then
           and_then (jail_and_slash env v w) (\<lambda>((fc, _), w). Inr (si_emit (VoterFelony v count fc) w))
         else if 0 < count \<and> count mod misdemeanor = 0 then Inr (si_emit (VoterMisdemeanor v count) w)
         else Inr w)"

definition apply_evidence_felony ::
  "exec_env \<Rightarrow> address \<Rightarrow> address \<Rightarrow> 'a slash_world_scheme \<Rightarrow> 'a slash_world_scheme result" where
  "apply_evidence_felony env v submitter w =
     and_then (jail_and_slash env v w) (\<lambda>((fc, slashed), w).
       let reward = (if slashed = 0 then 0 else slashed * ucast (evidence_reward_percent (slash w)) div 100)
       in and_then (if slashed \<noteq> 0 \<and> reward \<noteq> 0 then increase_balance submitter reward w else Inr w) (\<lambda>w.
          Inr (si_emit (EvidenceFelonyApplied v submitter slashed reward) w)))"

definition slash_byzantine :: "exec_env \<Rightarrow> address \<Rightarrow> 'a slash_world_scheme \<Rightarrow> 'a slash_world_scheme result" where
  "slash_byzantine env v w =
     and_then (jail_and_slash env v w) (\<lambda>((fc, slashed), w). Inr (si_emit (ByzantineFelony v slashed fc) w))"

definition clear_miss_counts :: "address \<Rightarrow> slash_indicator \<Rightarrow> slash_indicator" where
  "clear_miss_counts v si = si\<lparr>proposer_miss_count := (proposer_miss_count si)(v := 0),
     voter_miss_count := (voter_miss_count si)(v := 0)\<rparr>"

definition reset_epoch_counters :: "address list \<Rightarrow> 'a slash_world_scheme \<Rightarrow> 'a slash_world_scheme" where
  "reset_epoch_counters vals w = w\<lparr>slash := fold clear_miss_counts vals (slash w)\<rparr>"

section \<open>Equivocation evidence\<close>

definition require_active_submitter :: "'a slash_world_scheme \<Rightarrow> address \<Rightarrow> unit result" where
  "require_active_submitter w caller =
     (if val_status (vset w) caller \<noteq> ACTIVE then Inl (Revert ''submitter is not an ACTIVE validator'') else Inr ())"

definition committee_set_for_epoch :: "exec_env \<Rightarrow> u64 \<Rightarrow> 'a slash_world_scheme \<Rightarrow> bytes list result" where
  "committee_set_for_epoch env epoch w =
     (case read_committee_snapshot_for_epoch epoch (snapshots w) of
        None \<Rightarrow> Inl (Revert ''no committee snapshot for evidence epoch'')
      | Some s \<Rightarrow>
          if \<not> list_all (decode_pubkey_ok (env_commonware env)) (map entry_pubkey (committee s))
          then Inl (Revert ''invalid committee pubkey in snapshot'')
          else Inr (ordered_set (env_commonware env) (map entry_pubkey (committee s))))"

text \<open>The lookup by key hash, the marking and the felony every vote-evidence path ends with.\<close>

definition convict ::
  "exec_env \<Rightarrow> address \<Rightarrow> b256 \<Rightarrow> bytes \<Rightarrow> 'a slash_world_scheme \<Rightarrow> 'a slash_world_scheme result" where
  "convict env caller evidence_hash pubkey w =
     (let v = lookup_by_pubkey_hash (vset w) (keccak256 (env_crypto env) pubkey)
      in if v = 0 then Inl (Revert ''signer is not a registered validator'')
         else apply_evidence_felony env v caller
           (w\<lparr>slash := (slash w)\<lparr>evidence_processed := (evidence_processed (slash w))(evidence_hash := True)\<rparr>\<rparr>))"

definition submit_double_proposal_evidence ::
  "exec_env \<Rightarrow> address \<Rightarrow> bytes \<Rightarrow> bytes \<Rightarrow> 'a slash_world_scheme \<Rightarrow> 'a slash_world_scheme result" where
  "submit_double_proposal_evidence env caller block1 block2 w =
     and_then (require_active_submitter w caller) (\<lambda>_.
     and_then (parse_evidence block1) (\<lambda>ev1.
     and_then (parse_evidence block2) (\<lambda>ev2.
     if ev_pubkey ev1 \<noteq> ev_pubkey ev2 then Inl (Revert ''evidence blocks must have the same signer'')
     else if ev_proposal_bytes ev1 = ev_proposal_bytes ev2
     then Inl (Revert ''proposals must differ for double-proposal evidence'')
     else
     and_then (evidence_round ev1) (\<lambda>round1.
     and_then (evidence_round ev2) (\<lambda>round2.
     if round1 \<noteq> round2 then Inl (Revert ''proposals must be for the same round'')
     else
       let h = canonical_evidence_hash (env_crypto env) block1 block2
       in if evidence_processed (slash w) h then Inl (Revert ''evidence already processed'')
          else
            and_then (committee_set_for_epoch env (fst round1) w) (\<lambda>com.
            and_then (verify_notarize_signature (env_crypto env) (blst_verify env) (env_chain_id env) com ev1) (\<lambda>_.
            and_then (verify_notarize_signature (env_crypto env) (blst_verify env) (env_chain_id env) com ev2) (\<lambda>_.
              convict env caller h (ev_pubkey ev1) w))))))))"

definition is_ok :: "'e + 'a \<Rightarrow> bool" where
  "is_ok r = (case r of Inl _ \<Rightarrow> False | Inr _ \<Rightarrow> True)"

definition submit_conflicting_vote_evidence ::
  "exec_env \<Rightarrow> address \<Rightarrow> bytes \<Rightarrow> bytes \<Rightarrow> 'a slash_world_scheme \<Rightarrow> 'a slash_world_scheme result" where
  "submit_conflicting_vote_evidence env caller vote1 vote2 w =
     and_then (require_active_submitter w caller) (\<lambda>_.
     and_then (parse_evidence vote1) (\<lambda>ev1.
     and_then (parse_evidence vote2) (\<lambda>ev2.
     if ev_pubkey ev1 \<noteq> ev_pubkey ev2 then Inl (Revert ''evidence blocks must have the same signer'')
     else
     and_then (evidence_round ev1) (\<lambda>round1.
     and_then (evidence_round ev2) (\<lambda>round2.
     if round1 \<noteq> round2 then Inl (Revert ''votes must be for the same round'')
     else
       let h = canonical_evidence_hash (env_crypto env) vote1 vote2
       in if evidence_processed (slash w) h then Inl (Revert ''evidence already processed'')
          else
            and_then (committee_set_for_epoch env (fst round1) w) (\<lambda>com.
            let notarized = (\<lambda>ev. is_ok (verify_notarize_signature (env_crypto env) (blst_verify env) (env_chain_id env) com ev));
                nullified = (\<lambda>ev. is_ok (verify_nullify_signature (env_crypto env) (blst_verify env) (env_chain_id env) com ev))
            in if \<not> (notarized ev1 \<and> nullified ev2 \<or> nullified ev1 \<and> notarized ev2)
               then Inl (Revert ''evidence must contain one valid notarize and one valid nullify signature'')
               else convict env caller h (ev_pubkey ev1) w))))))"

type_synonym vote_check =
  "crypto \<Rightarrow> (bytes \<Rightarrow> bytes \<Rightarrow> bytes \<Rightarrow> bool) \<Rightarrow> u64 \<Rightarrow> bytes list \<Rightarrow> evidence_block \<Rightarrow> unit result"

definition apply_equivocation_felony ::
  "exec_env \<Rightarrow> address \<Rightarrow> bytes \<Rightarrow> bytes \<Rightarrow> bool \<Rightarrow> vote_check \<Rightarrow> vote_check \<Rightarrow>
     'a slash_world_scheme \<Rightarrow> 'a slash_world_scheme result" where
  "apply_equivocation_felony env caller block1 block2 require_distinct verify1 verify2 w =
     and_then (require_active_submitter w caller) (\<lambda>_.
     and_then (parse_evidence block1) (\<lambda>ev1.
     and_then (parse_evidence block2) (\<lambda>ev2.
     if ev_pubkey ev1 \<noteq> ev_pubkey ev2 then Inl (Revert ''evidence blocks must have the same signer'')
     else
     and_then (evidence_round ev1) (\<lambda>round1.
     and_then (evidence_round ev2) (\<lambda>round2.
     if round1 \<noteq> round2 then Inl (Revert ''votes must be for the same round'')
     else if require_distinct \<and> ev_proposal_bytes ev1 = ev_proposal_bytes ev2
     then Inl (Revert ''conflicting votes must be for different proposals'')
     else
       let h = canonical_evidence_hash (env_crypto env) block1 block2
       in if evidence_processed (slash w) h then Inl (Revert ''evidence already processed'')
          else
            and_then (committee_set_for_epoch env (fst round1) w) (\<lambda>com.
            and_then (verify1 (env_crypto env) (blst_verify env) (env_chain_id env) com ev1) (\<lambda>_.
            and_then (verify2 (env_crypto env) (blst_verify env) (env_chain_id env) com ev2) (\<lambda>_.
              convict env caller h (ev_pubkey ev1) w))))))))"

definition submit_conflicting_notarize_evidence ::
  "exec_env \<Rightarrow> address \<Rightarrow> bytes \<Rightarrow> bytes \<Rightarrow> 'a slash_world_scheme \<Rightarrow> 'a slash_world_scheme result" where
  "submit_conflicting_notarize_evidence env caller block1 block2 =
     apply_equivocation_felony env caller block1 block2 True verify_notarize_signature verify_notarize_signature"

definition submit_conflicting_finalize_evidence ::
  "exec_env \<Rightarrow> address \<Rightarrow> bytes \<Rightarrow> bytes \<Rightarrow> 'a slash_world_scheme \<Rightarrow> 'a slash_world_scheme result" where
  "submit_conflicting_finalize_evidence env caller block1 block2 =
     apply_equivocation_felony env caller block1 block2 True verify_finalize_signature verify_finalize_signature"

definition submit_nullify_finalize_evidence ::
  "exec_env \<Rightarrow> address \<Rightarrow> bytes \<Rightarrow> bytes \<Rightarrow> 'a slash_world_scheme \<Rightarrow> 'a slash_world_scheme result" where
  "submit_nullify_finalize_evidence env caller nullify_block finalize_block =
     apply_equivocation_felony env caller nullify_block finalize_block False verify_nullify_signature
       verify_finalize_signature"

section \<open>Seed-partial evidence\<close>

definition current_epoch :: "'a slash_world_scheme \<Rightarrow> u64 result" where
  "current_epoch w =
     (if unat (epoch_number (vset w)) < 2 ^ 64 then Inr (ucast (epoch_number (vset w)))
      else Inl (Revert ''ValidatorSet.epoch_number exceeds u64''))"

definition check_epoch_lag :: "protocol_schedule \<Rightarrow> u64 \<Rightarrow> 'a slash_world_scheme \<Rightarrow> unit result" where
  "check_epoch_lag sched epoch w =
     and_then (current_epoch w) (\<lambda>cur.
       if saturating_add epoch (invalid_vrf_evidence_max_epoch_lag sched) < cur
       then Inl (Revert ''evidence epoch-stale'') else Inr ())"

definition submit_seed_partial_equivocation_evidence_with_schedule ::
  "exec_env \<Rightarrow> protocol_schedule \<Rightarrow> address \<Rightarrow> bytes \<Rightarrow> 'a slash_world_scheme \<Rightarrow> 'a slash_world_scheme result" where
  "submit_seed_partial_equivocation_evidence_with_schedule env sched caller evidence w =
     and_then (require_active_submitter w caller) (\<lambda>_.
     and_then (decode_spe1 evidence) (\<lambda>ev.
     if spe_partial_1 ev = spe_partial_2 ev then Inl (Revert ''not equivocation: the two partials are identical'')
     else
       let ok = (\<lambda>partial sig. verify_seed_partial_attest_bytes (env_commonware env) (env_chain_id env)
                   (spe_signer_pubkey ev) (spe_round_epoch ev) (spe_round_view ev) (spe_vrf_version ev) partial sig)
       in if \<not> (ok (spe_partial_1 ev) (spe_identity_sig_1 ev) \<and> ok (spe_partial_2 ev) (spe_identity_sig_2 ev))
          then Inl (Revert ''both partials must carry a valid identity signature from the accused signer'')
          else
          and_then (check_epoch_lag sched (spe_round_epoch ev) w) (\<lambda>_.
          let v = lookup_by_pubkey_hash (vset w) (keccak256 (env_crypto env) (spe_signer_pubkey ev))
          in if v = 0 then Inl (Revert ''signer is not a registered validator'')
             else
               let h = spe1_dedup_hash (env_crypto env) ev
               in if seed_partial_equivocation_processed (slash w) h then Inl (Revert ''evidence already processed'')
                  else
                  and_then (apply_evidence_felony env v caller
                    (w\<lparr>slash := (slash w)\<lparr>seed_partial_equivocation_processed :=
                       (seed_partial_equivocation_processed (slash w))(h := True)\<rparr>\<rparr>)) (\<lambda>w.
                  Inr (si_emit (SeedPartialEquivocationApplied v caller (spe_round_epoch ev) (spe_round_view ev)
                    (spe_vrf_version ev)) w)))))"

definition submit_seed_partial_equivocation_evidence ::
  "exec_env \<Rightarrow> address \<Rightarrow> bytes \<Rightarrow> 'a slash_world_scheme \<Rightarrow> 'a slash_world_scheme result" where
  "submit_seed_partial_equivocation_evidence env =
     submit_seed_partial_equivocation_evidence_with_schedule env default_schedule"

text \<open>The committee checks of the invalid-partial path, up to the pairing checks.\<close>

definition check_partial_committee :: "exec_env \<Rightarrow> invalid_seed_partial \<Rightarrow> 'a slash_world_scheme \<Rightarrow> unit result" where
  "check_partial_committee env ev w =
     (case read_committee_snapshot (committee_snapshot_key (env_crypto env) (ipe_round_epoch ev) (ipe_committee_set_hash ev))
         (snapshots w) of
        None \<Rightarrow> Inl (Revert ''no committee snapshot for (round_epoch, committee_set_hash)'')
      | Some s \<Rightarrow>
          if length (committee s) \<le> unat (ipe_signer_index ev) then Inl (Revert ''signer index out of committee range'')
          else if entry_pubkey (committee s ! unat (ipe_signer_index ev)) \<noteq> ipe_signer_pubkey ev
          then Inl (Revert ''signer pubkey does not match committee entry at index'')
          else if vrf_material_version s \<noteq> ipe_vrf_version ev
          then Inl (Revert ''vrf material version does not match committee snapshot'')
          else if vrf_public_polynomial_hash s = B256_ZERO
          then Inl (Revert ''committee snapshot has no polynomial commitment'')
          else if keccak256 (env_crypto env) (ipe_commitment ev) \<noteq> vrf_public_polynomial_hash s
          then Inl (Revert ''commitment does not match committee snapshot polynomial hash'')
          else Inr ())"

definition submit_invalid_seed_partial_evidence_with_schedule ::
  "exec_env \<Rightarrow> protocol_schedule \<Rightarrow> address \<Rightarrow> bytes \<Rightarrow> 'a slash_world_scheme \<Rightarrow> 'a slash_world_scheme result" where
  "submit_invalid_seed_partial_evidence_with_schedule env sched caller evidence w =
     and_then (require_active_submitter w caller) (\<lambda>_.
     if invalid_vrf_evidence_max_bytes sched < length evidence then Inl (Revert ''evidence too large'')
     else
     and_then (decode_ipe1 evidence) (\<lambda>ev.
     and_then (check_epoch_lag sched (ipe_round_epoch ev) w) (\<lambda>_.
     let v = lookup_by_pubkey_hash (vset w) (keccak256 (env_crypto env) (ipe_signer_pubkey ev))
     in if v = 0 then Inl (Revert ''signer is not a registered validator'')
        else
        and_then (check_partial_committee env ev w) (\<lambda>_.
        if \<not> verify_seed_partial_attest_bytes (env_commonware env) (env_chain_id env) (ipe_signer_pubkey ev)
             (ipe_round_epoch ev) (ipe_round_view ev) (ipe_vrf_version ev) (ipe_partial ev) (ipe_identity_sig ev)
        then Inl (Revert ''partial is not identity-signed by the accused signer'')
        else case verify_seed_partial_against_commitment (env_commonware env) (env_chain_id env) (ipe_commitment ev)
               (ipe_signer_index ev) (ipe_round_epoch ev) (ipe_round_view ev) (ipe_partial ev) of
            None \<Rightarrow> Inl (Revert ''malformed commitment or partial'')
          | Some valid \<Rightarrow>
              if valid then Inl (Revert ''seed partial is valid; nothing to slash'')
              else
              let h = ipe1_dedup_hash (env_crypto env) ev
              in if invalid_seed_partial_processed (slash w) h then Inl (Revert ''evidence already processed'')
                 else
                 and_then (apply_evidence_felony env v caller
                   (w\<lparr>slash := (slash w)\<lparr>invalid_seed_partial_processed :=
                      (invalid_seed_partial_processed (slash w))(h := True)\<rparr>\<rparr>)) (\<lambda>w.
                 Inr (si_emit (InvalidSeedPartialApplied v caller (ipe_round_epoch ev) (ipe_round_view ev)
                   (ipe_vrf_version ev)) w))))))"

definition submit_invalid_seed_partial_evidence ::
  "exec_env \<Rightarrow> address \<Rightarrow> bytes \<Rightarrow> 'a slash_world_scheme \<Rightarrow> 'a slash_world_scheme result" where
  "submit_invalid_seed_partial_evidence env = submit_invalid_seed_partial_evidence_with_schedule env default_schedule"

section \<open>Invalid parent proofs\<close>

definition check_canonical :: "exec_env \<Rightarrow> invalid_vrf_evidence \<Rightarrow> unit result" where
  "check_canonical env ev =
     (case canonical_block_hash env (ive_child_block_number ev) of
        None \<Rightarrow> Inl (Revert ''evidence child block not in canonical-history window'')
      | Some child \<Rightarrow>
          if child \<noteq> ive_child_block_hash ev then Inl (Revert ''evidence child hash is not canonical'')
          else if saturating_add (ive_parent_block_number ev) 1 \<noteq> ive_child_block_number ev
          then Inl (Revert ''evidence parent/child number mismatch'')
          else (case canonical_block_hash env (ive_parent_block_number ev) of
             None \<Rightarrow> Inl (Revert ''evidence parent block not in canonical-history window'')
           | Some parent \<Rightarrow>
               if parent \<noteq> ive_parent_block_hash ev then Inl (Revert ''evidence parent hash is not canonical'')
               else Inr ()))"

text \<open>The proposer and the metadata that the signed first transaction commits to.\<close>

definition attribute_proposer ::
  "exec_env \<Rightarrow> invalid_vrf_evidence \<Rightarrow> (address \<times> certified_parent_metadata) result" where
  "attribute_proposer env ev =
     (case recover_phase1_proposer (env_tx_lib env) (ive_phase1_tx_bytes ev) (env_chain_id env) (ive_child_block_number ev) of
        Inl _ \<Rightarrow> Inl (Revert ''phase1_tx invalid'')
      | Inr (proposer, calldata) \<Rightarrow>
          (case decode_input calldata of
             Inl _ \<Rightarrow> Inl (Revert ''phase1 calldata decode failed'')
           | Inr (CertifiedParentAccountingInput md) \<Rightarrow>
               if finalized_block_number md \<noteq> ive_parent_block_number ev \<or>
                  finalized_block_hash md \<noteq> ive_parent_block_hash ev
               then Inl (Revert ''metadata parent binding mismatch'')
               else if finalized_epoch md \<noteq> ive_child_epoch ev
               then Inl (Revert ''metadata epoch does not match evidence child_epoch'')
               else Inr (proposer, md)
           | Inr _ \<Rightarrow> Inl (Revert ''phase1 calldata is not CertifiedParentAccounting'')))"

definition vrf_failure ::
  "exec_env \<Rightarrow> invalid_vrf_evidence \<Rightarrow> address \<Rightarrow> certified_parent_metadata \<Rightarrow> 'a slash_world_scheme \<Rightarrow> u16 result" where
  "vrf_failure env ev proposer md w =
     (case read_committee_snapshot
         (committee_snapshot_key (env_crypto env) (finalized_epoch md) (metadata_committee_set_hash md)) (snapshots w) of
        None \<Rightarrow> Inl (Revert ''no committee snapshot'')
      | Some s \<Rightarrow>
          if \<not> list_ex (\<lambda>e. entry_address e = proposer) (committee s)
          then Inl (Revert ''phase1_tx proposer not in committee'')
          else (case verify_v2_proof (env_crypto env) (env_commonware env) (env_chain_id env) md s (proof_bytes md)
                   (ive_parent_block_hash ev) of
             Inr _ \<Rightarrow> Inl (Revert ''evidence shows a VALID proof; nothing to slash'')
           | Inl err \<Rightarrow>
               (case classify_vrf_failure err of
                  None \<Rightarrow> Inl (Revert ''verify_v2_proof rejected with non-VRF class; not slashable here'')
                | Some code \<Rightarrow> Inr code)))"

definition submit_invalid_vrf_evidence_with_schedule ::
  "exec_env \<Rightarrow> protocol_schedule \<Rightarrow> address \<Rightarrow> bytes \<Rightarrow> 'a slash_world_scheme \<Rightarrow> 'a slash_world_scheme result" where
  "submit_invalid_vrf_evidence_with_schedule env sched caller evidence w =
     and_then (require_active_submitter w caller) (\<lambda>_.
     if invalid_vrf_evidence_max_bytes sched < length evidence then Inl (Revert ''evidence too large'')
     else
     and_then (decode_ive2 evidence) (\<lambda>ev.
     if saturating_add (ive_child_block_number ev) (invalid_vrf_evidence_max_age_blocks sched) < env_block_number env
     then Inl (Revert ''evidence stale'')
     else
     and_then (check_epoch_lag sched (ive_child_epoch ev) w) (\<lambda>_.
     and_then (check_canonical env ev) (\<lambda>_.
     let h = invalid_vrf_evidence_hash_v2 (env_crypto env) (ive_child_block_hash ev)
               (keccak256 (env_crypto env) (ive_phase1_tx_bytes ev))
     in if invalid_vrf_evidence_processed (slash w) h then Inl (Revert ''evidence already processed'')
        else
        and_then (attribute_proposer env ev) (\<lambda>(proposer, md).
        and_then (vrf_failure env ev proposer md w) (\<lambda>code.
        and_then (apply_evidence_felony env proposer caller
          (w\<lparr>slash := (slash w)\<lparr>invalid_vrf_evidence_processed :=
             (invalid_vrf_evidence_processed (slash w))(h := True)\<rparr>\<rparr>)) (\<lambda>w.
          Inr (si_emit (InvalidVrfProofEvidenceApplied proposer caller (ive_child_block_hash ev) code) w))))))))"

definition submit_invalid_vrf_evidence ::
  "exec_env \<Rightarrow> address \<Rightarrow> bytes \<Rightarrow> 'a slash_world_scheme \<Rightarrow> 'a slash_world_scheme result" where
  "submit_invalid_vrf_evidence env = submit_invalid_vrf_evidence_with_schedule env default_schedule"

section \<open>Hooks\<close>

definition slash_window_voters ::
  "exec_env \<Rightarrow> b256 \<Rightarrow> address list \<Rightarrow> 'a slash_world_scheme \<Rightarrow> 'a slash_world_scheme result" where
  "slash_window_voters env fb absentees w =
     (if voter_window_slashed (slash w) fb then Inr w
      else and_then (fold_res (slash_voter env) absentees w) (\<lambda>w.
        Inr (w\<lparr>slash := (slash w)\<lparr>voter_window_slashed := (voter_window_slashed (slash w))(fb := True)\<rparr>\<rparr>)))"

definition slash_window_proposers ::
  "exec_env \<Rightarrow> b256 \<Rightarrow> address list \<Rightarrow> 'a slash_world_scheme \<Rightarrow> 'a slash_world_scheme result" where
  "slash_window_proposers env fb missed w =
     (if proposer_window_slashed (slash w) fb then Inr w
      else and_then (fold_res (slash_proposer env) missed w) (\<lambda>w.
        Inr (w\<lparr>slash := (slash w)\<lparr>proposer_window_slashed := (proposer_window_slashed (slash w))(fb := True)\<rparr>\<rparr>)))"

definition prune_slash_guards :: "b256 \<Rightarrow> slash_indicator \<Rightarrow> slash_indicator result" where
  "prune_slash_guards fb si =
     (let seq = slash_guard_ring_seq si;
          idx = seq mod SLASH_GUARD_RETAIN;
          evicted = slash_guard_ring si idx;
          si = (if evicted \<noteq> B256_ZERO \<and> evicted \<noteq> fb
                then si\<lparr>voter_window_slashed := (voter_window_slashed si)(evicted := False),
                        proposer_window_slashed := (proposer_window_slashed si)(evicted := False)\<rparr>
                else si);
          si = si\<lparr>slash_guard_ring := (slash_guard_ring si)(idx := fb)\<rparr>
      in case checked_add seq 1 of
           None \<Rightarrow> Inl (Revert ''slash_guard_ring_seq overflow'')
         | Some seq' \<Rightarrow> Inr (si\<lparr>slash_guard_ring_seq := seq'\<rparr>))"


section \<open>The precompile\<close>

text \<open>Calls after ABI decoding; a view answers with a number.\<close>

datatype slash_call =
    SubmitDoubleProposalEvidence bytes bytes
  | SubmitConflictingVoteEvidence bytes bytes
  | SubmitConflictingNotarizeEvidence bytes bytes
  | SubmitConflictingFinalizeEvidence bytes bytes
  | SubmitNullifyFinalizeEvidence bytes bytes
  | SubmitInvalidVrfProofEvidence bytes
  | SubmitSeedPartialEquivocationEvidence bytes
  | SubmitInvalidSeedPartialEvidence bytes
  | GetProposerMissCount address
  | GetVoterMissCount address
  | GetFelonyCount address

definition reject_value :: "u256 \<Rightarrow> unit result" where
  "reject_value val = (if val \<noteq> 0 then Inl (Revert ''non-payable function called with value'') else Inr ())"

definition mutate_void :: "'w result \<Rightarrow> (u64 option \<times> 'w) result" where
  "mutate_void r = and_then r (\<lambda>w. Inr (None, w))"

fun route_slash_call ::
  "exec_env \<Rightarrow> address \<Rightarrow> slash_call \<Rightarrow> 'a slash_world_scheme \<Rightarrow> (u64 option \<times> 'a slash_world_scheme) result" where
  "route_slash_call env caller (SubmitDoubleProposalEvidence a b) w =
     mutate_void (submit_double_proposal_evidence env caller a b w)"
| "route_slash_call env caller (SubmitConflictingVoteEvidence a b) w =
     mutate_void (submit_conflicting_vote_evidence env caller a b w)"
| "route_slash_call env caller (SubmitConflictingNotarizeEvidence a b) w =
     mutate_void (submit_conflicting_notarize_evidence env caller a b w)"
| "route_slash_call env caller (SubmitConflictingFinalizeEvidence a b) w =
     mutate_void (submit_conflicting_finalize_evidence env caller a b w)"
| "route_slash_call env caller (SubmitNullifyFinalizeEvidence a b) w =
     mutate_void (submit_nullify_finalize_evidence env caller a b w)"
| "route_slash_call env caller (SubmitInvalidVrfProofEvidence e) w =
     mutate_void (submit_invalid_vrf_evidence env caller e w)"
| "route_slash_call env caller (SubmitSeedPartialEquivocationEvidence e) w =
     mutate_void (submit_seed_partial_equivocation_evidence env caller e w)"
| "route_slash_call env caller (SubmitInvalidSeedPartialEvidence e) w =
     mutate_void (submit_invalid_seed_partial_evidence env caller e w)"
| "route_slash_call env caller (GetProposerMissCount v) w = Inr (Some (proposer_miss_count (slash w) v), w)"
| "route_slash_call env caller (GetVoterMissCount v) w = Inr (Some (voter_miss_count (slash w) v), w)"
| "route_slash_call env caller (GetFelonyCount v) w = Inr (Some (felony_count (slash w) v), w)"

definition dispatch_slash ::
  "exec_env \<Rightarrow> address \<Rightarrow> u256 \<Rightarrow> slash_call \<Rightarrow> 'a slash_world_scheme \<Rightarrow> (u64 option \<times> 'a slash_world_scheme) result" where
  "dispatch_slash env caller val call w = and_then (reject_value val) (\<lambda>_. route_slash_call env caller call w)"

end
