(* ===== verification/Slash_Properties.thy ===== *)
theory Slash_Properties
  imports Slash_Indicator
begin

text \<open>
  Correctness of the slash indicator: what a miss and a felony do, that evidence convicts once
  and soundly, how long the window guards live, and that slashing keeps the invariants of
  the validator set and the staking contract.
\<close>

section \<open>What a slash leaves alone\<close>

lemma slash_world_ext: "world.more w' = world.more w \<Longrightarrow> slash w' = slash w \<and> snapshots w' = snapshots w"
  by (cases w; cases w') simp

lemma burn_more: "burn_slashed x w = Inr w' \<Longrightarrow> world.more w' = world.more w"
  by (auto simp: burn_slashed_def decrease_balance_def split: if_splits)

lemma slash_stake_more: "slash_stake bn ts v p w = Inr (x, w') \<Longrightarrow> world.more w' = world.more w"
  by (auto simp: slash_stake_def slash_active_effect Let_def and_then_eq_Inr split: if_splits option.splits dest!: burn_more)

lemma slash_stake_keeps_slash:
  "slash_stake bn ts v p w = Inr (x, w') \<Longrightarrow> slash w' = slash w \<and> snapshots w' = snapshots w"
  by (rule slash_world_ext) (rule slash_stake_more)

lemma jail_and_slashE:
  assumes "jail_and_slash env v w = Inr ((fc, x), w')"
  obtains vs where "fc = felony_count (slash w) v + 1" "jail_validator (env_block_number env) v (vset w) = Inr vs"
    "slash_stake (env_block_number env) (env_timestamp env) v (slash_amount_percent (slash w))
       (w\<lparr>slash := (slash w)\<lparr>felony_count := (felony_count (slash w))(v := fc)\<rparr>, vset := vs\<rparr>) = Inr (x, w')"
    "slash w' = (slash w)\<lparr>felony_count := (felony_count (slash w))(v := fc)\<rparr>" "snapshots w' = snapshots w"
proof -
  let ?w = "w\<lparr>slash := (slash w)\<lparr>felony_count := (felony_count (slash w))(v := felony_count (slash w) v + 1)\<rparr>\<rparr>"
  have pct: "slash_amount_percent (slash ?w) = slash_amount_percent (slash w)" by (simp add: slash_amount_percent_def)
  from assms obtain vs where vs: "fc = felony_count (slash w) v + 1"
    "jail_validator (env_block_number env) v (vset w) = Inr vs"
    "slash_stake (env_block_number env) (env_timestamp env) v (slash_amount_percent (slash w)) (?w\<lparr>vset := vs\<rparr>) = Inr (x, w')"
    using pct by (auto simp: jail_and_slash_def Let_def and_then_eq_Inr)
  from slash_stake_keeps_slash [OF vs(3)] vs that show ?thesis by simp
qed

lemma apply_evidence_felony_slash:
  assumes "apply_evidence_felony env v submitter w = Inr w'"
  shows "evidence_processed (slash w') = evidence_processed (slash w)"
    "invalid_vrf_evidence_processed (slash w') = invalid_vrf_evidence_processed (slash w)"
    "seed_partial_equivocation_processed (slash w') = seed_partial_equivocation_processed (slash w)"
    "invalid_seed_partial_processed (slash w') = invalid_seed_partial_processed (slash w)"
    "voter_window_slashed (slash w') = voter_window_slashed (slash w)"
    "proposer_window_slashed (slash w') = proposer_window_slashed (slash w)"
  using assms
  by (auto simp: apply_evidence_felony_def Let_def and_then_eq_Inr si_emit_def increase_balance_def
      split: if_splits elim!: jail_and_slashE)

section \<open>Evidence is used once\<close>

definition vote_entries ::
  "exec_env \<Rightarrow> (address \<Rightarrow> bytes \<Rightarrow> bytes \<Rightarrow> 'a slash_world_scheme \<Rightarrow> 'a slash_world_scheme result) set" where
  "vote_entries env = {submit_double_proposal_evidence env, submit_conflicting_vote_evidence env,
     submit_conflicting_notarize_evidence env, submit_conflicting_finalize_evidence env,
     submit_nullify_finalize_evidence env}"

lemma apply_equivocation_convicts:
  assumes "apply_equivocation_felony env caller b1 b2 d v1 v2 w = Inr w'"
  shows "\<exists>pk. \<not> evidence_processed (slash w) (canonical_evidence_hash (env_crypto env) b1 b2) \<and>
    convict env caller (canonical_evidence_hash (env_crypto env) b1 b2) pk w = Inr w'"
  using assms by (auto simp: apply_equivocation_felony_def Let_def and_then_eq_Inr split: if_splits)

lemma vote_entry_convicts:
  assumes "f \<in> vote_entries env" and "f caller b1 b2 w = Inr w'"
  shows "\<exists>pk. \<not> evidence_processed (slash w) (canonical_evidence_hash (env_crypto env) b1 b2) \<and>
    convict env caller (canonical_evidence_hash (env_crypto env) b1 b2) pk w = Inr w'"
proof -
  consider "f = submit_double_proposal_evidence env" | "f = submit_conflicting_vote_evidence env"
    | d v1 v2 where "f = (\<lambda>caller b1 b2. apply_equivocation_felony env caller b1 b2 d v1 v2)"
    using assms(1)
    unfolding vote_entries_def submit_conflicting_notarize_evidence_def submit_conflicting_finalize_evidence_def
      submit_nullify_finalize_evidence_def by blast
  then show ?thesis
  proof cases
    case 1
    with assms(2) show ?thesis
      by (auto simp: submit_double_proposal_evidence_def Let_def and_then_eq_Inr split: if_splits)
  next
    case 2
    with assms(2) show ?thesis
      by (auto simp: submit_conflicting_vote_evidence_def Let_def and_then_eq_Inr split: if_splits)
  next
    case 3
    with assms(2) show ?thesis by (auto dest!: apply_equivocation_convicts)
  qed
qed

lemma convict_marks:
  "convict env caller h pk w = Inr w' \<Longrightarrow> evidence_processed (slash w') = (evidence_processed (slash w))(h := True)"
  by (auto simp: convict_def Let_def dest!: apply_evidence_felony_slash(1))

text \<open>
  The indicator's entry points and hooks, each one rule. The sender of a transaction is never the
  staking precompile.
\<close>

inductive slash_op :: "'a slash_world_scheme \<Rightarrow> 'a slash_world_scheme \<Rightarrow> bool" where
  submission: "dispatch_slash env caller val call w = Inr (r, w') \<Longrightarrow> caller \<noteq> STAKING_ADDRESS \<Longrightarrow> slash_op w w'"
| voters: "slash_window_voters env fb vs w = Inr w' \<Longrightarrow> slash_op w w'"
| proposers: "slash_window_proposers env fb vs w = Inr w' \<Longrightarrow> slash_op w w'"
| byzantine: "slash_byzantine env v w = Inr w' \<Longrightarrow> slash_op w w'"
| prune: "prune_slash_guards fb (slash w) = Inr si \<Longrightarrow> slash_op w (w\<lparr>slash := si\<rparr>)"
| reset: "slash_op w (reset_epoch_counters vs w)"

text \<open>
  Steps of the chain as far as the indicator's storage can see them: one of these, or any other
  transaction, which cannot write its slots.
\<close>

definition slash_step :: "'a slash_world_scheme \<Rightarrow> 'a slash_world_scheme \<Rightarrow> bool" where
  "slash_step w w' \<longleftrightarrow> slash_op w w' \<or> slash w' = slash w"

text \<open>The processed flags only ever turn on.\<close>

definition flags_le :: "slash_indicator \<Rightarrow> slash_indicator \<Rightarrow> bool" where
  "flags_le si si' \<longleftrightarrow> (\<forall>h. (evidence_processed si h \<longrightarrow> evidence_processed si' h) \<and>
     (invalid_vrf_evidence_processed si h \<longrightarrow> invalid_vrf_evidence_processed si' h) \<and>
     (seed_partial_equivocation_processed si h \<longrightarrow> seed_partial_equivocation_processed si' h) \<and>
     (invalid_seed_partial_processed si h \<longrightarrow> invalid_seed_partial_processed si' h))"

lemma flags_le_refl [simp]: "flags_le si si" by (simp add: flags_le_def)

lemma flags_le_trans: "flags_le a b \<Longrightarrow> flags_le b c \<Longrightarrow> flags_le a c" by (auto simp: flags_le_def)

lemma flags_le_eq:
  "evidence_processed si' = evidence_processed si \<Longrightarrow>
   invalid_vrf_evidence_processed si' = invalid_vrf_evidence_processed si \<Longrightarrow>
   seed_partial_equivocation_processed si' = seed_partial_equivocation_processed si \<Longrightarrow>
   invalid_seed_partial_processed si' = invalid_seed_partial_processed si \<Longrightarrow> flags_le si si'"
  by (simp add: flags_le_def)

lemma flags_le_felony: "apply_evidence_felony env v s w = Inr w' \<Longrightarrow> flags_le (slash w) (slash w')"
  by (rule flags_le_eq) (rule apply_evidence_felony_slash; assumption)+

lemma flags_le_marks [simp]:
  "flags_le si (si\<lparr>evidence_processed := (evidence_processed si)(h := True)\<rparr>)"
  "flags_le si (si\<lparr>invalid_vrf_evidence_processed := (invalid_vrf_evidence_processed si)(h := True)\<rparr>)"
  "flags_le si (si\<lparr>seed_partial_equivocation_processed := (seed_partial_equivocation_processed si)(h := True)\<rparr>)"
  "flags_le si (si\<lparr>invalid_seed_partial_processed := (invalid_seed_partial_processed si)(h := True)\<rparr>)"
  by (simp_all add: flags_le_def)

lemma flags_le_marked_felony:
  "apply_evidence_felony env v s (w\<lparr>slash := si'\<rparr>) = Inr w' \<Longrightarrow> flags_le si si' \<Longrightarrow> flags_le si (slash w')"
  using flags_le_felony [of env v s "w\<lparr>slash := si'\<rparr>" w'] flags_le_trans by fastforce

lemma flags_le_emit [simp]: "flags_le si (slash (si_emit e w)) = flags_le si (slash w)"
  by (simp add: flags_le_def si_emit_def)

lemma flags_le_miss: "slash_voter env v w = Inr w' \<Longrightarrow> flags_le (slash w) (slash w')"
  "slash_proposer env v w = Inr w' \<Longrightarrow> flags_le (slash w) (slash w')"
  unfolding slash_voter_def slash_proposer_def Let_def
  by (auto simp: and_then_eq_Inr split: if_splits elim!: jail_and_slashE) (simp_all add: flags_le_def)

lemma fold_res_flags:
  assumes "fold_res f xs w = Inr w'" and "\<And>x w w'. f x w = Inr w' \<Longrightarrow> flags_le (slash w) (slash w')"
  shows "flags_le (slash w) (slash w')"
  using assms(1) by (rule fold_res_invariant) (auto intro: flags_le_trans assms(2))

text \<open>What the evidence entry points have in common: mark, apply one felony, report it.\<close>

definition convicts :: "exec_env \<Rightarrow> address \<Rightarrow> 'a slash_world_scheme \<Rightarrow> 'a slash_world_scheme \<Rightarrow> bool" where
  "convicts env caller w w' \<longleftrightarrow> (\<exists>v si w1. flags_le (slash w) si \<and>
     apply_evidence_felony env v caller (w\<lparr>slash := si\<rparr>) = Inr w1 \<and> (w' = w1 \<or> (\<exists>e. w' = si_emit e w1)))"

lemma convictsI:
  "apply_evidence_felony env v caller (w\<lparr>slash := si\<rparr>) = Inr w1 \<Longrightarrow> flags_le (slash w) si \<Longrightarrow>
     w' = w1 \<or> (\<exists>e. w' = si_emit e w1) \<Longrightarrow> convicts env caller w w'"
  unfolding convicts_def by blast

lemma seed_equivocation_convicts:
  assumes "submit_seed_partial_equivocation_evidence_with_schedule env sched caller e w = Inr w'"
  shows "convicts env caller w w'"
proof -
  from assms obtain v h w1 where
    "apply_evidence_felony env v caller (w\<lparr>slash := (slash w)\<lparr>seed_partial_equivocation_processed :=
       (seed_partial_equivocation_processed (slash w))(h := True)\<rparr>\<rparr>) = Inr w1" and w': "\<exists>e. w' = si_emit e w1"
    unfolding submit_seed_partial_equivocation_evidence_with_schedule_def Let_def
    by (auto simp: and_then_eq_Inr)
  from convictsI [OF this(1) flags_le_marks(3)] w' show ?thesis by blast
qed

lemma invalid_partial_convicts:
  assumes "submit_invalid_seed_partial_evidence_with_schedule env sched caller e w = Inr w'"
  shows "convicts env caller w w'"
proof -
  from assms obtain v h w1 where
    "apply_evidence_felony env v caller (w\<lparr>slash := (slash w)\<lparr>invalid_seed_partial_processed :=
       (invalid_seed_partial_processed (slash w))(h := True)\<rparr>\<rparr>) = Inr w1" and w': "\<exists>e. w' = si_emit e w1"
    unfolding submit_invalid_seed_partial_evidence_with_schedule_def Let_def
    by (clarsimp simp: and_then_eq_Inr split: option.splits if_split_asm) blast
  from convictsI [OF this(1) flags_le_marks(4)] w' show ?thesis by blast
qed

lemma invalid_vrf_convicts:
  assumes "submit_invalid_vrf_evidence_with_schedule env sched caller e w = Inr w'"
  shows "convicts env caller w w'"
proof -
  from assms obtain v h w1 where
    "apply_evidence_felony env v caller (w\<lparr>slash := (slash w)\<lparr>invalid_vrf_evidence_processed :=
       (invalid_vrf_evidence_processed (slash w))(h := True)\<rparr>\<rparr>) = Inr w1" and w': "\<exists>e. w' = si_emit e w1"
    unfolding submit_invalid_vrf_evidence_with_schedule_def Let_def
    by (auto simp: and_then_eq_Inr)
  from convictsI [OF this(1) flags_le_marks(2)] w' show ?thesis by blast
qed

lemma vote_convicts:
  assumes "f \<in> vote_entries env" and "f caller b1 b2 w = Inr w'"
  shows "convicts env caller w w'"
  using vote_entry_convicts [OF assms] by (auto simp: convict_def Let_def intro: convictsI split: if_splits)

lemma call_convicts:
  assumes "dispatch_slash env caller val call w = Inr (r, w')"
  shows "w' = w \<or> convicts env caller w w'"
proof -
  have "route_slash_call env caller call w = Inr (r, w')"
    using assms by (auto simp: dispatch_slash_def reject_value_def split: if_splits)
  then have "w' = w \<or> (\<exists>f\<in>vote_entries env. \<exists>a b. f caller a b w = Inr w') \<or>
    (\<exists>e. submit_seed_partial_equivocation_evidence env caller e w = Inr w') \<or>
    (\<exists>e. submit_invalid_seed_partial_evidence env caller e w = Inr w') \<or>
    (\<exists>e. submit_invalid_vrf_evidence env caller e w = Inr w')"
    by (cases call) (auto simp: mutate_void_def and_then_eq_Inr vote_entries_def)
  then show ?thesis
    unfolding submit_seed_partial_equivocation_evidence_def submit_invalid_seed_partial_evidence_def
      submit_invalid_vrf_evidence_def
    by (auto dest: seed_equivocation_convicts invalid_partial_convicts invalid_vrf_convicts
        intro: vote_convicts [of _ env])
qed

lemma convicts_flags: "convicts env caller w w' \<Longrightarrow> flags_le (slash w) (slash w')"
  by (auto simp: convicts_def intro: flags_le_marked_felony)

lemma window_flags:
  "slash_window_voters env fb vs w = Inr w' \<Longrightarrow> flags_le (slash w) (slash w')"
  "slash_window_proposers env fb vs w = Inr w' \<Longrightarrow> flags_le (slash w) (slash w')"
proof -
  have fl: "fold_res (slash_voter env) vs w = Inr u \<Longrightarrow> flags_le (slash w) (slash u)"
    "fold_res (slash_proposer env) vs w = Inr u \<Longrightarrow> flags_le (slash w) (slash u)" for u
    by (rule fold_res_flags, assumption, rule flags_le_miss, assumption)+
  show "slash_window_voters env fb vs w = Inr w' \<Longrightarrow> flags_le (slash w) (slash w')"
    by (auto simp: slash_window_voters_def and_then_eq_Inr split: if_splits dest!: fl(1)) (simp add: flags_le_def)
  show "slash_window_proposers env fb vs w = Inr w' \<Longrightarrow> flags_le (slash w) (slash w')"
    by (auto simp: slash_window_proposers_def and_then_eq_Inr split: if_splits dest!: fl(2)) (simp add: flags_le_def)
qed

lemma reset_flags: "flags_le si0 si \<Longrightarrow> flags_le si0 (fold clear_miss_counts vs si)"
  by (induction vs arbitrary: si) (simp_all add: flags_le_def clear_miss_counts_def)

lemma slash_op_flags: "slash_op w w' \<Longrightarrow> flags_le (slash w) (slash w')"
proof (induction rule: slash_op.induct)
  case (submission env caller val call w r w')
  then show ?case using call_convicts convicts_flags by fastforce
next
  case (voters env fb vs w w')
  then show ?case by (rule window_flags)
next
  case (proposers env fb vs w w')
  then show ?case by (rule window_flags)
next
  case (byzantine env v w w')
  then show ?case by (auto simp: slash_byzantine_def and_then_eq_Inr elim!: jail_and_slashE) (simp add: flags_le_def)
next
  case (prune fb w si)
  then show ?case by (auto simp: prune_slash_guards_def Let_def flags_le_def split: option.splits if_splits)
next
  case (reset w vs)
  show ?case by (simp add: reset_epoch_counters_def reset_flags)
qed

lemma slash_step_flags: "slash_step w w' \<Longrightarrow> flags_le (slash w) (slash w')"
  by (auto simp: slash_step_def dest: slash_op_flags)

lemma slash_steps_flags: "slash_step\<^sup>*\<^sup>* w w' \<Longrightarrow> flags_le (slash w) (slash w')"
  by (induction rule: rtranclp_induct) (auto intro: flags_le_trans dest: slash_step_flags)

text \<open>
  C6. A pair of conflicting votes convicts its signer at most once: after any of the five
  entry points has accepted it, none accepts the same pair again, in either order, from any
  submitter, in any block, whatever the chain did in between.
\<close>

theorem vote_evidence_once:
  assumes "f \<in> vote_entries env" and "f caller b1 b2 w = Inr w1" and "slash_step\<^sup>*\<^sup>* w1 w2"
    and "g \<in> vote_entries env'" and "env_crypto env' = env_crypto env"
  shows "\<not> is_ok (g caller' b1 b2 w2) \<and> \<not> is_ok (g caller' b2 b1 w2)"
proof -
  let ?h = "canonical_evidence_hash (env_crypto env) b1 b2"
  from vote_entry_convicts [OF assms(1,2)] convict_marks have "evidence_processed (slash w1) ?h" by fastforce
  with slash_steps_flags [OF assms(3)] have marked: "evidence_processed (slash w2) ?h" by (simp add: flags_le_def)
  have "\<not> is_ok (g caller' x y w2)" if "canonical_evidence_hash (env_crypto env) x y = ?h" for x y
    using vote_entry_convicts [OF assms(4), of caller' x y w2] marked that assms(5)
    by (auto simp: is_ok_def split: sum.splits)
  then show ?thesis using canonical_evidence_hash_commute by metis
qed

section \<open>A felony\<close>

lemma jail_succeeds:
  assumes "address_to_index vs v \<noteq> 0" and "val_status vs v = ACTIVE"
  obtains vs' where "jail_validator bn v vs = Inr vs'" "val_status vs' v = JAILED"
  using assms by (simp add: jail_validator_def punish_validator_def Let_def emit_def)

lemma slash_keeps_jailed:
  assumes "slash_stake bn ts v p w = Inr (x, w')" and "val_status (vset w) v = JAILED"
  shows "val_status (vset w') v = JAILED"
  using assms by (auto simp: slash_status_def elim!: slash_vset)

text \<open>When the felony branch cannot fail: the validator is active and the contract can pay.\<close>

definition can_be_slashed :: "exec_env \<Rightarrow> address \<Rightarrow> 'a slash_world_scheme \<Rightarrow> bool" where
  "can_be_slashed env v w \<longleftrightarrow> solvent w \<and> address_to_index (vset w) v \<noteq> 0 \<and> val_status (vset w) v = ACTIVE \<and>
     slash_amount_percent (slash w) \<le> 100 \<and>
     (case slashed_withdrawal_delay (stk w) of Inl _ \<Rightarrow> False | Inr d \<Rightarrow> unat (env_timestamp env) + unat d < 2 ^ 64)"

lemma can_be_slashed_cong:
  "stk w' = stk w \<Longrightarrow> balances w' = balances w \<Longrightarrow> vset w' = vset w \<Longrightarrow>
     slash_amount_percent (slash w') = slash_amount_percent (slash w) \<Longrightarrow> can_be_slashed env v w' = can_be_slashed env v w"
  by (simp add: can_be_slashed_def solvent_cong [of w' w])

text \<open>
  The effect of a felony: jailed, and \<open>slashed\<close> coins, the percentage of the stake and of every
  unbonding entry, gone from the staking contract.
\<close>

definition felony_effect :: "address \<Rightarrow> 'a slash_world_scheme \<Rightarrow> u256 \<Rightarrow> 'a slash_world_scheme \<Rightarrow> bool" where
  "felony_effect v w x w' \<longleftrightarrow>
     val_status (vset w') v = JAILED \<and> felony_count (slash w') = (felony_count (slash w))(v := felony_count (slash w) v + 1) \<and>
     unat x = slash_total v (slash_amount_percent (slash w)) (stk w) \<and> x \<le> balances w STAKING_ADDRESS \<and>
     stake_amount (stk w') v = stake_amount (stk w) v - percent_of (stake_amount (stk w) v) (slash_amount_percent (slash w))"

lemma jail_and_slash_result:
  assumes "can_be_slashed env v w"
  obtains x w' where "jail_and_slash env v w = Inr ((felony_count (slash w) v + 1, x), w')"
    "felony_effect v w x w'" "solvent w'"
    "slash w' = (slash w)\<lparr>felony_count := (felony_count (slash w))(v := felony_count (slash w) v + 1)\<rparr>"
    "balances w' = (balances w)(STAKING_ADDRESS := balances w STAKING_ADDRESS - x)"
proof -
  let ?p = "slash_amount_percent (slash w)" and ?fc = "felony_count (slash w) v + 1"
  from assms obtain d where d: "slashed_withdrawal_delay (stk w) = Inr d" "unat (env_timestamp env) + unat d < 2 ^ 64"
    and w: "solvent w" "?p \<le> 100" and v: "address_to_index (vset w) v \<noteq> 0" "val_status (vset w) v = ACTIVE"
    by (auto simp: can_be_slashed_def split: sum.splits)
  obtain vs where vs: "jail_validator (env_block_number env) v (vset w) = Inr vs" "val_status vs v = JAILED"
    using jail_succeeds [OF v] .
  let ?w = "w\<lparr>slash := (slash w)\<lparr>felony_count := (felony_count (slash w))(v := ?fc)\<rparr>, vset := vs\<rparr>"
  have w': "solvent ?w" using w(1) solvent_cong [of ?w w] by simp
  have t: "checked_complete_time (env_timestamp env) d = Inr (env_timestamp env + d)"
    using d(2) by (simp add: checked_complete_time_def checked_add_def)
  have d': "slashed_withdrawal_delay (stk ?w) = Inr d" using d(1) by simp
  obtain x u where r: "slash_stake (env_block_number env) (env_timestamp env) v ?p ?w = Inr (x, u)"
    "unat x = slash_total v ?p (stk ?w)"
    "stk u = slash_entries ?p (env_timestamp env + d) (owned v (stk ?w)) (slashed_stake v ?p (stk ?w))"
    "balances u = (balances ?w)(STAKING_ADDRESS := balances ?w STAKING_ADDRESS - x)" "x \<le> balances ?w STAKING_ADDRESS"
    by (rule slash_stake_result [OF w' w(2) d' t])
  have pct: "slash_amount_percent (slash ?w) = ?p" by (simp add: slash_amount_percent_def)
  have run: "jail_and_slash env v w = Inr ((?fc, x), u)"
    using vs r(1) pct by (simp add: jail_and_slash_def Let_def)
  have st: "val_status (vset u) v = JAILED" using slash_keeps_jailed [OF r(1)] vs(2) by simp
  have sl: "slash u = (slash w)\<lparr>felony_count := (felony_count (slash w))(v := ?fc)\<rparr>"
    using slash_stake_keeps_slash [OF r(1)] by simp
  have "stake_amount (stk u) v = stake_amount (stk w) v - percent_of (stake_amount (stk w) v) ?p"
    using r(3) by (simp add: slash_entries_def slashed_stake_def set_stake_def)
  then have "felony_effect v w x u" using st sl r(2,5) by (simp add: felony_effect_def)
  from that [OF run this slash_stake_solvent [OF w' r(1)] sl] r(4) show thesis by simp
qed

definition miss_effect :: "u64 \<Rightarrow> u64 \<Rightarrow> address \<Rightarrow> 'a slash_world_scheme \<Rightarrow> 'a slash_world_scheme \<Rightarrow> bool" where
  "miss_effect n threshold v w w' \<longleftrightarrow>
     (if n \<noteq> 0 \<and> n mod threshold = 0
      then \<exists>x. felony_effect v w x w' \<and> balances w' = (balances w)(STAKING_ADDRESS := balances w STAKING_ADDRESS - x)
      else felony_count (slash w') = felony_count (slash w) \<and> vset w' = vset w \<and> stk w' = stk w \<and>
        balances w' = balances w)"

lemma felony_effect_cong:
  "felony_effect v (w\<lparr>slash := si\<rparr>) x w' \<Longrightarrow> felony_count si = felony_count (slash w) \<Longrightarrow>
     slash_amount_percent si = slash_amount_percent (slash w) \<Longrightarrow> felony_effect v w x w'"
  by (simp add: felony_effect_def)

lemma felony_effect_emit [simp]: "felony_effect v w x (si_emit e w') = felony_effect v w x w'"
  by (simp add: felony_effect_def si_emit_def)

lemma solvent_emit [simp]: "solvent (si_emit e w) = solvent w" "solvent (w\<lparr>slash := si\<rparr>) = solvent w"
  by (rule solvent_cong; simp add: si_emit_def)+

lemma emit_frame [simp]: "balances (si_emit e w) = balances w" "vset (si_emit e w) = vset w" "stk (si_emit e w) = stk w"
  "felony_count (slash (si_emit e w)) = felony_count (slash w)"
  "voter_miss_count (slash (si_emit e w)) = voter_miss_count (slash w)"
  "proposer_miss_count (slash (si_emit e w)) = proposer_miss_count (slash w)"
  by (simp_all add: si_emit_def)

lemma slash_voter_result:
  assumes "can_be_slashed env v w"
  defines "n \<equiv> voter_miss_count (slash w) v + 1"
  shows "\<exists>w'. slash_voter env v w = Inr w' \<and> solvent w' \<and>
    voter_miss_count (slash w') = (voter_miss_count (slash w))(v := n) \<and>
    miss_effect n (voter_felony_threshold (slash w)) v w w'"
proof -
  let ?si = "(slash w)\<lparr>voter_miss_count := (voter_miss_count (slash w))(v := n)\<rparr>"
  have cfg: "slash_amount_percent ?si = slash_amount_percent (slash w)"
    "voter_felony_threshold ?si = voter_felony_threshold (slash w)" "felony_count ?si = felony_count (slash w)"
    by (simp_all add: slash_amount_percent_def voter_felony_threshold_def)
  have can: "can_be_slashed env v (w\<lparr>slash := ?si\<rparr>)" using assms(1) cfg can_be_slashed_cong [of "w\<lparr>slash := ?si\<rparr>" w] by simp
  have act: "\<not> validator_already_penalized (w\<lparr>slash := ?si\<rparr>) v" "solvent w"
    using can by (simp_all add: can_be_slashed_def validator_already_penalized_def)
  show ?thesis
  proof (cases "n \<noteq> 0 \<and> n mod voter_felony_threshold (slash w) = 0")
    case True
    obtain x u where u: "jail_and_slash env v (w\<lparr>slash := ?si\<rparr>) = Inr ((felony_count (slash w) v + 1, x), u)"
      "felony_effect v (w\<lparr>slash := ?si\<rparr>) x u" "solvent u"
      "slash u = ?si\<lparr>felony_count := (felony_count (slash w))(v := felony_count (slash w) v + 1)\<rparr>"
      "balances u = (balances w)(STAKING_ADDRESS := balances w STAKING_ADDRESS - x)"
      by (rule jail_and_slash_result [OF can]) simp
    have "felony_effect v w x u" by (rule felony_effect_cong [OF u(2) cfg(3,1)])
    then show ?thesis using True u act cfg
      by (intro exI [of _ "si_emit (VoterFelony v n (felony_count (slash w) v + 1)) u"])
        (simp add: slash_voter_def Let_def miss_effect_def n_def [symmetric] word_gt_0, blast)
  next
    case False
    then show ?thesis using act cfg
      by (auto simp: slash_voter_def Let_def miss_effect_def n_def [symmetric] word_gt_0 del: mod_0_imp_dvd)
  qed
qed

lemma slash_proposer_result:
  assumes "can_be_slashed env v w"
  defines "n \<equiv> proposer_miss_count (slash w) v + 1"
  shows "\<exists>w'. slash_proposer env v w = Inr w' \<and> solvent w' \<and>
    proposer_miss_count (slash w') = (proposer_miss_count (slash w))(v := n) \<and>
    miss_effect n (proposer_felony_threshold (slash w)) v w w'"
proof -
  let ?si = "(slash w)\<lparr>proposer_miss_count := (proposer_miss_count (slash w))(v := n)\<rparr>"
  have cfg: "slash_amount_percent ?si = slash_amount_percent (slash w)"
    "proposer_felony_threshold ?si = proposer_felony_threshold (slash w)" "felony_count ?si = felony_count (slash w)"
    by (simp_all add: slash_amount_percent_def proposer_felony_threshold_def)
  have can: "can_be_slashed env v (w\<lparr>slash := ?si\<rparr>)" using assms(1) cfg can_be_slashed_cong [of "w\<lparr>slash := ?si\<rparr>" w] by simp
  have act: "\<not> validator_already_penalized (w\<lparr>slash := ?si\<rparr>) v" "solvent w"
    using can by (simp_all add: can_be_slashed_def validator_already_penalized_def)
  show ?thesis
  proof (cases "n \<noteq> 0 \<and> n mod proposer_felony_threshold (slash w) = 0")
    case True
    obtain x u where u: "jail_and_slash env v (w\<lparr>slash := ?si\<rparr>) = Inr ((felony_count (slash w) v + 1, x), u)"
      "felony_effect v (w\<lparr>slash := ?si\<rparr>) x u" "solvent u"
      "slash u = ?si\<lparr>felony_count := (felony_count (slash w))(v := felony_count (slash w) v + 1)\<rparr>"
      "balances u = (balances w)(STAKING_ADDRESS := balances w STAKING_ADDRESS - x)"
      by (rule jail_and_slash_result [OF can]) simp
    have "felony_effect v w x u" by (rule felony_effect_cong [OF u(2) cfg(3,1)])
    then show ?thesis using True u act cfg
      by (intro exI [of _ "si_emit (ProposerFelony v n (felony_count (slash w) v + 1)) u"])
        (simp add: slash_proposer_def Let_def miss_effect_def n_def [symmetric] word_gt_0, blast)
  next
    case False
    then show ?thesis using act cfg
      by (auto simp: slash_proposer_def Let_def miss_effect_def n_def [symmetric] word_gt_0 del: mod_0_imp_dvd)
  qed
qed


text \<open>
  C17. Counting a miss of an active validator always succeeds and raises its counter by one.
  Exactly when the new count is a multiple of the felony threshold the validator is jailed,
  its felony count grows by one and the configured percentage of its stake and unbonding
  entries leaves the staking contract; otherwise statuses, stakes and balances are untouched.
\<close>

theorem miss_correct:
  assumes "can_be_slashed env v w"
  shows "(\<exists>w'. slash_voter env v w = Inr w' \<and> solvent w' \<and>
      voter_miss_count (slash w') = (voter_miss_count (slash w))(v := voter_miss_count (slash w) v + 1) \<and>
      miss_effect (voter_miss_count (slash w) v + 1) (voter_felony_threshold (slash w)) v w w') \<and>
    (\<exists>w'. slash_proposer env v w = Inr w' \<and> solvent w' \<and>
      proposer_miss_count (slash w') = (proposer_miss_count (slash w))(v := proposer_miss_count (slash w) v + 1) \<and>
      miss_effect (proposer_miss_count (slash w) v + 1) (proposer_felony_threshold (slash w)) v w w')"
  using slash_voter_result [OF assms] slash_proposer_result [OF assms] by blast

section \<open>Evidence felonies\<close>

lemma reward_le:
  assumes "unat x * 100 < 2 ^ 256" and "p \<le> (100 :: u64)"
  shows "unat (x * ucast p div 100 :: u256) = unat x * unat p div 100" and "unat x * unat p div 100 \<le> unat x"
proof -
  have "unat x * unat p \<le> unat x * 100" using assms(2) by (simp add: word_le_nat_alt)
  with assms(1) have fits: "unat x * unat p < 2 ^ 256" and le: "unat x * unat p div 100 \<le> unat x" by linarith+
  from fits show "unat (x * ucast p div 100 :: u256) = unat x * unat p div 100"
    by (simp add: unat_div unat_mult_exact)
  from le show "unat x * unat p div 100 \<le> unat x" .
qed

lemma coins_moved:
  fixes b :: "address \<Rightarrow> u256"
  assumes "x \<le> b s" and "unat y \<le> unat x" and "(\<Sum>a\<in>UNIV. unat (b a)) < 2 ^ 256"
  defines "b1 \<equiv> b(s := b s - x)"
  shows "(\<Sum>a\<in>UNIV. unat ((b1(r := b1 r + y)) a)) + unat x = (\<Sum>a\<in>UNIV. unat (b a)) + unat y"
    and "unat (b1 r + y) = unat (b1 r) + unat y"
proof -
  have sub: "unat (b s - x) = unat (b s) - unat x" "unat x \<le> unat (b s)"
    using assms(1) by (simp_all add: unat_sub_exact word_le_nat_alt)
  have one: "(\<Sum>a\<in>UNIV. unat (b1 a)) + unat x = (\<Sum>a\<in>UNIV. unat (b a))"
    using sum_unat_fun_upd [of b s "b s - x"] sub unfolding b1_def by linarith
  moreover have "unat (b1 r) \<le> (\<Sum>a\<in>UNIV. unat (b1 a))" by (rule member_le_sum_UNIV)
  ultimately have "unat (b1 r) + unat y < 2 ^ 256" using assms(2,3) by linarith
  then show fits: "unat (b1 r + y) = unat (b1 r) + unat y" by (simp add: unat_add_exact)
  show "(\<Sum>a\<in>UNIV. unat ((b1(r := b1 r + y)) a)) + unat x = (\<Sum>a\<in>UNIV. unat (b a)) + unat y"
    using fits one sum_unat_fun_upd [of b1 r "b1 r + y"] by linarith
qed

lemma solvent_more: "solvent w \<Longrightarrow> balances w STAKING_ADDRESS \<le> b STAKING_ADDRESS \<Longrightarrow> solvent (w\<lparr>balances := b\<rparr>)"
  by (auto simp: solvent_def covers_def word_le_nat_alt)

text \<open>
  C37. Accepted evidence against an active validator jails it, burns the configured
  percentage of its stake and unbonding entries and mints the submitter that share of the
  burned coins the reward percentage names: the contract stays solvent and the coins in
  existence shrink by exactly the burned minus the rewarded amount.
\<close>

theorem evidence_felony_correct:
  assumes "can_be_slashed env v w" and "evidence_reward_percent (slash w) \<le> 100"
    and "(\<Sum>a\<in>UNIV. unat (balances w a)) * 100 < 2 ^ 256"
  shows "\<exists>w' x. apply_evidence_felony env v submitter w = Inr w' \<and> solvent w' \<and> felony_effect v w x w' \<and>
    (\<Sum>a\<in>UNIV. unat (balances w' a)) + unat x =
      (\<Sum>a\<in>UNIV. unat (balances w a)) + unat x * unat (evidence_reward_percent (slash w)) div 100 \<and>
    (submitter \<noteq> STAKING_ADDRESS \<longrightarrow> unat (balances w' submitter) =
      unat (balances w submitter) + unat x * unat (evidence_reward_percent (slash w)) div 100)"
proof -
  let ?q = "evidence_reward_percent (slash w)"
  obtain x u where u: "jail_and_slash env v w = Inr ((felony_count (slash w) v + 1, x), u)"
    "felony_effect v w x u" "solvent u"
    "slash u = (slash w)\<lparr>felony_count := (felony_count (slash w))(v := felony_count (slash w) v + 1)\<rparr>"
    "balances u = (balances w)(STAKING_ADDRESS := balances w STAKING_ADDRESS - x)"
    by (rule jail_and_slash_result [OF assms(1)])
  define y :: u256 where "y = x * ucast ?q div 100"
  let ?b = "(balances u)(submitter := balances u submitter + y)"
  define e where "e = EvidenceFelonyApplied v submitter x y"
  have x: "x \<le> balances w STAKING_ADDRESS" using u(2) by (simp add: felony_effect_def)
  also have "unat \<dots> \<le> (\<Sum>a\<in>UNIV. unat (balances w a))" by (rule member_le_sum_UNIV)
  finally have "unat x * 100 < 2 ^ 256" using assms(3) by (simp add: word_le_nat_alt)
  note y = reward_le [OF this assms(2), folded y_def]
  have coins: "(\<Sum>a\<in>UNIV. unat (?b a)) + unat x = (\<Sum>a\<in>UNIV. unat (balances w a)) + unat y"
    and fits: "unat (balances u submitter + y) = unat (balances u submitter) + unat y"
    using coins_moved [of x "balances w" STAKING_ADDRESS y submitter] x y assms(3) u(5) by simp_all
  have q: "evidence_reward_percent (slash u) = ?q" by (simp add: u(4) evidence_reward_percent_def)
  have run: "apply_evidence_felony env v submitter w = Inr (si_emit e (u\<lparr>balances := ?b\<rparr>))"
    using u(1) by (auto simp: apply_evidence_felony_def Let_def q increase_balance_def y_def e_def fun_upd_idem)
  have "solvent (u\<lparr>balances := ?b\<rparr>)" using u(3) fits by (intro solvent_more) (auto simp: word_le_nat_alt)
  moreover have "felony_effect v w x (u\<lparr>balances := ?b\<rparr>)" using u(2) by (simp add: felony_effect_def)
  moreover have "submitter \<noteq> STAKING_ADDRESS \<longrightarrow> unat (?b submitter) = unat (balances w submitter) + unat y"
    using fits u(5) by (simp split: if_splits)
  moreover have bal: "balances (si_emit e (u\<lparr>balances := ?b\<rparr>)) = ?b" by simp
  ultimately show ?thesis using run coins unfolding y(1)
    by (intro exI [of _ "si_emit e (u\<lparr>balances := ?b\<rparr>)"] exI [of _ x] conjI)
      (simp_all only: bal solvent_emit felony_effect_emit)
qed


section \<open>The window guards\<close>

text \<open>
  The ring between two prunes of the same slot: \<open>fb\<close> sits only in the slot its own prune
  wrote, and \<open>k\<close> further blocks have been pruned.
\<close>

definition guarded :: "b256 \<Rightarrow> u64 \<Rightarrow> nat \<Rightarrow> slash_indicator \<Rightarrow> bool" where
  "guarded fb s0 k si \<longleftrightarrow> unat (slash_guard_ring_seq si) = unat s0 + 1 + k \<and>
     (\<forall>i. i < SLASH_GUARD_RETAIN \<longrightarrow> (slash_guard_ring si i = fb) = (i = s0 mod SLASH_GUARD_RETAIN))"

lemma unat_slot: "unat (s mod SLASH_GUARD_RETAIN) = unat s mod 64"
  by (simp add: unat_mod SLASH_GUARD_RETAIN_def)

lemma slot_lt: "s mod SLASH_GUARD_RETAIN < SLASH_GUARD_RETAIN"
  by (simp add: word_less_nat_alt unat_slot) (simp add: SLASH_GUARD_RETAIN_def)

lemma slot_eq_iff:
  assumes "unat s = unat s0 + 1 + k" and "k < 64"
  shows "s mod SLASH_GUARD_RETAIN = s0 mod SLASH_GUARD_RETAIN \<longleftrightarrow> k = 63"
proof -
  have "(a + 1 + k) mod 64 = a mod 64 \<longleftrightarrow> k = 63" for a :: nat
    using assms(2) by (subst mod_eq_iff_dvd_symdiff_nat) (auto dest: dvd_imp_le)
  with assms(1) show ?thesis by (simp add: word_unat_eq_iff unat_slot)
qed

lemma pruneE:
  assumes "prune_slash_guards h si = Inr si'"
  defines "idx \<equiv> slash_guard_ring_seq si mod SLASH_GUARD_RETAIN"
  defines "clear \<equiv> (\<lambda>m :: b256 \<Rightarrow> bool. if slash_guard_ring si idx \<noteq> B256_ZERO \<and> slash_guard_ring si idx \<noteq> h
     then m(slash_guard_ring si idx := False) else m)"
  shows "unat (slash_guard_ring_seq si') = unat (slash_guard_ring_seq si) + 1"
    "slash_guard_ring si' = (slash_guard_ring si)(idx := h)"
    "voter_window_slashed si' = clear (voter_window_slashed si)"
    "proposer_window_slashed si' = clear (proposer_window_slashed si)"
  using assms(1)
  by (auto simp: prune_slash_guards_def Let_def checked_add_def idx_def clear_def unat_add_exact split: if_splits)

lemma guarded_start:
  assumes "prune_slash_guards fb si = Inr si'" and "\<forall>i. slash_guard_ring si i \<noteq> fb"
  shows "guarded fb (slash_guard_ring_seq si) 0 si'"
  using assms(2) by (simp add: guarded_def pruneE [OF assms(1)])

lemma guarded_step:
  assumes "prune_slash_guards h si = Inr si'" and "guarded fb s0 k si" and "h \<noteq> fb" and "k < 63"
  shows "guarded fb s0 (Suc k) si'" "voter_window_slashed si' fb = voter_window_slashed si fb"
    "proposer_window_slashed si' fb = proposer_window_slashed si fb"
proof -
  let ?s = "slash_guard_ring_seq si"
  have ne: "?s mod SLASH_GUARD_RETAIN \<noteq> s0 mod SLASH_GUARD_RETAIN"
    using slot_eq_iff [of ?s s0 k] assms(2,4) by (simp add: guarded_def)
  then have other: "slash_guard_ring si (?s mod SLASH_GUARD_RETAIN) \<noteq> fb"
    using assms(2) slot_lt [of ?s] by (auto simp: guarded_def)
  with ne assms(2,3) show "guarded fb s0 (Suc k) si'" by (auto simp: guarded_def pruneE [OF assms(1)])
  show "voter_window_slashed si' fb = voter_window_slashed si fb"
    "proposer_window_slashed si' fb = proposer_window_slashed si fb"
    using other by (auto simp: pruneE [OF assms(1)])
qed

lemma guarded_evict:
  assumes "prune_slash_guards h si = Inr si'" and "guarded fb s0 63 si" and "h \<noteq> fb" and "fb \<noteq> B256_ZERO"
  shows "\<not> voter_window_slashed si' fb" "\<not> proposer_window_slashed si' fb"
proof -
  let ?s = "slash_guard_ring_seq si"
  have "?s mod SLASH_GUARD_RETAIN = s0 mod SLASH_GUARD_RETAIN"
    using slot_eq_iff [of ?s s0 63] assms(2) by (simp add: guarded_def)
  then have "slash_guard_ring si (?s mod SLASH_GUARD_RETAIN) = fb"
    using assms(2) slot_lt [of s0] by (auto simp: guarded_def)
  with assms(3,4) show "\<not> voter_window_slashed si' fb" "\<not> proposer_window_slashed si' fb"
    by (simp_all add: pruneE [OF assms(1)])
qed

lemma guarded_run:
  assumes "fold_res prune_slash_guards hs si = Inr si'" and "guarded fb s0 k si" and "fb \<notin> set hs"
    and "k + length hs \<le> 63"
  shows "guarded fb s0 (k + length hs) si' \<and> voter_window_slashed si' fb = voter_window_slashed si fb \<and>
    proposer_window_slashed si' fb = proposer_window_slashed si fb"
  using assms
proof (induction hs arbitrary: k si)
  case (Cons h hs)
  from Cons.prems(1) obtain t where t: "prune_slash_guards h si = Inr t" "fold_res prune_slash_guards hs t = Inr si'"
    by (auto simp: and_then_eq_Inr)
  have st: "guarded fb s0 (Suc k) t" "voter_window_slashed t fb = voter_window_slashed si fb"
    "proposer_window_slashed t fb = proposer_window_slashed si fb"
    by (rule guarded_step [OF t(1) Cons.prems(2)]; use Cons.prems in auto)+
  show ?case using Cons.IH [OF t(2) st(1)] st(2,3) Cons.prems by simp
qed simp

text \<open>
  C38. A block's double-slash guard lives for exactly 64 blocks: from the prune that
  records the block, the next 63 prunes for other blocks leave its two guards as they are, and
  the 64th clears both.
\<close>

theorem guard_retention:
  assumes "prune_slash_guards fb si0 = Inr si" and "\<forall>i. slash_guard_ring si0 i \<noteq> fb" and "fb \<noteq> B256_ZERO"
    and "fold_res prune_slash_guards hs si = Inr si'" and "fb \<notin> set hs"
  shows "(length hs < 64 \<longrightarrow> voter_window_slashed si' fb = voter_window_slashed si fb \<and>
      proposer_window_slashed si' fb = proposer_window_slashed si fb) \<and>
    (length hs = 64 \<longrightarrow> \<not> voter_window_slashed si' fb \<and> \<not> proposer_window_slashed si' fb)"
proof (intro conjI impI)
  note start = guarded_start [OF assms(1,2)]
  show "voter_window_slashed si' fb = voter_window_slashed si fb"
    "proposer_window_slashed si' fb = proposer_window_slashed si fb" if "length hs < 64"
    using guarded_run [OF assms(4) start assms(5)] that by simp_all
  assume "length hs = 64"
  then obtain hs1 h where hs: "hs = hs1 @ [h]" "length hs1 = 63" by (cases hs rule: rev_cases) auto
  then obtain t where t: "fold_res prune_slash_guards hs1 si = Inr t" "prune_slash_guards h t = Inr si'"
    using assms(4) by (auto simp: fold_res_append and_then_eq_Inr)
  have g: "guarded fb (slash_guard_ring_seq si0) 63 t"
    using guarded_run [OF t(1) start] assms(5) hs by simp
  show "\<not> voter_window_slashed si' fb" "\<not> proposer_window_slashed si' fb"
    by (rule guarded_evict [OF t(2) g]; use assms(3,5) hs in auto)+
qed

section \<open>Slashing and the chain's invariant\<close>

lemma chain_inv_cong:
  "vset w' = vset w \<Longrightarrow> stk w' = stk w \<Longrightarrow> balances w' = balances w \<Longrightarrow> chain_inv c w' = chain_inv c w"
  by (simp add: chain_inv_def solvent_cong [of w' w])

lemma chain_inv_slash [simp]: "chain_inv c (w\<lparr>slash := si\<rparr>) = chain_inv c w" "chain_inv c (si_emit e w) = chain_inv c w"
  by (rule chain_inv_cong; simp)+

lemma jail_and_slash_inv:
  assumes "jail_and_slash env v w = Inr ((fc, x), w')" and "chain_inv c w"
  shows "chain_inv c w'"
proof -
  from assms(1) obtain vs where vs: "jail_validator (env_block_number env) v (vset w) = Inr vs"
    and sl: "slash_stake (env_block_number env) (env_timestamp env) v (slash_amount_percent (slash w))
       (w\<lparr>slash := (slash w)\<lparr>felony_count := (felony_count (slash w))(v := fc)\<rparr>, vset := vs\<rparr>) = Inr (x, w')"
    by (rule jail_and_slashE)
  let ?w = "w\<lparr>slash := (slash w)\<lparr>felony_count := (felony_count (slash w))(v := fc)\<rparr>\<rparr>"
  have "chain_step c ?w (?w\<lparr>vset := vs\<rparr>)"
    by (rule chain_step.vset_op, rule vset_step.jail) (use vs in simp)
  then have "chain_inv c (?w\<lparr>vset := vs\<rparr>)" by (rule chain_step_inv) (simp add: assms(2))
  from chain_step.slash [OF sl] this show ?thesis by (rule chain_step_inv)
qed

lemma miss_inv:
  "slash_voter env v w = Inr w' \<Longrightarrow> chain_inv c w \<Longrightarrow> chain_inv c w'"
  "slash_proposer env v w = Inr w' \<Longrightarrow> chain_inv c w \<Longrightarrow> chain_inv c w'"
  unfolding slash_voter_def slash_proposer_def Let_def
  by (auto simp: and_then_eq_Inr split: if_splits dest!: jail_and_slash_inv)

text \<open>The reward is the one mint: it must not wrap the submitter's balance.\<close>

lemma apply_evidence_felonyE:
  assumes "apply_evidence_felony env v submitter w = Inr w'"
  obtains fc x u y e where "jail_and_slash env v w = Inr ((fc, x), u)"
    "w' = si_emit e (u\<lparr>balances := (balances u)(submitter := balances u submitter + y)\<rparr>)"
proof -
  from assms obtain fc x u where u: "jail_and_slash env v w = Inr ((fc, x), u)"
    by (auto simp: apply_evidence_felony_def and_then_eq_Inr)
  let ?y = "if x = 0 then 0 else x * ucast (evidence_reward_percent (slash u)) div 100 :: u256"
  have "w' = si_emit (EvidenceFelonyApplied v submitter x ?y)
      (u\<lparr>balances := (balances u)(submitter := balances u submitter + ?y)\<rparr>)"
    using assms u
    by (simp add: apply_evidence_felony_def Let_def increase_balance_def fun_upd_idem split: if_splits)
  with u show thesis by (rule that)
qed

lemma evidence_felony_inv:
  assumes "apply_evidence_felony env v submitter w = Inr w'" and "chain_inv c w"
    and "submitter \<noteq> STAKING_ADDRESS"
  shows "chain_inv c w'"
proof -
  from assms(1) obtain fc x u y e where u: "jail_and_slash env v w = Inr ((fc, x), u)"
    and w': "w' = si_emit e (u\<lparr>balances := (balances u)(submitter := balances u submitter + y)\<rparr>)"
    by (rule apply_evidence_felonyE)
  have "chain_step c u (u\<lparr>balances := (balances u)(submitter := balances u submitter + y)\<rparr>)"
    by (rule chain_step.coins) (use assms(3) in simp)
  then show ?thesis using chain_step_inv jail_and_slash_inv [OF u assms(2)] w' by auto
qed

lemma convicts_inv: "convicts env caller w w' \<Longrightarrow> caller \<noteq> STAKING_ADDRESS \<Longrightarrow> chain_inv c w \<Longrightarrow> chain_inv c w'"
  by (auto simp: convicts_def dest: evidence_felony_inv [where c = c])

lemma window_inv:
  "slash_window_voters env fb vs w = Inr w' \<Longrightarrow> chain_inv c w \<Longrightarrow> chain_inv c w'"
  "slash_window_proposers env fb vs w = Inr w' \<Longrightarrow> chain_inv c w \<Longrightarrow> chain_inv c w'"
proof -
  have fl: "fold_res (slash_voter env) vs w = Inr u \<Longrightarrow> chain_inv c w \<Longrightarrow> chain_inv c u"
    "fold_res (slash_proposer env) vs w = Inr u \<Longrightarrow> chain_inv c w \<Longrightarrow> chain_inv c u" for u
    by (erule fold_res_invariant, assumption, erule miss_inv, assumption)+
  show "slash_window_voters env fb vs w = Inr w' \<Longrightarrow> chain_inv c w \<Longrightarrow> chain_inv c w'"
    by (auto simp: slash_window_voters_def and_then_eq_Inr split: if_splits dest!: fl(1))
  show "slash_window_proposers env fb vs w = Inr w' \<Longrightarrow> chain_inv c w \<Longrightarrow> chain_inv c w'"
    by (auto simp: slash_window_proposers_def and_then_eq_Inr split: if_splits dest!: fl(2))
qed

lemma slash_op_inv: "slash_op w w' \<Longrightarrow> chain_inv c w \<Longrightarrow> chain_inv c w'"
proof (induction rule: slash_op.induct)
  case (submission env caller val call w r w')
  then show ?case using call_convicts convicts_inv by fastforce
next
  case (byzantine env v w w')
  then show ?case by (auto simp: slash_byzantine_def and_then_eq_Inr dest!: jail_and_slash_inv)
next
  case (reset w vs)
  then show ?case by (simp add: reset_epoch_counters_def)
qed (auto dest: window_inv)

text \<open>
  C16. Slashing composes with the rest of the chain: in every state reached by interleaving
  evidence submissions, window slashes, prunes and counter resets with the entry points of the
  validator set and the staking contract, the registry stays consistent and the staking
  contract solvent.
\<close>

theorem slashing_keeps_chain_inv:
  assumes "(\<lambda>w w'. slash_op w w' \<or> chain_step c w w')\<^sup>*\<^sup>* w w'" and "chain_inv c w"
  shows "chain_inv c w'"
  using assms by (induction rule: rtranclp_induct) (auto intro: chain_step_inv slash_op_inv)

section \<open>Invalid parent proofs\<close>

text \<open>
  C39. Only a proposer who put a bad proof into a canonical block is convicted: acceptance
  means that parent and child are canonical, that the signer of the child's first transaction
  is the convicted validator and a member of the committee snapshot the parent's metadata
  names, that full verification of that proof fails for a reason of the randomness class, and
  that this transaction had not been used before.
\<close>

theorem invalid_vrf_evidence_sound:
  assumes "submit_invalid_vrf_evidence env caller bs w = Inr w'"
  shows "\<exists>ev proposer md s err code. decode_ive2 bs = Inr ev \<and>
    canonical_block_hash env (ive_child_block_number ev) = Some (ive_child_block_hash ev) \<and>
    canonical_block_hash env (ive_parent_block_number ev) = Some (ive_parent_block_hash ev) \<and>
    (\<exists>calldata. recover_phase1_proposer (env_tx_lib env) (ive_phase1_tx_bytes ev) (env_chain_id env)
       (ive_child_block_number ev) = Inr (proposer, calldata) \<and>
       decode_input calldata = Inr (CertifiedParentAccountingInput md)) \<and>
    finalized_block_hash md = ive_parent_block_hash ev \<and>
    read_committee_snapshot (committee_snapshot_key (env_crypto env) (finalized_epoch md)
       (metadata_committee_set_hash md)) (snapshots w) = Some s \<and>
    proposer \<in> entry_address ` set (committee s) \<and>
    verify_v2_proof (env_crypto env) (env_commonware env) (env_chain_id env) md s (proof_bytes md)
       (ive_parent_block_hash ev) = Inl err \<and> classify_vrf_failure err = Some code \<and>
    (let h = invalid_vrf_evidence_hash_v2 (env_crypto env) (ive_child_block_hash ev)
          (keccak256 (env_crypto env) (ive_phase1_tx_bytes ev))
     in \<not> invalid_vrf_evidence_processed (slash w) h \<and> invalid_vrf_evidence_processed (slash w') h) \<and>
    felony_count (slash w') = (felony_count (slash w))(proposer := felony_count (slash w) proposer + 1)"
proof -
  obtain ev where ev: "decode_ive2 bs = Inr ev" "check_canonical env ev = Inr ()"
    and rest: "(let h = invalid_vrf_evidence_hash_v2 (env_crypto env) (ive_child_block_hash ev)
               (keccak256 (env_crypto env) (ive_phase1_tx_bytes ev))
     in if invalid_vrf_evidence_processed (slash w) h then Inl (Revert ''evidence already processed'')
        else
        and_then (attribute_proposer env ev) (\<lambda>(proposer, md).
        and_then (vrf_failure env ev proposer md w) (\<lambda>code.
        and_then (apply_evidence_felony env proposer caller
          (w\<lparr>slash := (slash w)\<lparr>invalid_vrf_evidence_processed :=
             (invalid_vrf_evidence_processed (slash w))(h := True)\<rparr>\<rparr>)) (\<lambda>w.
          Inr (si_emit (InvalidVrfProofEvidenceApplied proposer caller (ive_child_block_hash ev) code) w))))) = Inr w'"
    using assms unfolding submit_invalid_vrf_evidence_def submit_invalid_vrf_evidence_with_schedule_def
    by (auto simp: and_then_eq_Inr simp del: Let_def split: if_split_asm)
  let ?h = "invalid_vrf_evidence_hash_v2 (env_crypto env) (ive_child_block_hash ev)
               (keccak256 (env_crypto env) (ive_phase1_tx_bytes ev))"
  from rest obtain proposer md code w1 where fresh: "\<not> invalid_vrf_evidence_processed (slash w) ?h"
    and att: "attribute_proposer env ev = Inr (proposer, md)" and vf: "vrf_failure env ev proposer md w = Inr code"
    and fel: "apply_evidence_felony env proposer caller
          (w\<lparr>slash := (slash w)\<lparr>invalid_vrf_evidence_processed :=
             (invalid_vrf_evidence_processed (slash w))(?h := True)\<rparr>\<rparr>) = Inr w1"
    and w': "w' = si_emit (InvalidVrfProofEvidenceApplied proposer caller (ive_child_block_hash ev) code) w1"
    by (auto simp: Let_def and_then_eq_Inr split: if_split_asm)
  have can: "canonical_block_hash env (ive_child_block_number ev) = Some (ive_child_block_hash ev)"
    "canonical_block_hash env (ive_parent_block_number ev) = Some (ive_parent_block_hash ev)"
    using ev(2) by (auto simp: check_canonical_def split: option.splits if_split_asm)
  obtain calldata where signer: "recover_phase1_proposer (env_tx_lib env) (ive_phase1_tx_bytes ev) (env_chain_id env)
       (ive_child_block_number ev) = Inr (proposer, calldata)" "decode_input calldata = Inr (CertifiedParentAccountingInput md)"
    "finalized_block_hash md = ive_parent_block_hash ev"
    using att by (auto simp: attribute_proposer_def split: sum.splits prod.splits system_tx_input.splits if_split_asm)
  obtain s err where vrf: "read_committee_snapshot (committee_snapshot_key (env_crypto env) (finalized_epoch md)
       (metadata_committee_set_hash md)) (snapshots w) = Some s" "proposer \<in> entry_address ` set (committee s)"
    "verify_v2_proof (env_crypto env) (env_commonware env) (env_chain_id env) md s (proof_bytes md)
       (ive_parent_block_hash ev) = Inl err" "classify_vrf_failure err = Some code"
    using vf by (auto simp: vrf_failure_def list_ex_iff split: option.splits sum.splits if_split_asm)
  have "invalid_vrf_evidence_processed (slash w') ?h"
    using apply_evidence_felony_slash(2) [OF fel] w' by (auto simp: si_emit_def)
  moreover have "felony_count (slash w') = (felony_count (slash w))(proposer := felony_count (slash w) proposer + 1)"
    using fel w' by (auto simp: si_emit_def elim!: apply_evidence_felonyE jail_and_slashE)
  ultimately show ?thesis using ev(1) can signer vrf fresh unfolding Let_def by blast
qed

section \<open>Witnesses\<close>

definition empty_indicator :: slash_indicator where
  "empty_indicator = \<lparr>config_proposer_misdemeanor_threshold = 0, config_proposer_felony_threshold = 0,
     config_voter_misdemeanor_threshold = 0, config_slash_amount_percent = 0, config_evidence_reward_percent = 0,
     proposer_miss_count = (\<lambda>_. 0), voter_miss_count = (\<lambda>_. 0), felony_count = (\<lambda>_. 0),
     evidence_processed = (\<lambda>_. False), voter_window_slashed = (\<lambda>_. False), proposer_window_slashed = (\<lambda>_. False),
     invalid_vrf_evidence_processed = (\<lambda>_. False), config_voter_felony_threshold = 0,
     seed_partial_equivocation_processed = (\<lambda>_. False), invalid_seed_partial_processed = (\<lambda>_. False),
     slash_guard_ring = (\<lambda>_. B256_ZERO), slash_guard_ring_seq = 0, si_events = []\<rparr>"

definition demo_indicator :: slash_indicator where
  "demo_indicator = empty_indicator\<lparr>voter_miss_count := (\<lambda>_. 499)\<rparr>"

text \<open>Validator 5 is active and one missed vote short of a felony; every epoch has the same committee.\<close>

definition slash_demo :: slash_world where
  "slash_demo = \<lparr>balances = balances demo_world,
     vset = one_validator\<lparr>val_status := (val_status one_validator)(5 := ACTIVE)\<rparr>, stk = demo_staking,
     slash = demo_indicator,
     snapshots = empty_store\<lparr>committee_snapshot_exists := (\<lambda>_. True), committee_snapshot_len := (\<lambda>_. 1),
       committee_snapshot_address_at := (\<lambda>_ _. 5), committee_snapshot_vrf_material_version := (\<lambda>_. 1),
       committee_snapshot_key_ring := (\<lambda>_. replicate 32 1)\<rparr>\<rparr>"

definition slash_env :: exec_env where
  "slash_env = \<lparr>env_block_number = 9, env_timestamp = 1000, env_chain_id = 9,
     canonical_block_hash = (\<lambda>n. Some (replicate 32 (if n = 8 then 8 else 9))), env_crypto = test_crypto,
     env_commonware = test_commonware,
     env_tx_lib = vrf_lib,
     blst_verify = (\<lambda>_ _ _. True)\<rparr>"

lemma slash_demo_fields [simp]:
  "balances slash_demo = (\<lambda>_. 0)(STAKING_ADDRESS := 100)" "stk slash_demo = demo_staking"
  "val_status (vset slash_demo) 5 = ACTIVE" "slash slash_demo = demo_indicator"
  by (simp_all add: slash_demo_def)

lemma demo_indicator_fields [simp]:
  "slash_amount_percent demo_indicator = 5" "evidence_reward_percent demo_indicator = 10"
  "voter_felony_threshold demo_indicator = 500" "voter_miss_count demo_indicator = (\<lambda>_. 499)"
  "felony_count demo_indicator = (\<lambda>_. 0)" "evidence_processed demo_indicator = (\<lambda>_. False)"
  "invalid_vrf_evidence_processed demo_indicator = (\<lambda>_. False)"
  by (simp_all add: demo_indicator_def empty_indicator_def slash_amount_percent_def evidence_reward_percent_def
      voter_felony_threshold_def DEFAULT_SLASH_AMOUNT_PERCENT_def DEFAULT_EVIDENCE_REWARD_PERCENT_def
      DEFAULT_VOTER_FELONY_THRESHOLD_def)

lemma slash_demo_inv: "chain_inv test_crypto slash_demo"
proof -
  have "solvent slash_demo" using demo_queue by (intro solventI) (simp_all add: demo_sums)
  moreover have "same_registry one_validator (vset slash_demo)" by (simp add: slash_demo_def same_registry_def)
  ultimately show ?thesis
    using one_validator_inv by (simp add: chain_inv_def same_registry_inv same_registry_key_inv)
qed

lemma slash_demo_can:
  "can_be_slashed slash_env 5 slash_demo" "slash_amount_percent si = 5 \<Longrightarrow> can_be_slashed slash_env 5 (slash_demo\<lparr>slash := si\<rparr>)"
proof -
  have "address_to_index (vset slash_demo) 5 \<noteq> 0"
    using one_validator_inv(3) by (auto simp: slash_demo_def registered_def)
  then show can: "can_be_slashed slash_env 5 slash_demo"
    using slash_demo_inv by (simp add: can_be_slashed_def demo_delay slash_env_def chain_inv_def)
  show "can_be_slashed slash_env 5 (slash_demo\<lparr>slash := si\<rparr>)" if "slash_amount_percent si = 5"
    using can can_be_slashed_cong [of "slash_demo\<lparr>slash := si\<rparr>" slash_demo slash_env 5] that by simp
qed

lemma apply_evidence_felony_runs: "can_be_slashed env v w \<Longrightarrow> \<exists>w'. apply_evidence_felony env v submitter w = Inr w'"
  by (erule jail_and_slash_result) (simp add: apply_evidence_felony_def Let_def increase_balance_def)

theorem miss_correct_witness:
  "\<exists>w'. slash_voter slash_env 5 slash_demo = Inr w' \<and> solvent w' \<and> val_status (vset w') 5 = JAILED \<and>
     felony_count (slash w') 5 = 1"
proof -
  obtain w' where "slash_voter slash_env 5 slash_demo = Inr w'" "solvent w'"
    "miss_effect (voter_miss_count (slash slash_demo) 5 + 1) (voter_felony_threshold (slash slash_demo)) 5 slash_demo w'"
    using miss_correct [OF slash_demo_can(1)] by blast
  then show ?thesis by (auto simp: miss_effect_def felony_effect_def)
qed

lemma demo_coins: "(\<Sum>a\<in>UNIV. unat (balances slash_demo a)) = 100"
  using sum_unat_fun_upd [of "\<lambda>_. 0 :: u256" STAKING_ADDRESS 100] by simp

theorem evidence_felony_correct_witness:
  "\<exists>w' x. apply_evidence_felony slash_env 5 6 slash_demo = Inr w' \<and> solvent w' \<and>
     (\<Sum>a\<in>UNIV. unat (balances w' a)) + unat (x :: u256) = 100 + unat x * 10 div 100"
proof -
  have q: "evidence_reward_percent (slash slash_demo) \<le> 100"
    and b: "(\<Sum>a\<in>UNIV. unat (balances slash_demo a)) * 100 < 2 ^ 256" by (simp, simp only: demo_coins, simp)
  have pct: "unat (evidence_reward_percent (slash slash_demo)) = 10" by simp
  obtain w' and x :: u256 where "apply_evidence_felony slash_env 5 6 slash_demo = Inr w'" "solvent w'"
    "(\<Sum>a\<in>UNIV. unat (balances w' a)) + unat x =
       (\<Sum>a\<in>UNIV. unat (balances slash_demo a)) + unat x * unat (evidence_reward_percent (slash slash_demo)) div 100"
    using evidence_felony_correct [OF slash_demo_can(1) q b, of 6] by blast
  then show ?thesis unfolding demo_coins pct by blast
qed

definition demo_vote :: "u8 \<Rightarrow> bytes" where
  "demo_vote b = replicate 48 1 @ replicate 96 0 @ [1, 2, b]"

lemma demo_vote_parse: "parse_evidence (demo_vote b) =
    Inr \<lparr>ev_pubkey = replicate 48 1, ev_signature = replicate 96 0, ev_proposal_bytes = [1, 2, b]\<rparr>"
  by (simp add: parse_evidence_def demo_vote_def)

lemma demo_committee: "\<exists>com. committee_set_for_epoch slash_env e slash_demo = Inr com"
  by (simp add: committee_set_for_epoch_def slash_env_def slash_demo_def read_committee_snapshot_for_epoch_def
      read_committee_snapshot_def test_commonware_def list_all_iff B256_ZERO_def Let_def)

lemma demo_signed: "verify_bls_signature test_crypto (blst_verify slash_env) ns ev = Inr ()"
  by (simp add: verify_bls_signature_def test_crypto_def slash_env_def)

lemma demo_lookup: "lookup_by_pubkey_hash (vset slash_demo) (replicate 48 1) = 5"
  by (simp add: slash_demo_def lookup_by_pubkey_hash_def one_validator_def register_new_def Let_def emit_def test_crypto_def consensus_pubkey_hash_def)

lemma demo_percent: "slash_amount_percent (demo_indicator\<lparr>evidence_processed := f\<rparr>) = 5"
  "slash_amount_percent (demo_indicator\<lparr>invalid_vrf_evidence_processed := f\<rparr>) = 5"
  by (simp_all add: slash_amount_percent_def demo_indicator_def empty_indicator_def DEFAULT_SLASH_AMOUNT_PERCENT_def)

lemma demo_double_proposal:
  "\<exists>w1. submit_double_proposal_evidence slash_env 5 (demo_vote 3) (demo_vote 4) slash_demo = Inr w1"
proof -
  have r: "evidence_round \<lparr>ev_pubkey = pk, ev_signature = sg, ev_proposal_bytes = [1, 2, b]\<rparr> = Inr (1, 2)" for pk sg b
    by (simp add: evidence_round_def read_leb128_def)
  have c: "env_crypto slash_env = test_crypto" "keccak256 test_crypto bs = bs" for bs
    by (simp_all add: slash_env_def test_crypto_def)
  obtain com where com: "committee_set_for_epoch slash_env 1 slash_demo = Inr com" using demo_committee by blast
  have "\<exists>w1. convict slash_env 5 h (replicate 48 1) slash_demo = Inr w1" for h
    using apply_evidence_felony_runs [OF slash_demo_can(2)]
    by (simp add: convict_def demo_lookup c demo_percent)
  then show ?thesis
    by (simp add: submit_double_proposal_evidence_def require_active_submitter_def demo_vote_parse r Let_def com c(1)
        verify_notarize_signature_def demo_signed)
qed

theorem vote_evidence_once_witness:
  "\<exists>w1. submit_double_proposal_evidence slash_env 5 (demo_vote 3) (demo_vote 4) slash_demo = Inr w1 \<and>
     \<not> is_ok (submit_conflicting_notarize_evidence slash_env 5 (demo_vote 4) (demo_vote 3) w1)"
proof -
  obtain w1 where w1: "submit_double_proposal_evidence slash_env 5 (demo_vote 3) (demo_vote 4) slash_demo = Inr w1"
    using demo_double_proposal by blast
  have "submit_double_proposal_evidence slash_env \<in> vote_entries slash_env"
    "submit_conflicting_notarize_evidence slash_env \<in> vote_entries slash_env" by (simp_all add: vote_entries_def)
  from vote_evidence_once [of "submit_double_proposal_evidence slash_env" slash_env, OF this(1) w1
      rtranclp.rtrancl_refl this(2) refl] w1
  show ?thesis by blast
qed

theorem slashing_keeps_chain_inv_witness:
  "\<exists>w1. submit_double_proposal_evidence slash_env 5 (demo_vote 3) (demo_vote 4) slash_demo = Inr w1 \<and>
     chain_inv test_crypto w1"
proof -
  obtain w1 where w1: "submit_double_proposal_evidence slash_env 5 (demo_vote 3) (demo_vote 4) slash_demo = Inr w1"
    using demo_double_proposal by blast
  then have "dispatch_slash slash_env 5 0 (SubmitDoubleProposalEvidence (demo_vote 3) (demo_vote 4)) slash_demo = Inr (None, w1)"
    by (simp add: dispatch_slash_def reject_value_def mutate_void_def)
  then have "slash_op slash_demo w1" by (rule slash_op.submission) (simp add: STAKING_ADDRESS_def)
  then have "(\<lambda>w w'. slash_op w w' \<or> chain_step test_crypto w w')\<^sup>*\<^sup>* slash_demo w1" by (intro r_into_rtranclp) simp
  from slashing_keeps_chain_inv [OF this slash_demo_inv] w1 show ?thesis by blast
qed

theorem guard_retention_witness:
  "\<exists>si si'. prune_slash_guards (replicate 32 1) (empty_indicator\<lparr>voter_window_slashed := (\<lambda>_. True)\<rparr>) = Inr si \<and>
     fold_res prune_slash_guards [replicate 32 2, replicate 32 3] si = Inr si' \<and> voter_window_slashed si' (replicate 32 1)"
proof -
  let ?si = "empty_indicator\<lparr>voter_window_slashed := (\<lambda>_. True)\<rparr>"
  have ne: "replicate 32 1 \<noteq> B256_ZERO" by (simp add: B256_ZERO_def)
  have ring: "\<forall>i. slash_guard_ring ?si i \<noteq> replicate 32 1" using ne by (simp add: empty_indicator_def)
  obtain si where si: "prune_slash_guards (replicate 32 1) ?si = Inr si"
    by (simp add: prune_slash_guards_def Let_def checked_add_def empty_indicator_def)
  have seq: "slash_guard_ring_seq si = 1" "voter_window_slashed si (replicate 32 1)"
    using si by (auto simp: prune_slash_guards_def Let_def checked_add_def empty_indicator_def)
  obtain si' where si': "fold_res prune_slash_guards [replicate 32 2, replicate 32 3] si = Inr si'"
    using seq(1) by (simp add: prune_slash_guards_def Let_def checked_add_def)
  from guard_retention [OF si ring ne si'] si si' seq(2) show ?thesis by simp
qed

definition vrf_env :: exec_env where
  "vrf_env = slash_env\<lparr>env_crypto := test_crypto\<lparr>keccak256 := (\<lambda>_. replicate 32 1)\<rparr>\<rparr>"

definition vrf_evidence :: invalid_vrf_evidence where
  "vrf_evidence = \<lparr>ive_child_block_number = 8, ive_child_block_hash = replicate 32 8, ive_child_epoch = 1,
     ive_parent_block_number = 7, ive_parent_block_hash = replicate 32 9, ive_failure_code = 3, ive_phase1_tx_bytes = [1]\<rparr>"

lemma vrf_recovers: "recover_phase1_proposer (env_tx_lib vrf_env) bs 9 8 = Inr (5, vrf_calldata)"
proof -
  have "validate_phase1_envelope_shape vrf_lib vrf_tx vrf_calldata 9 8 = Inr (replicate 32 1)"
    by (subst envelope_shape_Inr) (simp add: vrf_builds tx_fields vrf_tx_def vrf_lib_def vrf_unsigned_def)
  moreover have "tx_input vrf_tx = vrf_calldata" by (simp add: tx_input_def vrf_tx_def vrf_unsigned_def)
  moreover have "env_tx_lib vrf_env = vrf_lib" by (simp add: vrf_env_def slash_env_def)
  moreover have "decode_2718 vrf_lib bs = Inr (vrf_tx, [])" "recover_tx vrf_lib vrf_tx = Inr 5"
    by (simp_all add: vrf_lib_def recover_tx_def)
  ultimately show ?thesis by (simp add: recover_phase1_proposer_def)
qed

lemma vrf_accepted: "\<exists>w'. submit_invalid_vrf_evidence vrf_env 5 (encode_ive2 vrf_evidence) slash_demo = Inr w'"
proof -
  have dec: "decode_ive2 (encode_ive2 vrf_evidence) = Inr vrf_evidence"
    by (rule decode_encode_ive2) (simp add: wf_ive2_def vrf_evidence_def)
  have len: "length (encode_ive2 vrf_evidence) \<le> 256 * 1024"
    by (simp add: encode_ive2_def vrf_evidence_def IVE2_MAGIC_def ascii_def)
  have can: "check_canonical vrf_env vrf_evidence = Inr ()"
    by (simp add: check_canonical_def vrf_env_def slash_env_def vrf_evidence_def saturating_add_def)
  have att: "attribute_proposer vrf_env vrf_evidence = Inr (5, vrf_metadata)"
    using vrf_recovers [of "[1]"]
    by (simp add: attribute_proposer_def vrf_decodes) (simp add: vrf_env_def slash_env_def vrf_evidence_def vrf_decodes vrf_metadata_def)
  have lag: "check_epoch_lag default_schedule 1 slash_demo = Inr ()"
    by (simp add: check_epoch_lag_def current_epoch_def slash_demo_def one_validator_def register_new_def Let_def
        emit_def write_consensus_pubkey_def empty_validator_set_def)
  have vf: "vrf_failure vrf_env vrf_evidence 5 vrf_metadata slash_demo = Inr 3"
    by (simp add: vrf_failure_def read_committee_snapshot_def slash_demo_def range_u64_def read_entry_def vrf_metadata_def
        verify_v2_proof_def check_binding_def vrf_evidence_def)
  have "can_be_slashed vrf_env 5 (slash_demo\<lparr>slash := demo_indicator\<lparr>invalid_vrf_evidence_processed := f\<rparr>\<rparr>)" for f
    using slash_demo_can(2) [OF demo_percent(2), of f] by (simp add: can_be_slashed_def vrf_env_def slash_env_def demo_delay)
  from apply_evidence_felony_runs [OF this, where submitter = 5] have run: "\<exists>w'. and_then (apply_evidence_felony vrf_env 5 5
      (slash_demo\<lparr>slash := demo_indicator\<lparr>invalid_vrf_evidence_processed := f\<rparr>\<rparr>)) (\<lambda>w. Inr (si_emit e w)) = Inr w'" for f e
    by (auto simp: and_then_eq_Inr)
  have "require_active_submitter slash_demo 5 = Inr ()" by (simp add: require_active_submitter_def)
  moreover have "\<not> saturating_add (ive_child_block_number vrf_evidence) (invalid_vrf_evidence_max_age_blocks default_schedule)
      < env_block_number vrf_env" "ive_child_epoch vrf_evidence = 1"
    "\<not> invalid_vrf_evidence_max_bytes default_schedule < length (encode_ive2 vrf_evidence)"
    using len by (simp_all add: vrf_evidence_def vrf_env_def slash_env_def default_schedule_def saturating_add_def)
  ultimately show ?thesis using run
    by (simp add: submit_invalid_vrf_evidence_def submit_invalid_vrf_evidence_with_schedule_def dec can lag att vf run Let_def)
qed

theorem invalid_vrf_evidence_sound_witness:
  "\<exists>w' proposer. submit_invalid_vrf_evidence vrf_env 5 (encode_ive2 vrf_evidence) slash_demo = Inr w' \<and>
     felony_count (slash w') = (felony_count (slash slash_demo))(proposer := felony_count (slash slash_demo) proposer + 1)"
proof -
  obtain w' where w': "submit_invalid_vrf_evidence vrf_env 5 (encode_ive2 vrf_evidence) slash_demo = Inr w'"
    using vrf_accepted by blast
  from invalid_vrf_evidence_sound [OF this] w' show ?thesis by blast
qed

end
