(* ===== verification/Utc_Time.thy ===== *)
theory Utc_Time
  imports Prelude "HOL-Library.Signed_Division"
begin

text \<open>
  UTC date keys (\<^verbatim>\<open>crates/blockchain/primitives/src/time.rs\<close>): conversion between Unix
  timestamps and \<^verbatim>\<open>yyyymmdd\<close> keys by integer arithmetic. The signed 64-bit intermediate values
  stay far from their limits, so they are integers here; the casts to \<open>u32\<close> and \<open>u64\<close> wrap.
\<close>

section \<open>Definitions\<close>

definition SECONDS_PER_DAY :: u64 where "SECONDS_PER_DAY = 86400"
definition UTC_PLUS_14_OFFSET :: u64 where "UTC_PLUS_14_OFFSET = 50400"

datatype time_error = PreGenesis u32 u32

text \<open>Day of era to year of era.\<close>

definition year_of_era :: "int \<Rightarrow> int" where
  "year_of_era doe = (doe - doe div 1460 + doe div 36524 - doe div 146096) div 365"

definition civil_date_from_days :: "int \<Rightarrow> u32" where
  "civil_date_from_days days =
     (let z = days + 719468;
          era = (if 0 \<le> z then z else z - 146096) sdiv 146097;
          doe = z - era * 146097;
          yoe = year_of_era doe;
          y = yoe + era * 400;
          doy = doe - (365 * yoe + yoe div 4 - yoe div 100);
          mp = (5 * doy + 2) div 153;
          d = doy - (153 * mp + 2) div 5 + 1;
          m = (if mp < 10 then mp + 3 else mp - 9);
          y = (if m \<le> 2 then y + 1 else y)
      in word_of_int y * 10000 + word_of_int m * 100 + word_of_int d)"

definition days_from_civil :: "int \<Rightarrow> int \<Rightarrow> int \<Rightarrow> int" where
  "days_from_civil year month day =
     (let year = year - (if month \<le> 2 then 1 else 0);
          era = (if 0 \<le> year then year else year - 399) sdiv 400;
          yoe = year - era * 400;
          mp = month + (if month > 2 then -3 else 9);
          doy = (153 * mp + 2) div 5 + day - 1;
          doe = yoe * 365 + yoe div 4 - yoe div 100 + doy
      in era * 146097 + doe - 719468)"

definition timestamp_to_date_key :: "u64 \<Rightarrow> u32" where
  "timestamp_to_date_key ts = civil_date_from_days (uint (ts div SECONDS_PER_DAY))"

definition worldwide_day_from_timestamp :: "u64 \<Rightarrow> u32" where
  "worldwide_day_from_timestamp ts = timestamp_to_date_key (ts + UTC_PLUS_14_OFFSET)"

definition date_key_to_utc_timestamp :: "u32 \<Rightarrow> u64" where
  "date_key_to_utc_timestamp key =
     (let year = uint (key div 10000); month = uint (key div 100 mod 100); day = uint (key mod 100)
      in word_of_int (days_from_civil year month day) * SECONDS_PER_DAY)"

definition previous_date_key :: "u32 \<Rightarrow> u32" where
  "previous_date_key key =
     timestamp_to_date_key (saturating_sub (date_key_to_utc_timestamp key) SECONDS_PER_DAY)"

definition next_date_key :: "u32 \<Rightarrow> u32" where
  "next_date_key key =
     timestamp_to_date_key (saturating_add (date_key_to_utc_timestamp key) SECONDS_PER_DAY)"

definition day_number_between :: "u32 \<Rightarrow> u32 \<Rightarrow> time_error + u32" where
  "day_number_between genesis_utc_day utc_day =
     (case checked_sub (date_key_to_utc_timestamp utc_day) (date_key_to_utc_timestamp genesis_utc_day) of
        None \<Rightarrow> Inl (PreGenesis utc_day genesis_utc_day)
      | Some delta \<Rightarrow>
          Inr (let n = delta div SECONDS_PER_DAY in if unat n < 2 ^ 32 then ucast n else - 1))"

text \<open>
  The dated range: 150 million days (about the year 410000) is where the \<^verbatim>\<open>yyyymmdd\<close> key of a day
  still fits its 32 bits.
\<close>

definition MAX_DATED :: nat where "MAX_DATED = 150000000 * 86400"

section \<open>The calendar\<close>

definition era_day :: "int \<Rightarrow> int" where
  "era_day y = 365 * y + y div 4 - y div 100"

text \<open>First day of year \<open>y\<close> of an era, counted from 1 March; year 400 starts the next era.\<close>

lemma year_bounds_table:
  "list_all (\<lambda>y. year_of_era (era_day y) = y \<and>
     year_of_era (if y = 399 then 146096 else era_day (y + 1) - 1) = y) (map int [0..<400])"
  by code_simp

lemma sub_div_mono:
  assumes "0 < k" "x \<le> y" shows "x - x div k \<le> y - y div (k :: int)"
proof -
  have "y - x \<le> (y - x) * k" using assms mult_left_mono [of 1 k "y - x"] by simp
  then have "y div k \<le> (x + (y - x) * k) div k" using assms by (intro zdiv_mono1) simp_all
  also have "\<dots> = x div k + (y - x)" using assms by simp
  finally show ?thesis by simp
qed

lemma year_of_era_mono: assumes "0 \<le> x" "x \<le> y" shows "year_of_era x \<le> year_of_era y"
proof -
  have d: "n div 146096 = n div 36524 div 4" for n :: int by (simp add: zdiv_zmult2_eq [symmetric])
  have "x - x div 1460 \<le> y - y div 1460" using assms by (intro sub_div_mono) auto
  moreover have "x div 36524 - x div 36524 div 4 \<le> y div 36524 - y div 36524 div 4"
    using assms by (intro sub_div_mono zdiv_mono1) auto
  ultimately show ?thesis unfolding year_of_era_def d by (intro zdiv_mono1) auto
qed

lemma era_day_cover: "0 \<le> doe \<Longrightarrow> doe < era_day (int n) \<Longrightarrow> \<exists>y<n. era_day (int y) \<le> doe \<and> doe < era_day (int y + 1)"
proof (induction n)
  case (Suc n)
  then show ?case
    by (cases "doe < era_day (int n)") (auto simp: less_Suc_eq add.commute)
qed (simp add: era_day_def)

lemma year_of_era_correct:
  assumes "0 \<le> doe" "doe \<le> 146096"
  shows "0 \<le> year_of_era doe \<and> year_of_era doe < 400 \<and> era_day (year_of_era doe) \<le> doe \<and>
    doe - era_day (year_of_era doe) \<le> 365"
proof -
  have last: "era_day 400 = 146096" "era_day 399 = 145731" by (simp_all add: era_day_def)
  obtain y where y: "y < 400" "era_day (int y) \<le> doe" "doe \<le> (if y = 399 then 146096 else era_day (int y + 1) - 1)"
  proof (cases "doe = 146096")
    case False
    with assms last(1) have "doe < era_day (int 400)" by simp
    then obtain y where "y < 400" "era_day (int y) \<le> doe" "doe < era_day (int y + 1)"
      using era_day_cover assms(1) by blast
    with that [of y] last show ?thesis by (cases "y = 399") auto
  qed (use that [of 399] last in auto)
  let ?e = "if y = 399 then 146096 else era_day (int y + 1) - 1"
  have tab: "year_of_era (era_day (int y)) = int y" "year_of_era ?e = int y"
    using year_bounds_table y(1) by (auto simp: list_all_iff)
  have "0 \<le> era_day (int y)" by (simp add: era_day_def)
  then have eq: "year_of_era doe = int y"
    using year_of_era_mono [of "era_day (int y)" doe] year_of_era_mono [of doe ?e] y assms(1) tab by (intro antisym) auto
  have "era_day (int y + 1) - era_day (int y) \<le> 366"
    unfolding era_day_def by (simp add: algebra_simps)
  then show ?thesis using eq y last by (auto split: if_splits)
qed

lemma sdiv_nonneg: "0 \<le> a \<Longrightarrow> 0 < b \<Longrightarrow> (a :: int) sdiv b = a div b"
  by (cases "a = 0") (simp_all add: signed_divide_int_def)

lemma div_bounds: "0 < k \<Longrightarrow> k * (a div k) \<le> a \<and> a < k * (a div k) + (k :: int)"
  using mult_div_mod_eq [of k a] pos_mod_bound [of k a] pos_mod_sign [of k a] by linarith

lemma month_bounds:
  assumes "0 \<le> doy" "doy \<le> 365" "mp = (5 * doy + 2) div 153"
  shows "0 \<le> mp" "mp \<le> 11" "1 \<le> doy - (153 * mp + 2) div 5 + 1" "doy - (153 * mp + 2) div 5 + 1 \<le> (31 :: int)"
proof -
  have m: "153 * mp \<le> 5 * doy + 2" "5 * doy + 2 < 153 * mp + 153"
    using div_bounds [of 153 "5 * doy + 2"] assms(3) by simp_all
  have q: "5 * ((153 * mp + 2) div 5) \<le> 153 * mp + 2" "153 * mp + 2 < 5 * ((153 * mp + 2) div 5) + 5"
    using div_bounds [of 5 "153 * mp + 2"] by simp_all
  show "0 \<le> mp" "mp \<le> 11" "1 \<le> doy - (153 * mp + 2) div 5 + 1" "doy - (153 * mp + 2) div 5 + 1 \<le> 31"
    using m q assms(1,2) by linarith+
qed

lemma civil_date_correct:
  assumes "0 \<le> days" "days < 150000000"
  obtains y m d where "civil_date_from_days days = word_of_int (y * 10000 + m * 100 + d)"
    "0 \<le> y" "y < 420000" "1 \<le> m" "m \<le> 12" "1 \<le> d" "d \<le> 31" "days_from_civil y m d = days"
proof -
  define z where "z = days + 719468"
  define era where "era = z div 146097"
  define doe where "doe = z - era * 146097"
  define yoe where "yoe = year_of_era doe"
  define doy where "doy = doe - era_day yoe"
  define mp where "mp = (5 * doy + 2) div 153"
  define d where "d = doy - (153 * mp + 2) div 5 + 1"
  define m where "m = (if mp < 10 then mp + 3 else mp - 9)"
  define y where "y = (if m \<le> 2 then yoe + era * 400 + 1 else yoe + era * 400)"
  have z: "0 \<le> z" "z < 151000000" using assms by (simp_all add: z_def)
  have era: "0 \<le> era" "era \<le> 1033" using z div_bounds [of 146097 z] unfolding era_def by linarith+
  have doe: "doe = z mod 146097" by (simp add: doe_def era_def minus_mult_div_eq_mod [symmetric] mult.commute)
  then have "0 \<le> doe" "doe \<le> 146096" by simp_all
  note yoe = year_of_era_correct [OF this, folded yoe_def]
  have doy: "0 \<le> doy" "doy \<le> 365" using yoe by (simp_all add: doy_def)
  note mp = month_bounds [OF doy mp_def, folded d_def]
  have m: "1 \<le> m" "m \<le> 12" "m \<le> 2 \<longleftrightarrow> 10 \<le> mp" using mp by (auto simp: m_def)
  have "(if 0 \<le> z then z else z - 146096) sdiv 146097 = era" using z(1) by (simp add: sdiv_nonneg era_def)
  then have civil: "civil_date_from_days days = word_of_int y * 10000 + word_of_int m * 100 + word_of_int d"
    unfolding civil_date_from_days_def Let_def z_def [symmetric]
    by (simp only: doe_def [symmetric] yoe_def [symmetric] era_day_def [symmetric] doy_def [symmetric] mp_def [symmetric]
        d_def [symmetric] m_def [symmetric] y_def [symmetric])
  have "days_from_civil y m d = days"
  proof -
    have year: "y - (if m \<le> 2 then 1 else 0) = yoe + era * 400" by (simp add: y_def)
    have e: "(yoe + era * 400) div 400 = era" "0 \<le> yoe + era * 400" using yoe era by simp_all
    have mon: "m + (if 2 < m then -3 else 9) = mp" using mp by (auto simp: m_def)
    have "days_from_civil y m d = era * 146097 + (yoe * 365 + yoe div 4 - yoe div 100 + ((153 * mp + 2) div 5 + d - 1)) - 719468"
      using e unfolding days_from_civil_def Let_def year mon by (simp add: sdiv_nonneg)
    also have "\<dots> = era * 146097 + doe - 719468" by (simp add: d_def doy_def era_day_def)
    finally show ?thesis by (simp add: doe_def z_def)
  qed
  moreover have "0 \<le> y" "y < 420000" using yoe era by (simp_all add: y_def)
  ultimately show thesis using that [of y m d] civil m mp by simp
qed

lemma low_digits: "0 \<le> b \<Longrightarrow> b < k \<Longrightarrow> (a * k + b) div k = a" "0 \<le> b \<Longrightarrow> b < k \<Longrightarrow> (a * k + b) mod k = (b :: int)"
  by simp_all

lemma key_fields:
  assumes "0 \<le> y" "y < 420000" "1 \<le> m" "m \<le> 12" "1 \<le> d" "d \<le> 31" and u: "uint (key :: u32) = y * 10000 + m * 100 + d"
  shows "uint (key div 10000) = y" "uint (key div 100 mod 100) = m" "uint (key mod 100) = d"
proof -
  have u1: "uint key = y * 10000 + (m * 100 + d)" and u2: "uint key = (y * 100 + m) * 100 + d" using u by simp_all
  have "(y * 10000 + (m * 100 + d)) div 10000 = y" using assms(3-6) by (intro low_digits(1)) linarith+
  then show "uint (key div 10000) = y" unfolding uint_div using u1 by simp
  have a: "uint key div 100 = y * 100 + m" unfolding u2 using assms(5,6) by (intro low_digits(1)) linarith+
  have "(y * 100 + m) mod 100 = m" using assms(3,4) by (intro low_digits(2)) linarith+
  then show "uint (key div 100 mod 100) = m" unfolding uint_mod uint_div using a by simp
  have "uint key mod 100 = d" unfolding u2 using assms(5,6) by (intro low_digits(2)) linarith+
  then show "uint (key mod 100) = d" unfolding uint_mod by simp
qed

lemma uint_date_key:
  assumes "0 \<le> y" "y < 420000" "1 \<le> m" "m \<le> 12" "1 \<le> d" "d \<le> 31"
  shows "uint (word_of_int (y * 10000 + m * 100 + d) :: u32) = y * 10000 + m * 100 + d"
proof -
  have "0 \<le> y * 10000 + m * 100 + d" "y * 10000 + m * 100 + d < 4294967296" using assms by linarith+
  then show ?thesis by (simp only: uint_word_of_int) (rule mod_pos_pos_trivial, simp_all)
qed

lemma midnight_of_key:
  assumes "0 \<le> days" "days < 150000000"
  shows "date_key_to_utc_timestamp (civil_date_from_days days) = word_of_int (days * 86400)"
proof -
  from assms obtain y m d where c: "civil_date_from_days days = word_of_int (y * 10000 + m * 100 + d)"
    "0 \<le> y" "y < 420000" "1 \<le> m" "m \<le> 12" "1 \<le> d" "d \<le> 31" "days_from_civil y m d = days"
    by (rule civil_date_correct)
  show ?thesis
    unfolding date_key_to_utc_timestamp_def Let_def c(1) key_fields [OF c(2-7) uint_date_key [OF c(2-7)]] c(8)
    by (simp add: SECONDS_PER_DAY_def)
qed

lemma unat_secs: "unat SECONDS_PER_DAY = 86400"
  by (simp add: SECONDS_PER_DAY_def)

lemma uint_day: "uint (ts div SECONDS_PER_DAY) = int (unat ts div 86400)"
  unfolding unat_secs [symmetric] unat_div [symmetric] by simp

lemma of_int_day: "(word_of_int (int n * 86400) :: u64) = word_of_nat (n * 86400)"
  by simp

lemma midnight_nat:
  assumes "unat ts < MAX_DATED"
  shows "unat (date_key_to_utc_timestamp (timestamp_to_date_key ts)) = unat ts div 86400 * 86400"
proof -
  have q: "unat ts div 86400 < 150000000" using assms by (simp only: MAX_DATED_def div_less_iff_less_mult zero_less_numeral)
  then have eq: "date_key_to_utc_timestamp (timestamp_to_date_key ts) = word_of_nat (unat ts div 86400 * 86400)"
    unfolding timestamp_to_date_key_def uint_day of_int_day [symmetric] by (intro midnight_of_key) simp_all
  have le: "unat ts div 86400 * 86400 \<le> unat ts" by (rule div_times_less_eq_dividend)
  then have "unat ts div 86400 * 86400 < 2 ^ LENGTH(64)" using unat_lt_2p [of ts] by (rule le_less_trans)
  then show ?thesis unfolding eq unat_of_nat by (rule mod_less)
qed

lemma midnight:
  assumes "unat ts < MAX_DATED"
  shows "date_key_to_utc_timestamp (timestamp_to_date_key ts) = ts - ts mod SECONDS_PER_DAY"
proof -
  have "unat (ts - ts mod SECONDS_PER_DAY) = unat ts - unat ts mod 86400"
    by (subst unat_sub_exact) (simp_all add: unat_secs unat_mod word_le_nat_alt)
  then show ?thesis
    using midnight_nat [OF assms] by (simp add: word_unat_eq_iff minus_mod_eq_div_mult)
qed

lemma date_key_cong: "unat ts div 86400 = unat ts' div 86400 \<Longrightarrow> timestamp_to_date_key ts = timestamp_to_date_key ts'"
  by (simp add: timestamp_to_date_key_def uint_day)

lemma day_of_midnight:
  "(n div 86400 * 86400 + 86400) div 86400 = (n + 86400) div (86400 :: nat)"
  "(n div 86400 * 86400 - 86400) div 86400 = (n - 86400) div (86400 :: nat)"
proof -
  show "(n div 86400 * 86400 + 86400) div 86400 = (n + 86400) div (86400 :: nat)" by simp
  have "n div 86400 * 86400 - 86400 = (n div 86400 - 1) * (86400 :: nat)" by (simp add: diff_mult_distrib)
  moreover have "(n - 86400) div 86400 = n div 86400 - (1 :: nat)"
  proof (cases "86400 \<le> n")
    case True
    then have "n div 86400 = (n - 86400) div 86400 + (1 :: nat)" using div_add_self2 [of 86400 "n - 86400"] by simp
    then show ?thesis by simp
  qed simp
  ultimately show "(n div 86400 * 86400 - 86400) div 86400 = (n - 86400) div (86400 :: nat)" by simp
qed

lemma MAX_DATED_fits: "n < MAX_DATED \<Longrightarrow> n + 86400 < 2 ^ 64"
  by (simp add: MAX_DATED_def)

lemma next_key:
  assumes "unat ts < MAX_DATED"
  shows "next_date_key (timestamp_to_date_key ts) = timestamp_to_date_key (ts + SECONDS_PER_DAY)"
proof -
  have le: "unat ts div 86400 * 86400 \<le> unat ts" by (rule div_times_less_eq_dividend)
  have "unat (saturating_add (date_key_to_utc_timestamp (timestamp_to_date_key ts)) SECONDS_PER_DAY) = unat ts div 86400 * 86400 + 86400"
    using MAX_DATED_fits [OF assms] le by (simp add: unat_saturating_add midnight_nat [OF assms] unat_secs)
  moreover have "unat (ts + SECONDS_PER_DAY) = unat ts + 86400"
    using MAX_DATED_fits [OF assms] by (subst unat_add_exact) (simp_all add: unat_secs)
  ultimately show ?thesis unfolding next_date_key_def by (intro date_key_cong) (simp only: day_of_midnight)
qed

lemma previous_key:
  assumes "unat ts < MAX_DATED"
  shows "previous_date_key (timestamp_to_date_key ts) = timestamp_to_date_key (saturating_sub ts SECONDS_PER_DAY)"
  unfolding previous_date_key_def
  by (rule date_key_cong) (simp only: unat_saturating_sub midnight_nat [OF assms] unat_secs day_of_midnight)

lemma ucast_word_of_nat: "unat (a :: u64) = n \<Longrightarrow> (ucast a :: u32) = word_of_nat n"
  by (auto simp: word_of_nat_eq_iff)

lemma day_number:
  assumes "unat ts < MAX_DATED" "unat g < MAX_DATED"
  shows "day_number_between (timestamp_to_date_key g) (timestamp_to_date_key ts) =
    (if unat g div 86400 \<le> unat ts div 86400 then Inr (word_of_nat (unat ts div 86400 - unat g div 86400))
     else Inl (PreGenesis (timestamp_to_date_key ts) (timestamp_to_date_key g)))"
proof -
  let ?d = "unat ts div 86400" and ?e = "unat g div 86400"
  let ?t = "date_key_to_utc_timestamp (timestamp_to_date_key ts)" and ?g = "date_key_to_utc_timestamp (timestamp_to_date_key g)"
  have le: "?g \<le> ?t \<longleftrightarrow> ?e \<le> ?d"
    by (simp add: word_le_nat_alt midnight_nat [OF assms(1)] midnight_nat [OF assms(2)])
  have q: "?d < 150000000" using assms(1) by (simp only: MAX_DATED_def div_less_iff_less_mult zero_less_numeral)
  have "unat ((?t - ?g) div SECONDS_PER_DAY) = ?d - ?e" if "?e \<le> ?d"
    using that le by (simp add: unat_div unat_sub_exact unat_secs midnight_nat [OF assms(1)] midnight_nat [OF assms(2)] diff_mult_distrib [symmetric])
  moreover from this have "ucast ((?t - ?g) div SECONDS_PER_DAY) = (word_of_nat (?d - ?e) :: u32)" if "?e \<le> ?d"
    using that by (intro ucast_word_of_nat)
  ultimately show ?thesis
    using le q unfolding day_number_between_def checked_sub_def Let_def by (simp del: unat_div)
qed

section \<open>Properties\<close>

text \<open>
  C40. UTC date keys are faithful to the calendar. For every timestamp of the dated range the key's
  midnight is the timestamp rounded down to its day; the next key is the key one day later and the
  previous key the key one day earlier (staying on the epoch day at the epoch); and the number of
  days between two keys is the difference of the day counts, with the pre-genesis error exactly
  when the second day is before the first.
\<close>

theorem date_keys_correct:
  assumes "unat ts < MAX_DATED" "unat g < MAX_DATED"
  shows "date_key_to_utc_timestamp (timestamp_to_date_key ts) = ts - ts mod SECONDS_PER_DAY \<and>
    next_date_key (timestamp_to_date_key ts) = timestamp_to_date_key (ts + SECONDS_PER_DAY) \<and>
    previous_date_key (timestamp_to_date_key ts) = timestamp_to_date_key (saturating_sub ts SECONDS_PER_DAY) \<and>
    day_number_between (timestamp_to_date_key g) (timestamp_to_date_key ts) =
      (if unat g div 86400 \<le> unat ts div 86400 then Inr (word_of_nat (unat ts div 86400 - unat g div 86400))
       else Inl (PreGenesis (timestamp_to_date_key ts) (timestamp_to_date_key g)))"
  using midnight [OF assms(1)] next_key [OF assms(1)] previous_key [OF assms(1)] day_number [OF assms] by simp

theorem date_keys_correct_witness:
  "timestamp_to_date_key 1709200000 = 20240229 \<and> date_key_to_utc_timestamp 20240229 = 1709164800 \<and>
   next_date_key 20240229 = 20240301 \<and> day_number_between 20240229 19700101 = Inl (PreGenesis 19700101 20240229)"
proof -
  have k: "timestamp_to_date_key 1709200000 = 20240229" "timestamp_to_date_key 1709286400 = 20240301"
    "timestamp_to_date_key 5 = 19700101" by code_simp+
  show ?thesis
    using date_keys_correct [of 1709200000 0] date_keys_correct [of 5 1709200000] k
    by (simp add: MAX_DATED_def SECONDS_PER_DAY_def)
qed

end
