(* ===== verification/Storage_List.thy ===== *)
theory Storage_List
  imports Prelude "HOL-Library.Multiset"
begin

text \<open>
  Enumerable lists in contract storage: a counter and a mapping from index to element, the
  idiom the modules use for voter, date and address lists. Elements are appended at the
  counter and removed by moving the last element into the hole.
\<close>

section \<open>Definitions\<close>

definition stored :: "'n::len word \<Rightarrow> ('n word \<Rightarrow> 'v) \<Rightarrow> 'v list" where
  "stored n at = map (\<lambda>i. at (word_of_nat i)) [0..<unat n]"

definition find_stored :: "'v \<Rightarrow> 'n::len word \<Rightarrow> ('n word \<Rightarrow> 'v) \<Rightarrow> 'n word option" where
  "find_stored v n at = List.find (\<lambda>i. at i = v) (map word_of_nat [0..<unat n])"

definition swap_remove :: "'v \<Rightarrow> 'v \<Rightarrow> 'n::len word \<Rightarrow> ('n word \<Rightarrow> 'v) \<Rightarrow> 'n word \<times> ('n word \<Rightarrow> 'v)" where
  "swap_remove zero v n at =
     (case find_stored v n at of
        None \<Rightarrow> (n, at)
      | Some idx \<Rightarrow>
          let l = n - 1;
              at = (if idx \<noteq> l then at(idx := at l) else at)
          in (l, at(l := zero)))"

section \<open>Lemmas\<close>

lemma length_stored [simp]: "length (stored n at) = unat n"
  by (simp add: stored_def)

lemma nth_stored: "i < unat n \<Longrightarrow> stored n at ! i = at (word_of_nat i)"
  by (simp add: stored_def)

lemma unat_word_of_nat: "k < 2 ^ LENGTH('n) \<Longrightarrow> unat (word_of_nat k :: 'n::len word) = k"
  by (simp add: unat_of_nat)

lemma word_of_nat_below:
  "i < unat (n :: 'n::len word) \<Longrightarrow> unat (word_of_nat i :: 'n word) = i"
  using unat_lt_2p [of n] by (intro unat_word_of_nat) linarith

lemma word_of_nat_eq_iff_below:
  "i < unat (n :: 'n::len word) \<Longrightarrow> word_of_nat i = (m :: 'n word) \<longleftrightarrow> i = unat m"
  using word_of_nat_below [of i n] by auto

lemma stored_upd_beyond: "n \<le> i \<Longrightarrow> stored n (at(i := v)) = stored n at"
  by (auto simp: stored_def word_of_nat_eq_iff_below word_le_nat_alt)

lemma stored_upd: "i < n \<Longrightarrow> stored n (at(i := v)) = (stored n at)[unat i := v]"
  by (rule nth_equalityI) (auto simp: nth_stored nth_list_update word_of_nat_eq_iff_below)

lemma stored_0 [simp]: "stored 0 at = []"
  by (simp add: stored_def)

lemma stored_Suc:
  assumes "unat (n :: 'n::len word) + 1 < 2 ^ LENGTH('n)"
  shows "stored (n + 1) at = stored n at @ [at n]"
proof -
  have "unat (n + 1) = Suc (unat n)" using assms by (simp add: unat_add_exact)
  then show ?thesis by (simp add: stored_def)
qed

lemma stored_push:
  assumes "unat (n :: 'n::len word) + 1 < 2 ^ LENGTH('n)"
  shows "stored (n + 1) (at(n := v)) = stored n at @ [v]"
  by (simp add: stored_Suc [OF assms] stored_upd_beyond)

lemma find_stored_None: "find_stored v n at = None \<longleftrightarrow> v \<notin> set (stored n at)"
  by (auto simp: find_stored_def stored_def find_None_iff)

lemma find_stored_Some: "find_stored v n at = Some i \<Longrightarrow> i < n \<and> at i = v"
proof -
  assume "find_stored v n at = Some i"
  then obtain j where "j < unat n" "i = word_of_nat j" "at i = v"
    unfolding find_stored_def find_Some_iff by auto
  then show ?thesis by (simp add: word_less_nat_alt word_of_nat_below)
qed

lemma mset_move_last:
  assumes "i < length xs"
  shows "mset (butlast (xs[i := last xs])) = mset xs - {#xs ! i#}"
proof (cases "i = length xs - 1")
  case True
  then have "butlast (xs[i := last xs]) = butlast xs" using assms by (simp add: butlast_list_update)
  moreover have "mset xs = add_mset (xs ! i) (mset (butlast xs))"
    using assms True by (metis append_butlast_last_id last_conv_nth length_0_conv less_nat_zero_code mset_append
        mset_single_iff_right add_mset_add_single union_mset_add_mset_right mset.simps)
  ultimately show ?thesis by simp
next
  case False
  then have i: "i < length (butlast xs)" using assms by simp
  have "xs \<noteq> []" using assms by auto
  then have "mset xs = add_mset (last xs) (mset (butlast xs))"
    by (metis append_butlast_last_id mset_append union_mset_add_mset_right add_mset_add_single mset.simps)
  moreover have "butlast (xs[i := last xs]) = (butlast xs)[i := last xs]"
    using False assms by (simp add: butlast_list_update)
  moreover have "butlast xs ! i = xs ! i" using i by (simp add: nth_butlast)
  moreover obtain M where "mset (butlast xs) = add_mset (butlast xs ! i) M"
    using i by (meson mset_add nth_mem_mset)
  ultimately show ?thesis using i by (simp add: mset_update add_mset_commute)
qed

lemma stored_pred:
  assumes "0 < (n :: 'n::len word)"
  shows "stored (n - 1) at = butlast (stored n at)"
proof -
  have "1 \<le> n" using assms by (metis unat_gt_0 word_le_nat_alt unat_1 Suc_leI One_nat_def word_gt_0 unat_eq_zero gr0I)
  then have "unat (n - 1) = unat n - 1" by (simp add: unat_sub_exact)
  then show ?thesis by (auto simp: list_eq_iff_nth_eq nth_stored nth_butlast)
qed

lemma swap_remove_stored:
  assumes "swap_remove zero v n at = (n', at')"
  shows "mset (stored n' at') = mset (stored n at) - {#v#}"
proof (cases "find_stored v n at")
  case None
  with assms show ?thesis
    by (auto simp: swap_remove_def find_stored_None [symmetric] diff_single_trivial)
next
  case (Some i)
  note i = find_stored_Some [OF Some]
  then have n: "0 < n" by (metis word_gt_0 word_not_simps(1))
  let ?l = "n - 1" and ?xs = "stored n at"
  have n': "n' = ?l" and at': "at' = (if i \<noteq> ?l then at(i := at ?l) else at)(?l := zero)"
    using assms Some by (auto simp: swap_remove_def Let_def)
  have "?xs \<noteq> []" using n by (metis length_stored list.size(3) unat_eq_zero word_gt_0)
  moreover have "unat ?l = unat n - 1" using n stored_pred [OF n, of at] by (metis length_butlast length_stored)
  moreover from this n have l: "?l < n" by (simp add: word_less_nat_alt unat_gt_0 word_gt_0)
  ultimately have "last ?xs = ?xs ! unat ?l" by (simp add: last_conv_nth)
  then have last: "last ?xs = at ?l" using l by (simp add: nth_stored word_less_nat_alt)
  have "stored n' at' = stored ?l (if i \<noteq> ?l then at(i := at ?l) else at)"
    unfolding n' at' by (rule stored_upd_beyond) simp
  also have "\<dots> = butlast (stored n (if i \<noteq> ?l then at(i := at ?l) else at))" by (rule stored_pred [OF n])
  also have "stored n (if i \<noteq> ?l then at(i := at ?l) else at) = ?xs[unat i := last ?xs]"
    using i last by (cases "i = ?l") (simp_all add: stored_upd list_update_same_conv [THEN iffD2] nth_stored word_less_nat_alt)
  finally show ?thesis
    using mset_move_last [of "unat i" ?xs] i by (simp add: word_less_nat_alt nth_stored)
qed

end
