(* ===== verification/Metadosis.thy ===== *)
theory Metadosis
  imports Utc_Time Storage_List
begin

text \<open>
  The Metadosis contract's own state (\<^verbatim>\<open>crates/core/metadosis/src/{schema,state,constants}.rs\<close>,
  \<^verbatim>\<open>emission_sink.rs\<close>, \<^verbatim>\<open>crates/core/common/src/worldwideday.rs\<close>): worldwide days with their
  status machine, the bounded list of daily emission limits and the list of active days.
\<close>

section \<open>State\<close>

type_synonym wwd = u32

definition wwd_from_timestamp :: "u64 \<Rightarrow> wwd" where
  "wwd_from_timestamp ts = timestamp_to_date_key (ts + UTC_PLUS_14_OFFSET)"

definition start_timestamp :: "wwd \<Rightarrow> u64" where
  "start_timestamp day = saturating_sub (date_key_to_utc_timestamp day) UTC_PLUS_14_OFFSET"

definition FORMING :: u8 where [simp]: "FORMING = 0"
definition LOOKBACK_DELAY :: u8 where [simp]: "LOOKBACK_DELAY = 1"
definition OFFERING :: u8 where [simp]: "OFFERING = 2"
definition WAITING :: u8 where [simp]: "WAITING = 3"
definition READY :: u8 where [simp]: "READY = 4"
definition IN_PROGRESS :: u8 where [simp]: "IN_PROGRESS = 5"
definition COMPLETED :: u8 where [simp]: "COMPLETED = 6"
definition FAILED :: u8 where [simp]: "FAILED = 7"

definition DAY_UNKNOWN :: u8 where [simp]: "DAY_UNKNOWN = 0"
definition DAY_GREEN :: u8 where [simp]: "DAY_GREEN = 1"
definition DAY_RED :: u8 where [simp]: "DAY_RED = 2"

definition FORMING_PERIOD_HOURS :: u64 where "FORMING_PERIOD_HOURS = 50"
definition WAITING_PERIOD_HOURS :: u64 where "WAITING_PERIOD_HOURS = 12"
definition SECONDS_PER_HOUR :: u64 where "SECONDS_PER_HOUR = 3600"
definition MAX_DAY_LIMITS_KEPT :: nat where "MAX_DAY_LIMITS_KEPT = 30"

record worldwide_day =
  wd_status :: u8
  wd_day_type :: u8
  forming_start :: u64
  forming_end :: u64
  lookback_end :: u64
  offering_end :: u64
  scheduled_process_time :: u64
  previous_vwap :: u256
  current_vwap :: u256

text \<open>The record of a key that was never written, and of a deleted one.\<close>

definition no_worldwide_day :: worldwide_day where
  "no_worldwide_day = \<lparr>wd_status = FORMING, wd_day_type = DAY_UNKNOWN, forming_start = 0, forming_end = 0,
     lookback_end = 0, offering_end = 0, scheduled_process_time = 0, previous_vwap = 0, current_vwap = 0\<rparr>"

datatype metadosis_event =
    MetadosisAccumulation u32 u256 u256 u64
  | WorldwideDayStarted wwd u64 u64 u64 u64 u64
  | WorldwideDayStatusChange wwd u8 u8 u64
  | MetadosisSkipped wwd string string u64
  | MetadosisExecuted wwd u256 u256 u256 u256 u256 u256 u256 string u64
  | MetadosisWorldwideDayProcessed wwd u256 u256 string string string
  | WorldwideDayCleanedUp wwd u64

record metadosis =
  bootstrap_end_time :: u64
  worldwide_days :: "wwd \<Rightarrow> worldwide_day"
  day_limit_amount :: "wwd \<Rightarrow> u256"
  day_limit_used :: "wwd \<Rightarrow> bool"
  active_wwd_count :: u32
  active_wwds :: "u32 \<Rightarrow> u32"
  config_oracle_pair_hash :: b256
  day_limit_exists :: "wwd \<Rightarrow> bool"
  day_limit_count :: u32
  day_limit_dates :: "u32 \<Rightarrow> u32"
  md_events :: "metadosis_event list"

definition md_emit :: "metadosis_event \<Rightarrow> metadosis \<Rightarrow> metadosis" where
  "md_emit e m = m\<lparr>md_events := md_events m @ [e]\<rparr>"

section \<open>Worldwide days\<close>

definition set_day :: "wwd \<Rightarrow> (worldwide_day \<Rightarrow> worldwide_day) \<Rightarrow> metadosis \<Rightarrow> metadosis" where
  "set_day d f m = m\<lparr>worldwide_days := (worldwide_days m)(d := f (worldwide_days m d))\<rparr>"

definition new_worldwide_day :: "u64 \<Rightarrow> u64 \<Rightarrow> u64 \<Rightarrow> worldwide_day" where
  "new_worldwide_day start lookback_delay_hours offering_period_hours =
     (let f_end = start + FORMING_PERIOD_HOURS * SECONDS_PER_HOUR;
          l_end = f_end + lookback_delay_hours * SECONDS_PER_HOUR;
          o_end = l_end + offering_period_hours * SECONDS_PER_HOUR
      in \<lparr>wd_status = FORMING, wd_day_type = DAY_UNKNOWN, forming_start = start, forming_end = f_end,
          lookback_end = l_end, offering_end = o_end,
          scheduled_process_time = o_end + WAITING_PERIOD_HOURS * SECONDS_PER_HOUR,
          previous_vwap = 0, current_vwap = 0\<rparr>)"

definition create_worldwide_day :: "wwd \<Rightarrow> u64 \<Rightarrow> u64 \<Rightarrow> u64 \<Rightarrow> metadosis \<Rightarrow> metadosis result" where
  "create_worldwide_day d start lookback_delay_hours offering_period_hours m =
     (if forming_start (worldwide_days m d) \<noteq> 0 then Inl (Revert ''WorldwideDay already exists'')
      else Inr (set_day d (\<lambda>_. new_worldwide_day start lookback_delay_hours offering_period_hours) m))"

definition delete_worldwide_day :: "wwd \<Rightarrow> metadosis \<Rightarrow> metadosis" where
  "delete_worldwide_day d = set_day d (\<lambda>_. no_worldwide_day)"

definition status_at :: "worldwide_day \<Rightarrow> u64 \<Rightarrow> u8" where
  "status_at day block_time =
     (if block_time < forming_end day then FORMING
      else if block_time < lookback_end day then LOOKBACK_DELAY
      else if block_time < offering_end day then OFFERING
      else if block_time < scheduled_process_time day then WAITING
      else READY)"

definition update_wwd_status :: "wwd \<Rightarrow> u64 \<Rightarrow> metadosis \<Rightarrow> u8 \<times> metadosis" where
  "update_wwd_status d block_time m =
     (let day = worldwide_days m d; current = wd_status day
      in if current = COMPLETED \<or> current = FAILED then (current, m)
         else let new = status_at day block_time
              in (new, if new \<noteq> current then set_day d (\<lambda>day. day\<lparr>wd_status := new\<rparr>) m else m))"

definition set_day_type :: "wwd \<Rightarrow> u8 \<Rightarrow> metadosis \<Rightarrow> metadosis" where
  "set_day_type d t = set_day d (\<lambda>day. day\<lparr>wd_day_type := t\<rparr>)"

definition get_day_type :: "metadosis \<Rightarrow> wwd \<Rightarrow> u8" where
  "get_day_type m d = wd_day_type (worldwide_days m d)"

definition get_status :: "metadosis \<Rightarrow> wwd \<Rightarrow> u8" where
  "get_status m d = wd_status (worldwide_days m d)"

definition set_vwap :: "wwd \<Rightarrow> u256 \<Rightarrow> metadosis \<Rightarrow> metadosis result" where
  "set_vwap d vwap m =
     (if vwap = 0 then Inl (Revert ''VWAP must be non-zero'')
      else Inr (set_day d (\<lambda>day. day\<lparr>current_vwap := vwap\<rparr>) m))"

definition mark_completed :: "wwd \<Rightarrow> metadosis \<Rightarrow> metadosis result" where
  "mark_completed d m =
     (if get_status m d \<noteq> READY then Inl (Revert ''cannot mark WWD as COMPLETED (requires READY)'')
      else Inr (set_day d (\<lambda>day. day\<lparr>wd_status := COMPLETED\<rparr>) m))"

definition mark_failed :: "wwd \<Rightarrow> metadosis \<Rightarrow> metadosis result" where
  "mark_failed d m =
     (if get_status m d = COMPLETED then Inl (Revert ''cannot mark WWD as FAILED: day is already COMPLETED'')
      else Inr (set_day d (\<lambda>day. day\<lparr>wd_status := FAILED\<rparr>) m))"

section \<open>Daily limits\<close>

definition get_all_day_limit_dates :: "metadosis \<Rightarrow> wwd list" where
  "get_all_day_limit_dates m = filter (\<lambda>d. d \<noteq> 0) (stored (day_limit_count m) (day_limit_dates m))"

definition add_day_limit_date :: "wwd \<Rightarrow> metadosis \<Rightarrow> metadosis" where
  "add_day_limit_date d m =
     (let n = day_limit_count m
      in m\<lparr>day_limit_dates := (day_limit_dates m)(n := d), day_limit_count := n + 1\<rparr>)"

definition remove_day_limit_date :: "wwd \<Rightarrow> metadosis \<Rightarrow> metadosis" where
  "remove_day_limit_date d m =
     (let (n, dates) = swap_remove 0 d (day_limit_count m) (day_limit_dates m)
      in m\<lparr>day_limit_count := n, day_limit_dates := dates\<rparr>)"

definition delete_day_limit :: "wwd \<Rightarrow> metadosis \<Rightarrow> metadosis" where
  "delete_day_limit d m =
     remove_day_limit_date d
       (m\<lparr>day_limit_amount := (day_limit_amount m)(d := 0),
          day_limit_used := (day_limit_used m)(d := False),
          day_limit_exists := (day_limit_exists m)(d := False)\<rparr>)"

lemma delete_day_limit_count:
  assumes "d \<in> set (stored (day_limit_count m) (day_limit_dates m))"
  shows "unat (day_limit_count (delete_day_limit d m)) < unat (day_limit_count m)"
proof -
  obtain n dates where r: "swap_remove 0 d (day_limit_count m) (day_limit_dates m) = (n, dates)"
    by (cases "swap_remove 0 d (day_limit_count m) (day_limit_dates m)")
  then have "size (mset (stored n dates)) < size (mset (stored (day_limit_count m) (day_limit_dates m)))"
    unfolding swap_remove_stored [OF r] using assms by (intro size_Diff1_less) simp
  with r show ?thesis by (simp add: delete_day_limit_def remove_day_limit_date_def)
qed

text \<open>The \<open>loop\<close>: as long as more than the kept number of dates is stored, drop the oldest.\<close>

function cleanup_old_day_limits :: "metadosis \<Rightarrow> metadosis" where
  "cleanup_old_day_limits m =
     (let dates = get_all_day_limit_dates m
      in if length dates \<le> MAX_DAY_LIMITS_KEPT then m
         else cleanup_old_day_limits (delete_day_limit (Min (set dates)) m))"
  by pat_completeness auto

termination
proof (relation "measure (\<lambda>m. unat (day_limit_count m))")
  fix m dates
  assume "dates = get_all_day_limit_dates m" "\<not> length dates \<le> MAX_DAY_LIMITS_KEPT"
  moreover from this have "Min (set dates) \<in> set dates" by (intro Min_in) auto
  ultimately show "(delete_day_limit (Min (set dates)) m, m) \<in> measure (\<lambda>m. unat (day_limit_count m))"
    by (auto simp: get_all_day_limit_dates_def intro!: delete_day_limit_count)
qed simp

declare cleanup_old_day_limits.simps [simp del]

definition record_day_limit :: "wwd \<Rightarrow> u256 \<Rightarrow> metadosis \<Rightarrow> metadosis" where
  "record_day_limit d amount m =
     (let m = (if day_limit_exists m d then m else add_day_limit_date d m)
      in cleanup_old_day_limits
           (m\<lparr>day_limit_amount := (day_limit_amount m)(d := day_limit_amount m d + amount),
              day_limit_exists := (day_limit_exists m)(d := True)\<rparr>))"

definition record_day_limit_at :: "u64 \<Rightarrow> u256 \<Rightarrow> metadosis \<Rightarrow> metadosis" where
  "record_day_limit_at ts = record_day_limit (timestamp_to_date_key ts)"

definition mark_day_limit_used :: "wwd \<Rightarrow> metadosis \<Rightarrow> metadosis" where
  "mark_day_limit_used d m = m\<lparr>day_limit_used := (day_limit_used m)(d := True)\<rparr>"

section \<open>Active days\<close>

definition add_active_wwd :: "wwd \<Rightarrow> metadosis \<Rightarrow> metadosis" where
  "add_active_wwd d m =
     (let n = active_wwd_count m
      in m\<lparr>active_wwds := (active_wwds m)(n := d), active_wwd_count := n + 1\<rparr>)"

definition remove_active_wwd :: "wwd \<Rightarrow> metadosis \<Rightarrow> metadosis" where
  "remove_active_wwd d m =
     (let (n, days) = swap_remove 0 d (active_wwd_count m) (active_wwds m)
      in m\<lparr>active_wwd_count := n, active_wwds := days\<rparr>)"

definition get_all_active_wwds :: "metadosis \<Rightarrow> wwd list" where
  "get_all_active_wwds m = stored (active_wwd_count m) (active_wwds m)"

definition get_active_wwds_by_status :: "metadosis \<Rightarrow> u8 \<Rightarrow> wwd list" where
  "get_active_wwds_by_status m wanted = filter (\<lambda>d. get_status m d = wanted) (get_all_active_wwds m)"

section \<open>The terminal emission sink\<close>

text \<open>
  \<open>emission_sink::apply\<close>: the amount goes to the UTC day of the block's timestamp; nothing is
  returned unused.
\<close>

definition emission_sink_apply :: "u64 \<Rightarrow> u64 \<Rightarrow> u256 \<Rightarrow> metadosis \<Rightarrow> u256 \<times> metadosis" where
  "emission_sink_apply block_number ts amount m =
     (let m = record_day_limit_at ts amount m;
          date = timestamp_to_date_key ts
      in (0, md_emit (MetadosisAccumulation date amount (day_limit_amount m date) block_number) m))"

section \<open>Well-formed limits\<close>

text \<open>
  The date list enumerates exactly the dates that exist, each once, and dates that do not exist
  hold no amount.
\<close>

definition limits_wf :: "metadosis \<Rightarrow> bool" where
  "limits_wf m \<longleftrightarrow> distinct (stored (day_limit_count m) (day_limit_dates m)) \<and>
     0 \<notin> set (stored (day_limit_count m) (day_limit_dates m)) \<and>
     (\<forall>d. day_limit_exists m d \<longleftrightarrow> d \<in> set (stored (day_limit_count m) (day_limit_dates m))) \<and>
     (\<forall>d. \<not> day_limit_exists m d \<longrightarrow> day_limit_amount m d = 0)"

definition limit_dates :: "metadosis \<Rightarrow> wwd set" where
  "limit_dates m = {d. day_limit_exists m d}"

definition newest :: "nat \<Rightarrow> wwd set \<Rightarrow> wwd set \<Rightarrow> bool" where
  "newest k S T \<longleftrightarrow> T \<subseteq> S \<and> card T = min k (card S) \<and> (\<forall>x\<in>T. \<forall>y\<in>S - T. y < x)"

lemma limits_wf_dates:
  assumes "limits_wf m"
  shows "get_all_day_limit_dates m = stored (day_limit_count m) (day_limit_dates m)"
    "set (get_all_day_limit_dates m) = limit_dates m" "length (get_all_day_limit_dates m) = card (limit_dates m)"
    "card (limit_dates m) = unat (day_limit_count m)"
proof -
  let ?xs = "stored (day_limit_count m) (day_limit_dates m)"
  have all: "filter (\<lambda>d. d \<noteq> 0) ?xs = ?xs" using assms by (auto simp: limits_wf_def filter_id_conv)
  then show eq: "get_all_day_limit_dates m = ?xs" by (simp add: get_all_day_limit_dates_def)
  show set: "set (get_all_day_limit_dates m) = limit_dates m"
    unfolding eq using assms by (auto simp: limits_wf_def limit_dates_def)
  then show "length (get_all_day_limit_dates m) = card (limit_dates m)"
    using assms eq distinct_card [of ?xs] by (simp add: limits_wf_def)
  then show "card (limit_dates m) = unat (day_limit_count m)" using eq by simp
qed

lemma remove_date_stored:
  "mset (stored (day_limit_count (remove_day_limit_date d m)) (day_limit_dates (remove_day_limit_date d m))) =
   mset (stored (day_limit_count m) (day_limit_dates m)) - {#d#}"
  unfolding remove_day_limit_date_def
  by (simp add: Let_def split: prod.splits) (metis swap_remove_stored)

lemma remove_date_rest [simp]:
  "day_limit_exists (remove_day_limit_date d m) = day_limit_exists m"
  "day_limit_amount (remove_day_limit_date d m) = day_limit_amount m"
  by (simp_all add: remove_day_limit_date_def Let_def split: prod.splits)

lemma delete_day_limit_wf:
  assumes "limits_wf m"
  shows "limits_wf (delete_day_limit d m)" "limit_dates (delete_day_limit d m) = limit_dates m - {d}"
    "day_limit_amount (delete_day_limit d m) = (day_limit_amount m)(d := 0)"
proof -
  let ?m = "delete_day_limit d m"
  let ?xs = "stored (day_limit_count m) (day_limit_dates m)" and ?ys = "stored (day_limit_count ?m) (day_limit_dates ?m)"
  have ms: "mset ?ys = mset ?xs - {#d#}" unfolding delete_day_limit_def remove_date_stored by simp
  have dx: "distinct ?xs" using assms by (simp add: limits_wf_def)
  have "mset ?ys = mset (remove1 d ?xs)" using ms by simp
  then have "set ?ys = set ?xs - {d}" "distinct ?ys"
    using dx by (metis mset_eq_setD set_remove1_eq, metis mset_eq_imp_distinct_iff distinct_remove1)
  then show "limits_wf ?m" "limit_dates ?m = limit_dates m - {d}" "day_limit_amount ?m = (day_limit_amount m)(d := 0)"
    using assms by (auto simp: limits_wf_def limit_dates_def delete_day_limit_def)
qed

lemma newest_refl: "card S \<le> k \<Longrightarrow> newest k S S"
  by (simp add: newest_def)

lemma newest_drop_min:
  assumes "newest k (S - {Min S}) T" "finite S" "k < card S" 
  shows "newest k S T"
proof -
  have "Min S \<in> S" using assms(2,3) by (intro Min_in) auto
  moreover have "Min S < x" if "x \<in> T" for x
    using that assms by (auto simp: newest_def intro!: le_neq_trans Min_le)
  ultimately show ?thesis using assms by (auto simp: newest_def)
qed

lemma cleanup_keeps_newest:
  assumes "limits_wf m"
  shows "limits_wf (cleanup_old_day_limits m) \<and>
    newest MAX_DAY_LIMITS_KEPT (limit_dates m) (limit_dates (cleanup_old_day_limits m)) \<and>
    (\<forall>d\<in>limit_dates (cleanup_old_day_limits m).
       day_limit_amount (cleanup_old_day_limits m) d = day_limit_amount m d)"
  using assms
proof (induction m rule: cleanup_old_day_limits.induct)
  case (1 m)
  note dates = limits_wf_dates [OF 1(2)]
  show ?case
  proof (cases "card (limit_dates m) \<le> MAX_DAY_LIMITS_KEPT")
    case True
    then have "cleanup_old_day_limits m = m" using dates by (simp add: cleanup_old_day_limits.simps [of m])
    then show ?thesis using 1(2) True by (simp add: newest_refl)
  next
    case False
    let ?d = "Min (limit_dates m)" and ?m = "delete_day_limit (Min (limit_dates m)) m"
    have eq: "cleanup_old_day_limits m = cleanup_old_day_limits ?m"
      using False dates by (simp add: cleanup_old_day_limits.simps [of m])
    have fin: "finite (limit_dates m)" by simp
    note del = delete_day_limit_wf [OF 1(2), of ?d]
    note ih = 1(1) [OF refl, unfolded dates(2,3), OF False del(1)]
    have "newest MAX_DAY_LIMITS_KEPT (limit_dates m - {?d}) (limit_dates (cleanup_old_day_limits ?m))"
      using ih del(2) by simp
    moreover have "MAX_DAY_LIMITS_KEPT < card (limit_dates m)" using False by linarith
    ultimately have new: "newest MAX_DAY_LIMITS_KEPT (limit_dates m) (limit_dates (cleanup_old_day_limits ?m))"
      by (rule newest_drop_min [OF _ fin])
    have "?d \<notin> limit_dates (cleanup_old_day_limits ?m)" using ih del(2) unfolding newest_def by blast
    then have "day_limit_amount ?m d = day_limit_amount m d" if "d \<in> limit_dates (cleanup_old_day_limits ?m)" for d
      using that del(3) by auto
    with ih new show ?thesis unfolding eq by simp
  qed
qed

text \<open>Every operation on the limits keeps them well-formed.\<close>

lemma record_day_limit_wf:
  assumes "limits_wf m" "d \<noteq> 0" "card (limit_dates m) \<le> MAX_DAY_LIMITS_KEPT"
  shows "limits_wf (record_day_limit d amount m)"
    "newest MAX_DAY_LIMITS_KEPT (insert d (limit_dates m)) (limit_dates (record_day_limit d amount m))"
    "\<And>x. x \<in> limit_dates (record_day_limit d amount m) \<Longrightarrow>
       day_limit_amount (record_day_limit d amount m) x = day_limit_amount m x + (if x = d then amount else 0)"
proof -
  define m1 where "m1 = (if day_limit_exists m d then m else add_day_limit_date d m)"
  define m2 where "m2 = m1\<lparr>day_limit_amount := (day_limit_amount m1)(d := day_limit_amount m1 d + amount),
    day_limit_exists := (day_limit_exists m1)(d := True)\<rparr>"
  have "unat (day_limit_count m) + 1 < 2 ^ LENGTH(32)"
    using assms(3) limits_wf_dates(4) [OF assms(1)] by (simp add: MAX_DAY_LIMITS_KEPT_def)
  note push = stored_push [OF this, of "day_limit_dates m" d]
  have wf: "limits_wf m2"
    using assms(1,2) push by (auto simp: limits_wf_def m2_def m1_def add_day_limit_date_def Let_def)
  have dates: "limit_dates m2 = insert d (limit_dates m)"
    by (auto simp: limit_dates_def m2_def m1_def add_day_limit_date_def Let_def)
  have amt: "day_limit_amount m2 x = day_limit_amount m x + (if x = d then amount else 0)" for x
    by (simp add: m2_def m1_def add_day_limit_date_def Let_def)
  have eq: "record_day_limit d amount m = cleanup_old_day_limits m2"
    by (simp add: record_day_limit_def m1_def m2_def Let_def)
  note cl = cleanup_keeps_newest [OF wf, folded eq]
  show "limits_wf (record_day_limit d amount m)" using cl by (rule conjunct1)
  show "newest MAX_DAY_LIMITS_KEPT (insert d (limit_dates m)) (limit_dates (record_day_limit d amount m))"
    using cl dates by simp
  show "\<And>x. x \<in> limit_dates (record_day_limit d amount m) \<Longrightarrow>
     day_limit_amount (record_day_limit d amount m) x = day_limit_amount m x + (if x = d then amount else 0)"
    using cl by (simp add: amt)
qed

end
