(* ===== verification/Emission.thy ===== *)
theory Emission
  imports Metadosis Complex_Main
begin

text \<open>
  The emission limit crate (\<^verbatim>\<open>crates/system/emissionlimit/src/{daily_emission,allocation,block}.rs\<close>):
  the fixed-point daily emission curve, the sink table and its allocation, the dispatch of an
  allocation to its sinks, and the terminal dispatch to Metadosis.
\<close>

section \<open>The daily curve\<close>

definition SCALE :: u256 where "SCALE = 1000000000000000000"
definition INITIAL_DAILY :: u256 where "INITIAL_DAILY = 1073741824000000000000000000"
definition FLOOR_DAILY :: u256 where "FLOOR_DAILY = 67108864000000000000000000"
definition K_NUM :: u256 where "K_NUM = 94952"
definition K_DEN :: u256 where "K_DEN = 100000000"
definition FLOOR_DAY_THRESHOLD :: u32 where "FLOOR_DAY_THRESHOLD = 2920"
definition TAYLOR_TERMS :: nat where "TAYLOR_TERMS = 32"

text \<open>
  The loop over \<open>k\<close>, from its current index, with the accumulators \<open>pos_sum\<close>, \<open>neg_sum\<close> and \<open>term\<close>;
  it stops at the first vanishing term.
\<close>

fun taylor_loop :: "u256 \<Rightarrow> nat list \<Rightarrow> u256 \<Rightarrow> u256 \<Rightarrow> u256 \<Rightarrow> u256 \<times> u256" where
  "taylor_loop x_fp [] pos_sum neg_sum t = (pos_sum, neg_sum)"
| "taylor_loop x_fp (k # ks) pos_sum neg_sum t =
     (let t = t * x_fp div (word_of_nat k * SCALE)
      in if t = 0 then (pos_sum, neg_sum)
         else if odd k then taylor_loop x_fp ks pos_sum (neg_sum + t) t
         else taylor_loop x_fp ks (pos_sum + t) neg_sum t)"

definition exp_fixed :: "u256 \<Rightarrow> u256" where
  "exp_fixed x_fp =
     (let (pos_sum, neg_sum) = taylor_loop x_fp [1..<TAYLOR_TERMS] SCALE 0 SCALE
      in saturating_sub pos_sum neg_sum)"

definition day_emission_limit :: "u32 \<Rightarrow> u256" where
  "day_emission_limit day_number =
     (if FLOOR_DAY_THRESHOLD \<le> day_number then FLOOR_DAILY
      else
        let x_fp = K_NUM * ucast day_number * SCALE div K_DEN;
            reward = INITIAL_DAILY * exp_fixed x_fp div SCALE
        in if reward < FLOOR_DAILY then FLOOR_DAILY else reward)"

section \<open>Allocation\<close>

datatype emission_sink_id = Sink_Validator | Sink_Waa | Sink_Sra | Sink_Cca | Sink_Merchant | Sink_Metadosis

record emission_sink_spec =
  spec_id :: emission_sink_id
  spec_pct :: "u64 option"

record emission_allocation =
  alloc_id :: emission_sink_id
  alloc_amount :: u256

definition VALIDATOR_REWARD_PCT :: u64 where "VALIDATOR_REWARD_PCT = 4"
definition WAA_REWARD_PCT :: u64 where "WAA_REWARD_PCT = 4"
definition SRA_REWARD_PCT :: u64 where "SRA_REWARD_PCT = 4"
definition CCA_REWARD_PCT :: u64 where "CCA_REWARD_PCT = 4"
definition MERCHANT_REWARD_PCT :: u64 where "MERCHANT_REWARD_PCT = 4"
definition PERCENT_DENOMINATOR :: u64 where "PERCENT_DENOMINATOR = 100"

definition ACTIVE_EMISSION_SINKS :: "emission_sink_spec list" where
  "ACTIVE_EMISSION_SINKS =
    [\<lparr>spec_id = Sink_Validator, spec_pct = Some VALIDATOR_REWARD_PCT\<rparr>,
     \<lparr>spec_id = Sink_Waa, spec_pct = Some WAA_REWARD_PCT\<rparr>,
     \<lparr>spec_id = Sink_Sra, spec_pct = Some SRA_REWARD_PCT\<rparr>,
     \<lparr>spec_id = Sink_Cca, spec_pct = Some CCA_REWARD_PCT\<rparr>,
     \<lparr>spec_id = Sink_Merchant, spec_pct = Some MERCHANT_REWARD_PCT\<rparr>,
     \<lparr>spec_id = Sink_Metadosis, spec_pct = None\<rparr>]"

text \<open>The scan of the sink table: sum of the fixed percentages and index of the terminal sink.\<close>

fun scan_specs :: "nat \<Rightarrow> emission_sink_spec list \<Rightarrow> u64 \<Rightarrow> nat option \<Rightarrow> (u64 \<times> nat option) result" where
  "scan_specs idx [] fixed_pct_sum terminal = Inr (fixed_pct_sum, terminal)"
| "scan_specs idx (spec # specs) fixed_pct_sum terminal =
     (case spec_pct spec of
        Some pct \<Rightarrow>
          (case checked_add fixed_pct_sum pct of
             None \<Rightarrow> Inl (Revert ''emission fixed percentage overflow'')
           | Some s \<Rightarrow> scan_specs (idx + 1) specs s terminal)
      | None \<Rightarrow>
          if terminal \<noteq> None then Inl (Revert ''emission sink table must have one terminal sink'')
          else scan_specs (idx + 1) specs fixed_pct_sum (Some idx))"

definition validate_sink_specs :: "emission_sink_spec list \<Rightarrow> unit result" where
  "validate_sink_specs specs =
     (if specs = [] then Inr ()
      else and_then (scan_specs 0 specs 0 None) (\<lambda>(fixed_pct_sum, terminal).
        if terminal \<noteq> Some (length specs - 1)
        then Inl (Revert ''emission terminal sink must be the final sink'')
        else if PERCENT_DENOMINATOR < fixed_pct_sum
        then Inl (Revert ''emission fixed percentages exceed 100'')
        else Inr ()))"

fun allocate_specs :: "u256 \<Rightarrow> u256 \<Rightarrow> emission_sink_spec list \<Rightarrow> emission_allocation list" where
  "allocate_specs amt fixed_total [] = []"
| "allocate_specs amt fixed_total (spec # specs) =
     (case spec_pct spec of
        Some pct \<Rightarrow>
          let a = amt * ucast pct div ucast PERCENT_DENOMINATOR
          in \<lparr>alloc_id = spec_id spec, alloc_amount = a\<rparr> # allocate_specs amt (fixed_total + a) specs
      | None \<Rightarrow>
          \<lparr>alloc_id = spec_id spec, alloc_amount = amt - fixed_total\<rparr> # allocate_specs amt fixed_total specs)"

definition allocate_emission_with_specs ::
  "u256 \<Rightarrow> emission_sink_spec list \<Rightarrow> emission_allocation list result" where
  "allocate_emission_with_specs amt specs =
     and_then (validate_sink_specs specs) (\<lambda>_. Inr (allocate_specs amt 0 specs))"

definition allocate_emission :: "u256 \<Rightarrow> emission_allocation list result" where
  "allocate_emission amt = allocate_emission_with_specs amt ACTIVE_EMISSION_SINKS"

section \<open>Dispatch\<close>

text \<open>
  A sink takes an amount and returns what it did not use. A non-terminal sink runs under a
  checkpoint: when it fails or returns more than it got, its writes are undone and the whole
  amount goes to the terminal sink.
\<close>

type_synonym 's sink_fn = "emission_sink_id \<Rightarrow> u256 \<Rightarrow> 's \<Rightarrow> (u256 \<times> 's) result"

definition dispatch_sink :: "'s sink_fn \<Rightarrow> emission_allocation \<Rightarrow> u256 \<times> 's \<Rightarrow> u256 \<times> 's" where
  "dispatch_sink sink_apply a = (\<lambda>(terminal_extra, s).
     if alloc_amount a = 0 then (terminal_extra, s)
     else case sink_apply (alloc_id a) (alloc_amount a) s of
       Inr (unused, s') \<Rightarrow>
         if alloc_amount a < unused then (terminal_extra + alloc_amount a, s)
         else (terminal_extra + unused, s')
     | Inl _ \<Rightarrow> (terminal_extra + alloc_amount a, s))"

definition dispatch_allocations :: "'s sink_fn \<Rightarrow> emission_allocation list \<Rightarrow> 's \<Rightarrow> 's result" where
  "dispatch_allocations sink_apply allocations s =
     (if allocations = [] then Inr s
      else
        let terminal = last allocations;
            (terminal_extra, s) = fold (dispatch_sink sink_apply) (butlast allocations) (0, s);
            terminal_amount = alloc_amount terminal + terminal_extra
        in if terminal_amount = 0 then Inr s
           else and_then (sink_apply (alloc_id terminal) terminal_amount s) (\<lambda>(unused, s).
             if unused \<noteq> 0 then Inl (Revert ''terminal emission sink returned unused amount'')
             else Inr s))"

definition dispatch_terminal_remainder_at :: "u64 \<Rightarrow> u256 \<Rightarrow> u64 \<Rightarrow> metadosis \<Rightarrow> metadosis result" where
  "dispatch_terminal_remainder_at block_number amount ts m =
     (if amount = 0 then Inr m
      else
        let (unused, m) = emission_sink_apply block_number ts amount m
        in if unused \<noteq> 0 then Inl (Revert ''terminal emission sink returned unused amount'')
           else Inr m)"

section \<open>Allocations\<close>

definition pct_sum :: "emission_sink_spec list \<Rightarrow> nat" where
  "pct_sum specs = (\<Sum>s\<leftarrow>specs. case spec_pct s of None \<Rightarrow> 0 | Some p \<Rightarrow> unat p)"

definition amount_sum :: "emission_allocation list \<Rightarrow> nat" where
  "amount_sum as = (\<Sum>a\<leftarrow>as. unat (alloc_amount a))"

lemma scan_specs_terminal:
  assumes "scan_specs idx specs s (Some k) = Inr (s', tm)"
  shows "tm = Some k \<and> (\<forall>x\<in>set specs. spec_pct x \<noteq> None) \<and> unat s' = unat s + pct_sum specs"
  using assms
proof (induction specs arbitrary: idx s)
  case (Cons x specs)
  then obtain p s1 where p: "spec_pct x = Some p" "checked_add s p = Some s1"
    "scan_specs (idx + 1) specs s1 (Some k) = Inr (s', tm)" by (auto split: option.splits)
  then show ?case using Cons.IH [OF p(3)] checked_add_Some [OF p(2)] by (auto simp: pct_sum_def)
qed (auto simp: pct_sum_def)

lemma scan_specs_shape:
  assumes "scan_specs idx specs s None = Inr (s', Some k)" "k = idx + length specs - 1" "specs \<noteq> []"
  shows "\<exists>fs t. specs = fs @ [t] \<and> spec_pct t = None \<and> (\<forall>x\<in>set fs. spec_pct x \<noteq> None) \<and>
    unat s' = unat s + pct_sum specs"
  using assms
proof (induction specs arbitrary: idx s)
  case (Cons x specs)
  show ?case
  proof (cases "spec_pct x")
    case None
    with Cons.prems(1) have r: "scan_specs (idx + 1) specs s (Some idx) = Inr (s', Some k)" by simp
    note t = scan_specs_terminal [OF r]
    then have "specs = []" using Cons.prems(2) by (cases specs) auto
    then show ?thesis using None t by (intro exI [of _ "[]"]) (simp add: pct_sum_def)
  next
    case (Some p)
    with Cons.prems(1) obtain s1 where s1: "checked_add s p = Some s1" "scan_specs (idx + 1) specs s1 None = Inr (s', Some k)"
      by (auto split: option.splits)
    then have ne: "specs \<noteq> []" by auto
    obtain fs t where "specs = fs @ [t]" "spec_pct t = None" "\<forall>x\<in>set fs. spec_pct x \<noteq> None"
      "unat s' = unat s1 + pct_sum specs"
      using Cons.IH [OF s1(2) _ ne] Cons.prems(2) ne by (auto simp: Suc_diff_le)
    then show ?thesis using Some checked_add_Some [OF s1(1)]
      by (intro exI [of _ "x # fs"] exI [of _ t]) (simp add: pct_sum_def)
  qed
qed simp

lemma validate_sink_specs_shape:
  assumes "validate_sink_specs specs = Inr ()" "specs \<noteq> []"
  shows "\<exists>fs t. specs = fs @ [t] \<and> spec_pct t = None \<and> (\<forall>x\<in>set fs. spec_pct x \<noteq> None) \<and> pct_sum fs \<le> 100"
proof -
  from assms obtain s' where s': "scan_specs 0 specs 0 None = Inr (s', Some (length specs - 1))" "s' \<le> PERCENT_DENOMINATOR"
    by (auto simp: validate_sink_specs_def and_then_eq_Inr not_less split: if_splits)
  from scan_specs_shape [OF s'(1)] assms(2) s'(2) show ?thesis
    by (auto simp: PERCENT_DENOMINATOR_def word_le_nat_alt pct_sum_def)
qed

lemma allocate_specs_sum:
  assumes "\<forall>x\<in>set fs. spec_pct x \<noteq> None" "spec_pct t = None" "unat amt * 100 < 2 ^ 256"
    and "unat ft * 100 + unat amt * pct_sum fs \<le> unat amt * 100"
  shows "amount_sum (allocate_specs amt ft (fs @ [t])) + unat ft = unat amt"
  using assms(1,4)
proof (induction fs arbitrary: ft)
  case Nil
  then have "ft \<le> amt" by (simp add: word_le_nat_alt pct_sum_def)
  then show ?case using assms(2) by (simp add: amount_sum_def unat_sub_exact word_le_nat_alt)
next
  case (Cons x fs)
  then obtain p where p: "spec_pct x = Some p" by auto
  let ?a = "amt * ucast p div ucast PERCENT_DENOMINATOR :: u256"
  have bound: "unat ft * 100 + (unat amt * unat p + unat amt * pct_sum fs) \<le> unat amt * 100"
    using Cons.prems(2) p by (simp add: pct_sum_def distrib_left)
  then have "unat amt * unat p \<le> unat amt * 100" by linarith
  then have "unat (amt * ucast p :: u256) = unat amt * unat p"
    using order.strict_trans1 [OF _ assms(3)] by (intro unat_mult_exact [where a = amt and b = "ucast p", simplified]) simp
  then have a: "unat ?a = unat amt * unat p div 100" by (simp add: unat_div PERCENT_DENOMINATOR_def)
  have le: "unat ?a * 100 \<le> unat amt * unat p" unfolding a by (rule div_times_less_eq_dividend)
  have "unat ft + unat ?a \<le> unat amt" using bound le by linarith
  then have ft: "unat (ft + ?a) = unat ft + unat ?a" using unat_lt_2p [of amt] by (intro unat_add_exact) linarith
  then have "unat (ft + ?a) * 100 + unat amt * pct_sum fs \<le> unat amt * 100" using bound le by linarith
  then show ?case using Cons.IH [of "ft + ?a"] Cons.prems(1) p ft by (simp add: amount_sum_def Let_def)
qed

text \<open>An allocation distributes exactly its total, whatever valid table it uses.\<close>

lemma allocate_emission_exact:
  assumes "allocate_emission_with_specs amt specs = Inr as" "specs \<noteq> []" "unat amt * 100 < 2 ^ 256"
  shows "amount_sum as = unat amt"
proof -
  from assms(1) have v: "validate_sink_specs specs = Inr ()" and as: "as = allocate_specs amt 0 specs"
    by (auto simp: allocate_emission_with_specs_def and_then_eq_Inr)
  obtain fs t where fs: "specs = fs @ [t]" "spec_pct t = None" "\<forall>x\<in>set fs. spec_pct x \<noteq> None" "pct_sum fs \<le> 100"
    using validate_sink_specs_shape [OF v assms(2)] by blast
  show ?thesis unfolding as fs(1)
    using allocate_specs_sum [OF fs(3,2) assms(3), of 0] fs(4) by simp
qed

lemma active_sinks_valid: "validate_sink_specs ACTIVE_EMISSION_SINKS = Inr ()"
  by (simp add: validate_sink_specs_def ACTIVE_EMISSION_SINKS_def checked_add_def VALIDATOR_REWARD_PCT_def
      WAA_REWARD_PCT_def SRA_REWARD_PCT_def CCA_REWARD_PCT_def MERCHANT_REWARD_PCT_def PERCENT_DENOMINATOR_def)

text \<open>
  Dispatch conserves the total: a sink that keeps what it does not return adds exactly that to
  the amount received, and the terminal sink receives everything else.
\<close>

lemma dispatch_sink_conserves:
  fixes received :: "'s \<Rightarrow> nat"
  assumes law: "\<And>i a s u s'. ap i a s = Inr (u, s') \<Longrightarrow> u \<le> a \<Longrightarrow> received s' + unat u = received s + unat a"
    and "unat ex + amount_sum as < 2 ^ 256" "fold (dispatch_sink ap) as (ex, s) = (ex', s')"
  shows "received s' + unat ex' = received s + unat ex + amount_sum as \<and> unat ex' \<le> unat ex + amount_sum as"
  using assms(2,3)
proof (induction as arbitrary: ex s)
  case (Cons a as)
  obtain ex1 s1 where one: "dispatch_sink ap a (ex, s) = (ex1, s1)" by (cases "dispatch_sink ap a (ex, s)")
  have sum: "amount_sum (a # as) = unat (alloc_amount a) + amount_sum as" by (simp add: amount_sum_def)
  have add: "unat (ex + x) = unat ex + unat x" if "unat x \<le> unat (alloc_amount a)" for x
    using that Cons.prems(1) sum by (intro unat_add_exact) simp
  have "received s1 + unat ex1 = received s + unat ex + unat (alloc_amount a) \<and> unat ex1 \<le> unat ex + unat (alloc_amount a)"
  proof (cases "ap (alloc_id a) (alloc_amount a) s")
    case (Inl e)
    then show ?thesis using one add [of "alloc_amount a"] by (auto simp: dispatch_sink_def split: if_splits)
  next
    case (Inr r)
    obtain u t where r: "r = (u, t)" by (cases r)
    show ?thesis using one add [of "alloc_amount a"] add [of u] law [of "alloc_id a" "alloc_amount a" s u t] Inr r
      by (auto simp: dispatch_sink_def word_le_nat_alt word_less_nat_alt split: if_splits)
  qed
  with Cons.IH [of ex1 s1] Cons.prems one sum show ?case by simp
qed (simp add: amount_sum_def)

lemma dispatch_allocations_conserves:
  fixes received :: "'s \<Rightarrow> nat"
  assumes law: "\<And>i a s u s'. ap i a s = Inr (u, s') \<Longrightarrow> u \<le> a \<Longrightarrow> received s' + unat u = received s + unat a"
    and "amount_sum as < 2 ^ 256" "dispatch_allocations ap as s = Inr s'"
  shows "received s' = received s + amount_sum as"
proof (cases "as = []")
  case True
  then show ?thesis using assms(3) by (simp add: dispatch_allocations_def amount_sum_def)
next
  case False
  obtain ex s1 where f: "fold (dispatch_sink ap) (butlast as) (0, s) = (ex, s1)"
    by (cases "fold (dispatch_sink ap) (butlast as) (0, s)")
  have "amount_sum (butlast as @ [last as]) = amount_sum (butlast as) + unat (alloc_amount (last as))"
    by (simp add: amount_sum_def)
  then have sum: "amount_sum as = amount_sum (butlast as) + unat (alloc_amount (last as))" using False by simp
  have c: "received s1 + unat ex = received s + amount_sum (butlast as)" "unat ex \<le> amount_sum (butlast as)"
    using dispatch_sink_conserves [where ap = ap and received = received, OF law _ f] assms(2) sum by simp_all
  let ?t = "alloc_amount (last as) + ex"
  have t: "unat ?t = unat (alloc_amount (last as)) + unat ex"
    using c(2) sum assms(2) by (intro unat_add_exact) simp
  show ?thesis
  proof (cases "?t = 0")
    case True
    then have "s1 = s'" using assms(3) False f by (simp add: dispatch_allocations_def Let_def)
    then show ?thesis using t True c sum by simp
  next
    case nz: False
    then have "ap (alloc_id (last as)) ?t s1 = Inr (0, s')"
      using assms(3) False f by (auto simp: dispatch_allocations_def Let_def and_then_eq_Inr split: if_splits)
    then have "received s' = received s1 + unat ?t" using law [of "alloc_id (last as)" ?t s1 0 s'] by simp
    then show ?thesis using t c sum by simp
  qed
qed

end
