(* ===== verification/Emission_Curve.thy ===== *)
theory Emission_Curve
  imports Emission
begin

text \<open>
  The daily emission curve is accurate: the fixed-point alternating Taylor sum never leaves its
  256 bits, its accumulated rounding error is below 641 units of \<open>10 ^ -18\<close>, and so the daily
  limit follows \<open>INITIAL_DAILY * exp (- k n)\<close>, never grows and stays between floor and start.
\<close>

section \<open>The curve in natural numbers\<close>

definition UNIT :: nat where "UNIT = 1000000000000000000"

fun taylor_term :: "nat \<Rightarrow> nat \<Rightarrow> nat" where
  "taylor_term x 0 = UNIT"
| "taylor_term x (Suc k) = taylor_term x k * x div (Suc k * UNIT)"

lemma unat_SCALE: "unat SCALE = UNIT" by (simp add: SCALE_def UNIT_def)

declare taylor_term.simps(2) [simp del]

lemma UNIT_pos [simp]: "0 < UNIT" by (simp add: UNIT_def)

lemma taylor_step_le:
  assumes "x \<le> 3 * UNIT" shows "taylor_term x (Suc k) \<le> taylor_term x k * 3 div Suc k"
proof -
  have "taylor_term x (Suc k) \<le> taylor_term x k * (3 * UNIT) div (Suc k * UNIT)"
    unfolding taylor_term.simps(2) by (intro div_le_mono mult_le_mono2 assms)
  also have "taylor_term x k * (3 * UNIT) = (taylor_term x k * 3) * UNIT" by simp
  also have "(taylor_term x k * 3) * UNIT div (Suc k * UNIT) = taylor_term x k * 3 div Suc k"
    by (rule div_mult_mult2) simp
  finally show ?thesis .
qed

lemma taylor_term_le: assumes "x \<le> 3 * UNIT" shows "taylor_term x k \<le> 27 * UNIT"
proof (induction k)
  case (Suc k)
  note step = taylor_step_le [OF assms]
  consider "k = 0" | "k = 1" | "2 \<le> k" by linarith
  then show ?case
  proof cases
    case 1
    then show ?thesis using step [of 0] by simp
  next
    case 2
    have "taylor_term x (Suc 0) \<le> 3 * UNIT" using step [of 0] by simp
    then have "taylor_term x (Suc 0) * 3 div 2 \<le> 9 * UNIT"
      by (intro order_trans [OF div_le_dividend]) simp
    then show ?thesis using 2 step [of 1] by (simp add: numeral_2_eq_2)
  next
    case 3
    then have "taylor_term x k * 3 div Suc k \<le> taylor_term x k * 3 div 3" by (intro div_le_mono2) auto
    then show ?thesis using step [of k] Suc by simp
  qed
qed simp

lemma taylor_term_vanish: "taylor_term x j = 0 \<Longrightarrow> j \<le> k \<Longrightarrow> taylor_term x k = 0"
  by (induction k) (auto simp: le_Suc_eq taylor_term.simps(2))

definition pos_from :: "nat \<Rightarrow> nat \<Rightarrow> nat" where
  "pos_from x j = (\<Sum>k\<leftarrow>filter even [j..<32]. taylor_term x k)"
definition neg_from :: "nat \<Rightarrow> nat \<Rightarrow> nat" where
  "neg_from x j = (\<Sum>k\<leftarrow>filter odd [j..<32]. taylor_term x k)"

lemma from_step:
  "j < 32 \<Longrightarrow> pos_from x j = (if even j then taylor_term x j else 0) + pos_from x (Suc j)"
  "j < 32 \<Longrightarrow> neg_from x j = (if odd j then taylor_term x j else 0) + neg_from x (Suc j)"
  by (simp_all add: pos_from_def neg_from_def upt_conv_Cons)

lemma from_vanish: "taylor_term x j = 0 \<Longrightarrow> pos_from x j = 0 \<and> neg_from x j = 0"
  by (auto simp: pos_from_def neg_from_def sum_list_eq_0_iff dest: taylor_term_vanish)

lemma UNIT_word: "27 * UNIT * (3 * UNIT) < 2 ^ 256" "32 * UNIT < 2 ^ 256" "2000 * UNIT < 2 ^ 256"
  by (simp_all add: UNIT_def)

lemma unat_taylor_step:
  assumes x: "unat x_fp \<le> 3 * UNIT" and k: "k < 31" and t: "unat t = taylor_term (unat x_fp) k"
  shows "unat (t * x_fp div (word_of_nat (Suc k) * SCALE)) = taylor_term (unat x_fp) (Suc k)"
proof -
  have "unat t * unat x_fp \<le> 27 * UNIT * (3 * UNIT)" using x t taylor_term_le [OF x, of k] by (simp only: mult_le_mono)
  then have 1: "unat (t * x_fp) = unat t * unat x_fp" using UNIT_word(1) by (intro unat_mult_exact) simp
  have n: "unat (word_of_nat (Suc k) :: u256) = Suc k" using k by (intro unat_word_of_nat) simp
  have "Suc k * UNIT \<le> 32 * UNIT" using k by (intro mult_le_mono1) simp
  also note UNIT_word(2)
  finally have "unat (word_of_nat (Suc k) :: u256) * unat SCALE < 2 ^ LENGTH(256)" unfolding n unat_SCALE by simp
  then have 2: "unat (word_of_nat (Suc k) * SCALE) = Suc k * UNIT"
    by (simp only: unat_mult_exact n unat_SCALE)
  show ?thesis unfolding unat_div 1 2 t taylor_term.simps(2) ..
qed

lemma taylor_loop_nat:
  assumes "unat x_fp \<le> 3 * UNIT" "j + d = 31" "unat t = taylor_term (unat x_fp) j"
    and "unat p + d * (27 * UNIT) \<le> 2000 * UNIT" "unat n + d * (27 * UNIT) \<le> 2000 * UNIT"
  shows "\<exists>p' n'. taylor_loop x_fp [Suc j..<32] p n t = (p', n') \<and> unat p' = unat p + pos_from (unat x_fp) (Suc j) \<and>
    unat n' = unat n + neg_from (unat x_fp) (Suc j)"
  using assms(2-5)
proof (induction d arbitrary: j p n t)
  case 0
  then show ?case by (simp add: pos_from_def neg_from_def)
next
  case (Suc d)
  let ?x = "unat x_fp" and ?t = "t * x_fp div (word_of_nat (Suc j) * SCALE)"
  have j: "j < 31" using Suc.prems(1) by simp
  have t: "unat ?t = taylor_term ?x (Suc j)" using unat_taylor_step [OF assms(1) j Suc.prems(2)] .
  have le: "unat ?t \<le> 27 * UNIT" unfolding t by (rule taylor_term_le [OF assms(1)])
  have upt: "[Suc j..<32] = Suc j # [Suc (Suc j)..<32]" using j by (simp add: upt_conv_Cons)
  have p: "unat p + unat ?t + d * (27 * UNIT) \<le> 2000 * UNIT" "unat n + unat ?t + d * (27 * UNIT) \<le> 2000 * UNIT"
    using Suc.prems(3,4) le by simp_all
  then have add: "unat (p + ?t) = unat p + unat ?t" "unat (n + ?t) = unat n + unat ?t"
    using UNIT_word(3) by (auto intro!: unat_add_exact)
  have d: "Suc j + d = 31" using Suc.prems(1) by simp
  note fs = from_step [of "Suc j" ?x]
  show ?case
  proof (cases "?t = 0")
    case True
    then have "taylor_loop x_fp [Suc j..<32] p n t = (p, n)" unfolding upt by simp
    then show ?thesis using from_vanish [of ?x "Suc j"] t True by simp
  next
    case nz: False
    show ?thesis
    proof (cases "odd (Suc j)")
      case True
      then have "taylor_loop x_fp [Suc j..<32] p n t = taylor_loop x_fp [Suc (Suc j)..<32] p (n + ?t) ?t"
        unfolding upt using nz by (simp add: Let_def)
      moreover have "unat p + d * (27 * UNIT) \<le> 2000 * UNIT" "unat (n + ?t) + d * (27 * UNIT) \<le> 2000 * UNIT"
        using p add by simp_all
      ultimately show ?thesis using Suc.IH [OF d t, of p "n + ?t"] fs add t True j by auto
    next
      case False
      then have "taylor_loop x_fp [Suc j..<32] p n t = taylor_loop x_fp [Suc (Suc j)..<32] (p + ?t) n ?t"
        unfolding upt using nz by (simp add: Let_def)
      moreover have "unat (p + ?t) + d * (27 * UNIT) \<le> 2000 * UNIT" "unat n + d * (27 * UNIT) \<le> 2000 * UNIT"
        using p add by simp_all
      ultimately show ?thesis using Suc.IH [OF d t, of "p + ?t" n] fs add t False j by auto
    qed
  qed
qed

lemma exp_fixed_nat:
  assumes "unat x_fp \<le> 3 * UNIT"
  shows "unat (exp_fixed x_fp) = pos_from (unat x_fp) 0 - neg_from (unat x_fp) 0"
proof -
  obtain p n where "taylor_loop x_fp [Suc 0..<32] SCALE 0 SCALE = (p, n)" "unat p = UNIT + pos_from (unat x_fp) 1"
    "unat n = neg_from (unat x_fp) 1"
    using taylor_loop_nat [OF assms, of 0 31 SCALE SCALE 0] by (auto simp: unat_SCALE)
  moreover from this have "exp_fixed x_fp = saturating_sub p n" by (simp add: exp_fixed_def TAYLOR_TERMS_def)
  ultimately show ?thesis by (simp add: unat_saturating_sub from_step [of 0])
qed

lemma real_div_lower: "0 < b \<Longrightarrow> real a / real b - 1 \<le> real (a div b)"
proof -
  assume b: "0 < b"
  have "a < b + b * (a div b)" using b by (rule dividend_less_times_div)
  then have "real a \<le> real b + real b * real (a div b)" by (metis less_imp_le of_nat_add of_nat_le_iff of_nat_mult)
  then show ?thesis using b by (simp add: field_simps)
qed

lemma power_fact_Suc: "u * y ^ Suc k / fact (Suc k) = (u * y ^ k / fact k) * (y / real (Suc k))"
  for u y :: real
  by (simp add: mult.commute)

lemma taylor_term_upper: "real (taylor_term x k) \<le> real UNIT * (real x / real UNIT) ^ k / fact k"
proof (induction k)
  case (Suc k)
  have "real (taylor_term x (Suc k)) \<le> real (taylor_term x k * x) / real (Suc k * UNIT)"
    unfolding taylor_term.simps(2) by (rule of_nat_div_le_of_nat)
  also have "\<dots> = real (taylor_term x k) * ((real x / real UNIT) / real (Suc k))" by (simp add: field_simps)
  also have "\<dots> \<le> (real UNIT * (real x / real UNIT) ^ k / fact k) * ((real x / real UNIT) / real (Suc k))"
    using Suc by (intro mult_right_mono) simp_all
  also have "\<dots> = real UNIT * (real x / real UNIT) ^ Suc k / fact (Suc k)" by (rule power_fact_Suc [symmetric])
  finally show ?case .
qed simp

text \<open>The rounding error of a term, accumulated over the recursion.\<close>

lemma taylor_term_lower:
  assumes "3 * x \<le> 8 * UNIT + UNIT div 2"
  shows "real UNIT * (real x / real UNIT) ^ k / fact k - real (taylor_term x k) \<le> 20"
proof -
  define z where "z = real x / real UNIT"
  define e where "e k = real UNIT * z ^ k / fact k - real (taylor_term x k)" for k
  have "3 * real x \<le> 8 * real UNIT + real UNIT / 2" using assms by linarith
  then have y: "z \<le> 17 / 6" "0 \<le> z" by (simp_all add: z_def field_simps)
  have step: "e (Suc k) \<le> e k * (z / real (Suc k)) + 1" for k
  proof -
    have "real (taylor_term x k * x) / real (Suc k * UNIT) - 1 \<le> real (taylor_term x (Suc k))"
      unfolding taylor_term.simps(2) by (rule real_div_lower) simp
    moreover have "real (taylor_term x k * x) / real (Suc k * UNIT) = real (taylor_term x k) * (z / real (Suc k))"
      by (simp add: z_def field_simps)
    moreover have "real UNIT * z ^ Suc k / fact (Suc k) = (real UNIT * z ^ k / fact k) * (z / real (Suc k))"
      by (rule power_fact_Suc)
    ultimately show ?thesis unfolding e_def left_diff_distrib by linarith
  qed
  have nonneg: "0 \<le> e k" for k using taylor_term_upper [of x k] by (simp add: e_def z_def)
  have "e k \<le> 20" for k
  proof (induction k)
    case (Suc k)
    have e1: "e 1 \<le> 1" using step [of 0] by (simp add: e_def)
    consider "k = 0" | "k = 1" | "2 \<le> k" by linarith
    then show ?case
    proof cases
      case 1
      then show ?thesis using e1 by simp
    next
      case 2
      have "z / 2 \<le> 2" using y by linarith
      then have "e 1 * (z / 2) \<le> 1 * 2" using e1 nonneg [of 1] y(2) by (intro mult_mono) linarith+
      then show ?thesis using step [of 1] 2 by simp
    next
      case 3
      then have "z / real (Suc k) \<le> (17 / 6) / 3" using y by (intro frac_le) auto
      then have "e k * (z / real (Suc k)) \<le> 20 * (17 / 18)" using Suc nonneg [of k] y by (intro mult_mono) auto
      then show ?thesis using order_trans [OF step [of k] add_right_mono [of _ "20 * (17 / 18)" 1]] by simp
    qed
  qed (simp add: e_def)
  then show ?thesis by (simp add: e_def z_def)
qed

lemma pos_neg_sum:
  "real (pos_from x 0) - real (neg_from x 0) = (\<Sum>k<32. (- 1) ^ k * real (taylor_term x k))"
proof -
  have "real (\<Sum>k\<leftarrow>filter even ks. f k) - real (\<Sum>k\<leftarrow>filter odd ks. f k) = (\<Sum>k\<leftarrow>ks. (- 1) ^ k * real (f k))"
    for ks :: "nat list" and f :: "nat \<Rightarrow> nat"
    by (induction ks) auto
  then show ?thesis
    unfolding pos_from_def neg_from_def by (simp add: interv_sum_list_conv_sum_set_nat atLeast0LessThan)
qed

lemma exp3: "exp (3 :: real) \<le> 27"
proof -
  have "exp (3 :: real) = exp 1 ^ 3" by (simp add: exp_of_nat_mult [symmetric])
  also have "\<dots> \<le> 3 ^ 3" using exp_le by (intro power_mono) auto
  finally show ?thesis by simp
qed

lemma fact32_bound: "27 * 3 ^ 32 * real UNIT \<le> fact 32"
proof -
  have "27 * 3 ^ 32 * UNIT \<le> fact 32" by (simp add: UNIT_def fact_numeral)
  then have "real (27 * 3 ^ 32 * UNIT) \<le> real (fact 32)" by (rule of_nat_mono)
  then show ?thesis unfolding of_nat_mult of_nat_power of_nat_fact of_nat_numeral .
qed

lemma exp_remainder:
  assumes "0 \<le> y" "y \<le> (3 :: real)"
  shows "\<bar>exp (- y) - (\<Sum>k<32. (- y) ^ k / fact k)\<bar> * real UNIT \<le> 1"
proof -
  define S F where "S = (\<Sum>k<32. (- y) ^ k / fact k)" and "F = (fact 32 :: real)"
  obtain t where t: "\<bar>t\<bar> \<le> \<bar>- y\<bar>" "exp (- y) = S + exp t / F * (- y) ^ 32"
    using Maclaurin_exp_le [of "- y" 32] unfolding S_def F_def by blast
  have F: "0 < F" "27 * 3 ^ 32 * real UNIT \<le> F" unfolding F_def by (rule fact_gt_zero, rule fact32_bound)
  have "t \<le> 3" using t(1) assms by simp
  then have "exp t \<le> 27" by (intro order_trans [OF _ exp3]) simp
  then have "exp t * y ^ 32 \<le> 27 * 3 ^ 32" using assms by (intro mult_mono power_mono) auto
  then have "exp t * y ^ 32 * real UNIT \<le> 27 * 3 ^ 32 * real UNIT" by (rule mult_right_mono) simp
  then have "exp t * y ^ 32 * real UNIT \<le> F" using F(2) by (rule order_trans)
  then have "exp t * y ^ 32 * real UNIT / F \<le> 1" using F(1) by simp
  then have "exp t / F * y ^ 32 * real UNIT \<le> 1" by (simp only: times_divide_eq_left)
  moreover have "\<bar>exp (- y) - S\<bar> = exp t / F * y ^ 32" unfolding t(2) using assms F(1) by simp
  ultimately show ?thesis unfolding S_def [symmetric] by simp
qed

lemma exp_fixed_accuracy:
  assumes "3 * x \<le> 8 * UNIT + UNIT div 2"
  shows "\<bar>(real (pos_from x 0) - real (neg_from x 0)) - real UNIT * exp (- (real x / real UNIT))\<bar> \<le> 641"
proof -
  let ?y = "real x / real UNIT" and ?s = "real UNIT"
  have "3 * real x \<le> 8 * real UNIT + real UNIT / 2" using assms by linarith
  then have y: "0 \<le> ?y" "?y \<le> 3" by (simp_all add: field_simps)
  have "\<bar>(- 1) ^ k * real (taylor_term x k) - ?s * ((- ?y) ^ k / fact k)\<bar> \<le> 20" for k
  proof -
    have "(- 1) ^ k * real (taylor_term x k) - ?s * ((- ?y) ^ k / fact k) =
      (- 1) ^ k * (real (taylor_term x k) - ?s * ?y ^ k / fact k)"
      by (simp add: power_minus [of ?y] right_diff_distrib)
    then have "\<bar>(- 1) ^ k * real (taylor_term x k) - ?s * ((- ?y) ^ k / fact k)\<bar> =
      \<bar>real (taylor_term x k) - ?s * ?y ^ k / fact k\<bar>" by (simp add: abs_mult power_abs)
    then show ?thesis using taylor_term_lower [OF assms, of k] taylor_term_upper [of x k] by linarith
  qed
  then have "\<bar>\<Sum>k<32. (- 1) ^ k * real (taylor_term x k) - ?s * ((- ?y) ^ k / fact k)\<bar> \<le> (\<Sum>k<(32::nat). 20)"
    by (intro order_trans [OF sum_abs] sum_mono) blast
  then have "\<bar>(\<Sum>k<32. (- 1) ^ k * real (taylor_term x k)) - ?s * (\<Sum>k<32. (- ?y) ^ k / fact k)\<bar> \<le> 640"
    by (simp add: sum_subtractf sum_distrib_left)
  moreover have "\<bar>?s * (\<Sum>k<32. (- ?y) ^ k / fact k) - ?s * exp (- ?y)\<bar> \<le> 1"
    using exp_remainder [OF y] by (simp add: right_diff_distrib [symmetric] abs_mult abs_minus_commute mult.commute)
  ultimately show ?thesis unfolding pos_neg_sum by linarith
qed

section \<open>The curve by days\<close>

definition day_x :: "nat \<Rightarrow> nat" where "day_x n = 949520000000000 * n"

definition day_exp :: "nat \<Rightarrow> nat" where "day_exp n = pos_from (day_x n) 0 - neg_from (day_x n) 0"

definition decay :: "nat \<Rightarrow> real" where "decay n = exp (- (94952 / 100000000 * real n))"

lemma day_x_ratio: "real (day_x n) / real UNIT = 94952 / 100000000 * real n"
  by (simp add: day_x_def UNIT_def)

lemma day_x_le: "n < 2920 \<Longrightarrow> 3 * day_x n \<le> 8 * UNIT + UNIT div 2"
proof -
  assume "n < 2920"
  then have "3 * day_x n \<le> 3 * (949520000000000 * 2919)" by (simp add: day_x_def)
  also have "\<dots> \<le> 8 * UNIT + UNIT div 2" by (simp add: UNIT_def)
  finally show ?thesis .
qed

lemma decay_lower: "n < 2920 \<Longrightarrow> 1 / 27 \<le> decay n"
proof -
  assume "n < 2920"
  then have "exp (94952 / 100000000 * real n) \<le> exp 3" by simp
  then have "exp (94952 / 100000000 * real n) \<le> 27" using exp3 by linarith
  then have "1 / 27 \<le> 1 / exp (94952 / 100000000 * real n)" by (intro divide_left_mono) auto
  then show ?thesis by (simp add: decay_def exp_minus inverse_eq_divide)
qed

lemma day_exp_accuracy:
  assumes "n < 2920" shows "\<bar>real (day_exp n) - real UNIT * decay n\<bar> \<le> 641"
proof -
  have a: "\<bar>(real (pos_from (day_x n) 0) - real (neg_from (day_x n) 0)) - real UNIT * decay n\<bar> \<le> 641"
    using exp_fixed_accuracy [OF day_x_le [OF assms]] unfolding day_x_ratio decay_def .
  have "1000 \<le> real UNIT * decay n" using decay_lower [OF assms] by (simp add: UNIT_def)
  with a have "real (neg_from (day_x n) 0) \<le> real (pos_from (day_x n) 0)" by linarith
  then have "real (day_exp n) = real (pos_from (day_x n) 0) - real (neg_from (day_x n) 0)"
    by (simp add: day_exp_def of_nat_diff)
  with a show ?thesis by simp
qed

lemma decay_Suc: "decay (Suc n) = decay n * exp (- (94952 / 100000000))"
  by (simp add: decay_def exp_add [symmetric] field_simps)

lemma day_exp_Suc:
  assumes "Suc n < 2920" shows "day_exp (Suc n) \<le> day_exp n"
proof -
  have "exp (- (94952 / 100000000)) \<le> (1 :: real) - 9 / 10000"
  proof -
    have "1 + 94952 / 100000000 \<le> exp (94952 / 100000000 :: real)" by (rule exp_ge_add_one_self)
    then have "inverse (exp (94952 / 100000000 :: real)) \<le> inverse (1 + 94952 / 100000000)"
      by (intro le_imp_inverse_le) auto
    then show ?thesis by (simp add: exp_minus)
  qed
  then have "decay (Suc n) \<le> decay n * (1 - 9 / 10000)"
    unfolding decay_Suc by (intro mult_left_mono) (simp_all add: decay_def)
  then have "decay (Suc n) \<le> decay n - 1 / 27 * (9 / 10000)" using decay_lower [of n] assms by simp
  then have "real UNIT * decay (Suc n) \<le> real UNIT * (decay n - 1 / 27 * (9 / 10000))" by (intro mult_left_mono) auto
  also have "\<dots> = real UNIT * decay n - 100000000000000 / 3" by (simp add: UNIT_def right_diff_distrib)
  finally have "real (day_exp (Suc n)) \<le> real (day_exp n)"
    using day_exp_accuracy [of n] day_exp_accuracy [of "Suc n"] assms by linarith
  then show ?thesis by simp
qed

lemma day_exp_mono: assumes "n \<le> m" "m < 2920" shows "day_exp m \<le> day_exp n"
  using assms
proof (induction m)
  case (Suc m)
  then show ?case using day_exp_Suc [of m] by (cases "n = Suc m") auto
qed simp

lemma taylor_term_0: "0 < k \<Longrightarrow> taylor_term 0 k = 0"
  by (cases k) (simp_all add: taylor_term.simps(2))

lemma day_exp_0: "day_exp 0 = UNIT"
  using from_vanish [of 0 1] by (simp add: day_exp_def day_x_def from_step [of 0] taylor_term_0)

lemma day_x_word:
  assumes "d < FLOOR_DAY_THRESHOLD"
  shows "unat (K_NUM * ucast d * SCALE div K_DEN) = day_x (unat d)"
proof -
  have d: "unat d < 2920" using assms by (simp add: FLOOR_DAY_THRESHOLD_def word_less_nat_alt)
  have 1: "unat (K_NUM * ucast d) = 94952 * unat d"
    using d by (subst unat_mult_exact) (simp_all add: K_NUM_def)
  have "94952 * unat d * UNIT \<le> 94952 * 2920 * UNIT" using d by (intro mult_le_mono1 mult_le_mono2) simp
  also have "\<dots> < 2 ^ 256" by (simp add: UNIT_def)
  finally have 2: "unat (K_NUM * ucast d * SCALE) = 94952 * unat d * UNIT"
    by (subst unat_mult_exact) (simp_all add: 1 unat_SCALE)
  have "94952 * unat d * UNIT = (949520000000000 * unat d) * 100000000" by (simp add: UNIT_def)
  moreover have "unat K_DEN = 100000000" by (simp add: K_DEN_def)
  ultimately show ?thesis unfolding unat_div 2 day_x_def by (simp only: nonzero_mult_div_cancel_right)
qed

lemma day_limit_nat:
  assumes "d < FLOOR_DAY_THRESHOLD"
  shows "unat (day_emission_limit d) = max (unat FLOOR_DAILY) (unat INITIAL_DAILY * day_exp (unat d) div UNIT)"
proof -
  have d: "unat d < 2920" using assms by (simp add: FLOOR_DAY_THRESHOLD_def word_less_nat_alt)
  let ?x = "K_NUM * ucast d * SCALE div K_DEN"
  have x: "unat ?x = day_x (unat d)" by (rule day_x_word [OF assms])
  have "unat ?x \<le> 3 * UNIT" using day_x_le [OF d] unfolding x by simp
  then have e: "unat (exp_fixed ?x) = day_exp (unat d)" by (simp add: exp_fixed_nat x day_exp_def)
  have "day_exp (unat d) \<le> UNIT" using day_exp_mono [of 0 "unat d"] d day_exp_0 by simp
  then have "unat INITIAL_DAILY * day_exp (unat d) \<le> unat INITIAL_DAILY * UNIT" by (rule mult_le_mono2)
  also have "\<dots> < 2 ^ LENGTH(256)" by (simp add: INITIAL_DAILY_def UNIT_def)
  finally have r: "unat (INITIAL_DAILY * exp_fixed ?x div SCALE) = unat INITIAL_DAILY * day_exp (unat d) div UNIT"
    by (simp only: unat_div unat_SCALE unat_mult_exact e)
  show ?thesis using assms r unfolding day_emission_limit_def Let_def
    by (simp add: word_less_nat_alt word_le_nat_alt max_def)
qed

lemma day_limit_floor: "FLOOR_DAY_THRESHOLD \<le> d \<Longrightarrow> day_emission_limit d = FLOOR_DAILY"
  by (simp add: day_emission_limit_def)

lemma day_limit_range: "FLOOR_DAILY \<le> day_emission_limit d" "day_emission_limit d \<le> INITIAL_DAILY"
proof -
  have fi: "FLOOR_DAILY \<le> INITIAL_DAILY" by (simp add: FLOOR_DAILY_def INITIAL_DAILY_def)
  show "FLOOR_DAILY \<le> day_emission_limit d"
    by (cases "d < FLOOR_DAY_THRESHOLD") (simp_all add: day_limit_nat day_limit_floor word_le_nat_alt not_less)
  show "day_emission_limit d \<le> INITIAL_DAILY"
  proof (cases "d < FLOOR_DAY_THRESHOLD")
    case True
    then have d: "unat d < 2920" by (simp add: FLOOR_DAY_THRESHOLD_def word_less_nat_alt)
    have "day_exp (unat d) \<le> UNIT" using day_exp_mono [of 0 "unat d"] d day_exp_0 by simp
    then have "unat INITIAL_DAILY * day_exp (unat d) div UNIT \<le> unat INITIAL_DAILY * UNIT div UNIT"
      by (intro div_le_mono mult_le_mono2)
    then show ?thesis using fi by (simp add: word_le_nat_alt day_limit_nat [OF True])
  qed (simp add: day_limit_floor fi)
qed

lemma day_limit_antimono: assumes "d \<le> e" shows "day_emission_limit e \<le> day_emission_limit d"
proof (cases "e < FLOOR_DAY_THRESHOLD")
  case True
  then have d: "d < FLOOR_DAY_THRESHOLD" using assms by simp
  have "unat e < 2920" using True by (simp add: FLOOR_DAY_THRESHOLD_def word_less_nat_alt)
  then have "day_exp (unat e) \<le> day_exp (unat d)" using assms by (intro day_exp_mono) (simp_all add: word_le_nat_alt)
  then show ?thesis unfolding word_le_nat_alt day_limit_nat [OF True] day_limit_nat [OF d]
    by (intro max.mono div_le_mono mult_le_mono2) simp_all
next
  case False
  then show ?thesis using day_limit_range(1) by (simp add: day_limit_floor)
qed

lemma day_limit_accuracy:
  assumes "d < FLOOR_DAY_THRESHOLD"
  shows "\<bar>real (unat (day_emission_limit d)) - max (real (unat FLOOR_DAILY)) (real (unat INITIAL_DAILY) * decay (unat d))\<bar>
    \<le> 10 ^ 12"
proof -
  have d: "unat d < 2920" using assms by (simp add: FLOOR_DAY_THRESHOLD_def word_less_nat_alt)
  define I where "I = real (unat INITIAL_DAILY)"
  have I: "I = 1073741824 * real UNIT" by (simp add: I_def INITIAL_DAILY_def UNIT_def)
  let ?q = "unat INITIAL_DAILY * day_exp (unat d) div UNIT"
  have "real (unat INITIAL_DAILY * day_exp (unat d)) / real UNIT = 1073741824 * real (day_exp (unat d))"
    by (simp add: INITIAL_DAILY_def UNIT_def)
  then have "real ?q \<le> 1073741824 * real (day_exp (unat d))" "1073741824 * real (day_exp (unat d)) - 1 \<le> real ?q"
    using of_nat_div_le_of_nat [of "unat INITIAL_DAILY * day_exp (unat d)" UNIT, where 'a = real]
      real_div_lower [of UNIT "unat INITIAL_DAILY * day_exp (unat d)"] by simp_all
  moreover have "\<bar>1073741824 * real (day_exp (unat d)) - I * decay (unat d)\<bar> \<le> 1073741824 * 641"
    using day_exp_accuracy [OF d] unfolding I by (simp add: abs_le_iff)
  ultimately have "\<bar>real ?q - I * decay (unat d)\<bar> \<le> 10 ^ 12" by (simp add: abs_le_iff)
  then show ?thesis unfolding day_limit_nat [OF assms] of_nat_max I_def [symmetric] by (simp add: max_def abs_le_iff)
qed

section \<open>Properties\<close>

text \<open>
  C11. The daily emission limit never increases from one day to a later one, always lies between
  the floor and the initial emission, and before the floor day it differs from the closed form
  \<open>max FLOOR (INITIAL * exp (- 9.4952e-4 * day))\<close> by at most \<open>10 ^ 12\<close> base units (a millionth of a
  token).
\<close>

theorem emission_curve_correct:
  "(d \<le> e \<longrightarrow> day_emission_limit e \<le> day_emission_limit d) \<and>
   FLOOR_DAILY \<le> day_emission_limit d \<and> day_emission_limit d \<le> INITIAL_DAILY \<and>
   (d < FLOOR_DAY_THRESHOLD \<longrightarrow>
     \<bar>real (unat (day_emission_limit d)) -
      max (real (unat FLOOR_DAILY)) (real (unat INITIAL_DAILY) * exp (- (94952 / 100000000 * real (unat d))))\<bar> \<le> 10 ^ 12)"
  using day_limit_antimono [of d e] day_limit_range [of d] day_limit_accuracy [of d] unfolding decay_def by blast

theorem emission_curve_correct_witness:
  "day_emission_limit 365 \<le> day_emission_limit 0 \<and> day_emission_limit 0 = INITIAL_DAILY \<and>
   \<bar>real (unat (day_emission_limit 0)) - max (real (unat FLOOR_DAILY)) (real (unat INITIAL_DAILY))\<bar> \<le> 10 ^ 12"
proof -
  have "unat (day_emission_limit 0) = unat INITIAL_DAILY"
    by (simp add: day_limit_nat FLOOR_DAY_THRESHOLD_def day_exp_0 FLOOR_DAILY_def INITIAL_DAILY_def)
  then have "day_emission_limit 0 = INITIAL_DAILY" by (simp add: word_unat_eq_iff)
  moreover have "\<bar>real (unat (day_emission_limit 0)) - max (real (unat FLOOR_DAILY)) (real (unat INITIAL_DAILY))\<bar> \<le> 10 ^ 12"
    using emission_curve_correct [of 0 365] by (simp add: FLOOR_DAY_THRESHOLD_def)
  moreover have "day_emission_limit 365 \<le> day_emission_limit 0" using emission_curve_correct [of 0 365] by simp
  ultimately show ?thesis by simp
qed

end
