(* ===== verification/Rewards.thy ===== *)
theory Rewards
  imports Slash_Indicator Emission
begin

text \<open>
  The rewards module (\<^verbatim>\<open>crates/system/rewards/src\<close>): genesis day anchor, metadata fingerprint guard,
  the hook run for every finalized parent, and the escrow of a block's fees with its settlement at
  the end of the inclusion window. The state extends the slashing world by the rewards and the
  Metadosis contracts.
\<close>

section \<open>State\<close>

definition REWARDS_ADDRESS :: address where "REWARDS_ADDRESS = 0xEE03"

record rewards =
  rw_genesis_utc_day :: u32
  participation_counted_for_block :: "b256 \<Rightarrow> address \<Rightarrow> bool"
  daily_fee_sum_raw :: "u32 \<Rightarrow> u256"
  daily_fees_paid :: "u32 \<Rightarrow> u256"
  daily_fee_dust :: "u32 \<Rightarrow> u256"
  daily_participation :: "u32 \<Rightarrow> address \<Rightarrow> u64"
  daily_total_participation :: "u32 \<Rightarrow> u64"
  daily_voter_count :: "u32 \<Rightarrow> u32"
  daily_voter_at :: "u32 \<Rightarrow> u32 \<Rightarrow> address"
  daily_settled :: "u32 \<Rightarrow> bool"
  max_observed_finalized_day :: u32
  last_settled_utc_day :: u32
  block_metadata_counted :: "b256 \<Rightarrow> bool"
  metadata_fingerprint_for_block :: "b256 \<Rightarrow> b256"
  fee_dust_counted_for_block :: "b256 \<Rightarrow> bool"
  daily_topup_settled :: "u32 \<Rightarrow> bool"
  pending_fees :: "b256 \<Rightarrow> u256"
  fee_settled :: "b256 \<Rightarrow> bool"
  late_voter_k_plus1 :: "b256 \<Rightarrow> address \<Rightarrow> u8"
  late_voter_count :: "b256 \<Rightarrow> u32"
  late_voter_at :: "b256 \<Rightarrow> u32 \<Rightarrow> address"
  pending_fb_hash_at :: "u64 \<Rightarrow> b256"
  pending_committee_size_at :: "u64 \<Rightarrow> u32"
  pending_epoch_at :: "u64 \<Rightarrow> u64"
  pending_committee_set_hash_at :: "u64 \<Rightarrow> b256"
  pending_view_at :: "u64 \<Rightarrow> u64"
  pending_parent_view_at :: "u64 \<Rightarrow> u64"
  block_guard_ring :: "u64 \<Rightarrow> b256"
  block_guard_ring_seq :: u64

record reward_world = slash_world +
  rewards :: rewards
  metadosis :: metadosis

definition upd_rewards :: "(rewards \<Rightarrow> rewards) \<Rightarrow> 'a reward_world_scheme \<Rightarrow> 'a reward_world_scheme" where
  "upd_rewards f w = w\<lparr>rewards := f (rewards w)\<rparr>"

section \<open>Genesis day\<close>

definition ensure_genesis_anchor :: "exec_env \<Rightarrow> rewards \<Rightarrow> u32 \<times> rewards" where
  "ensure_genesis_anchor env r =
     (if rw_genesis_utc_day r \<noteq> 0 then (rw_genesis_utc_day r, r)
      else let d = timestamp_to_date_key (env_timestamp env) in (d, r\<lparr>rw_genesis_utc_day := d\<rparr>))"

definition genesis_utc_day :: "rewards \<Rightarrow> u32 result" where
  "genesis_utc_day r =
     (if rw_genesis_utc_day r = 0 then Inl (Revert ''Rewards.genesis_utc_day not initialized'')
      else Inr (rw_genesis_utc_day r))"

definition day_number_since_genesis :: "rewards \<Rightarrow> u32 \<Rightarrow> u32 result" where
  "day_number_since_genesis r utc_day =
     and_then (genesis_utc_day r) (\<lambda>genesis.
       case day_number_between genesis utc_day of
         Inl (PreGenesis _ _) \<Rightarrow> Inl (Revert ''finalized block predates genesis'')
       | Inr n \<Rightarrow> Inr n)"

definition rewards_begin_block :: "exec_env \<Rightarrow> rewards \<Rightarrow> rewards" where
  "rewards_begin_block env r = snd (ensure_genesis_anchor env r)"

section \<open>Fingerprint\<close>

datatype metadata_fingerprint_outcome = Fresh | IdenticalReplay

definition FINGERPRINT_DOMAIN :: bytes where
  "FINGERPRINT_DOMAIN = ascii ''OUTBE_METADATA_FINGERPRINT_V3''"

definition write_addr_list :: "address list \<Rightarrow> bytes" where
  "write_addr_list xs =
     to_be_bytes 8 (word_of_nat (length xs) :: u64) @ concat (map (to_be_bytes 20) xs)"

definition fingerprint_preimage :: "crypto \<Rightarrow> certified_parent_metadata \<Rightarrow> u256 \<Rightarrow> b256 \<Rightarrow> bytes" where
  "fingerprint_preimage c md validator_fee_sum canonical_vrf_proof_hash =
     FINGERPRINT_DOMAIN @ finalized_block_hash md @
     to_be_bytes 8 (finalized_block_number md) @ to_be_bytes 8 (finalized_epoch md) @
     to_be_bytes 8 (finalized_view md) @ write_addr_list (ordered_committee md) @
     canonical_signer_set_hash c (signer_bitmap md) @ metadata_committee_set_hash md @
     to_be_bytes 8 (metadata_vrf_material_version md) @ vrf_group_public_key_hash md @
     canonical_vrf_proof_hash @ [proof_tag (proof_kind md)] @
     to_be_bytes 8 (word_of_nat (length (missed_proposers md)) :: u64) @
     concat (map (\<lambda>ev. to_be_bytes 20 (missed_validator ev)) (missed_proposers md)) @
     to_be_bytes 32 validator_fee_sum"

definition compute_metadata_fingerprint :: "crypto \<Rightarrow> certified_parent_metadata \<Rightarrow> u256 \<Rightarrow> b256 \<Rightarrow> b256" where
  "compute_metadata_fingerprint c md validator_fee_sum canonical_vrf_proof_hash =
     keccak256 c (fingerprint_preimage c md validator_fee_sum canonical_vrf_proof_hash)"

definition check_and_record_metadata_fingerprint ::
  "crypto \<Rightarrow> certified_parent_metadata \<Rightarrow> u256 \<Rightarrow> b256 \<Rightarrow> rewards \<Rightarrow> (metadata_fingerprint_outcome \<times> rewards) result" where
  "check_and_record_metadata_fingerprint c md validator_fee_sum canonical_vrf_proof_hash r =
     (let fb = finalized_block_hash md;
          fp = compute_metadata_fingerprint c md validator_fee_sum canonical_vrf_proof_hash;
          prev = metadata_fingerprint_for_block r fb
      in if prev = B256_ZERO
         then Inr (Fresh, r\<lparr>metadata_fingerprint_for_block := (metadata_fingerprint_for_block r)(fb := fp)\<rparr>)
         else if prev = fp then Inr (IdenticalReplay, r)
         else Inl (Revert ''contradictory consensus metadata''))"

section \<open>Decay weights\<close>

definition LATE_FINALIZE_DECAY :: "u256 list" where "LATE_FINALIZE_DECAY = [100, 100, 100, 0]"
definition LATE_FINALIZE_W_MAX :: u256 where "LATE_FINALIZE_W_MAX = LATE_FINALIZE_DECAY ! 0"

definition decay_weight :: "u64 \<Rightarrow> u256" where
  "decay_weight k = (if unat k < length LATE_FINALIZE_DECAY then LATE_FINALIZE_DECAY ! unat k else 0)"

definition saturating_mul :: "'n::len word \<Rightarrow> 'n word \<Rightarrow> 'n word" where
  "saturating_mul a b = (case checked_mul a b of Some c \<Rightarrow> c | None \<Rightarrow> - 1)"

definition fixed_denominator :: "u64 \<Rightarrow> u256" where
  "fixed_denominator committee_size = saturating_mul (ucast committee_size) LATE_FINALIZE_W_MAX"

section \<open>Escrow and credits\<close>

definition record_late_credit :: "b256 \<Rightarrow> address \<Rightarrow> u8 \<Rightarrow> rewards \<Rightarrow> rewards result" where
  "record_late_credit fb voter k r =
     (if fee_settled r fb then Inr r
      else
        let kmap = late_voter_k_plus1 r fb; st = kmap voter
        in if st = 0
           then
             let idx = late_voter_count r fb
             in case checked_add idx 1 of
                  None \<Rightarrow> Inl (Revert ''late_voter_count overflow'')
                | Some n \<Rightarrow>
                    Inr (r\<lparr>late_voter_at := (late_voter_at r)(fb := (late_voter_at r fb)(idx := voter)),
                           late_voter_count := (late_voter_count r)(fb := n),
                           late_voter_k_plus1 := (late_voter_k_plus1 r)(fb := kmap(voter := k + 1))\<rparr>)
           else if k < st - 1
           then Inr (r\<lparr>late_voter_k_plus1 := (late_voter_k_plus1 r)(fb := kmap(voter := k + 1))\<rparr>)
           else Inr r)"

definition escrow_block_fee ::
  "u64 \<Rightarrow> b256 \<Rightarrow> u256 \<Rightarrow> u32 \<Rightarrow> u64 \<Rightarrow> u64 \<Rightarrow> u64 \<Rightarrow> b256 \<Rightarrow> address list \<Rightarrow> rewards \<Rightarrow> rewards result" where
  "escrow_block_fee fb_num fb fee_sum committee_size epoch view p_view set_hash base_voters r =
     (if fee_settled r fb then Inr r
      else fold_res (\<lambda>voter. record_late_credit fb voter 0) base_voters
        (r\<lparr>pending_fees := (pending_fees r)(fb := fee_sum),
           pending_fb_hash_at := (pending_fb_hash_at r)(fb_num := fb),
           pending_committee_size_at := (pending_committee_size_at r)(fb_num := committee_size),
           pending_epoch_at := (pending_epoch_at r)(fb_num := epoch),
           pending_view_at := (pending_view_at r)(fb_num := view),
           pending_parent_view_at := (pending_parent_view_at r)(fb_num := p_view),
           pending_committee_set_hash_at := (pending_committee_set_hash_at r)(fb_num := set_hash)\<rparr>))"

section \<open>Settlement\<close>

text \<open>One turn of the payment loop; the accumulator is the distributed sum and the world.\<close>

definition pay_voter ::
  "b256 \<Rightarrow> u256 \<Rightarrow> u256 \<Rightarrow> address \<Rightarrow> u256 \<times> 'a reward_world_scheme \<Rightarrow> (u256 \<times> 'a reward_world_scheme) result" where
  "pay_voter fb pending denominator voter = (\<lambda>(distributed, w).
     let st = late_voter_k_plus1 (rewards w) fb voter
     in if st = 0 then Inr (distributed, w)
        else
          let weight = decay_weight (ucast (st - 1))
          in if weight = 0 then Inr (distributed, w)
             else case checked_mul pending weight of
               None \<Rightarrow> Inl (Revert ''late payout multiply overflow'')
             | Some pw \<Rightarrow>
                 let amount = pw div denominator
                 in if amount = 0 then Inr (distributed, w)
                    else and_then (transfer_balance REWARDS_ADDRESS voter amount w) (\<lambda>w.
                      case checked_add distributed amount of
                        None \<Rightarrow> Inl (Revert ''late distributed overflow'')
                      | Some d \<Rightarrow> Inr (d, w)))"

text \<open>Freeing of the window's per-voter state.\<close>

definition free_slot :: "b256 \<Rightarrow> u32 \<Rightarrow> rewards \<Rightarrow> rewards" where
  "free_slot fb idx r =
     (let voter = late_voter_at r fb idx
      in r\<lparr>late_voter_k_plus1 := (late_voter_k_plus1 r)(fb := (late_voter_k_plus1 r fb)(voter := 0)),
           late_voter_at := (late_voter_at r)(fb := (late_voter_at r fb)(idx := 0)),
           participation_counted_for_block := (participation_counted_for_block r)
             (fb := (participation_counted_for_block r fb)(voter := False))\<rparr>)"

definition free_window :: "b256 \<Rightarrow> rewards \<Rightarrow> rewards" where
  "free_window fb r =
     (let n = late_voter_count r fb;
          r = fold (free_slot fb) (map word_of_nat [0..<unat n]) (r\<lparr>fee_settled := (fee_settled r)(fb := True)\<rparr>)
      in r\<lparr>late_voter_count := (late_voter_count r)(fb := 0),
           pending_fees := (pending_fees r)(fb := 0)\<rparr>)"

text \<open>The residue is burned and recycled into terminal emission.\<close>

definition recycle_residue :: "exec_env \<Rightarrow> u256 \<Rightarrow> 'a reward_world_scheme \<Rightarrow> 'a reward_world_scheme result" where
  "recycle_residue env residue w =
     (if residue = 0 then Inr w
      else and_then (decrease_balance REWARDS_ADDRESS residue w) (\<lambda>w.
           and_then (dispatch_terminal_remainder_at (env_block_number env) residue (env_timestamp env) (metadosis w)) (\<lambda>m.
             Inr (w\<lparr>metadosis := m\<rparr>))))"

definition settle_window ::
  "exec_env \<Rightarrow> b256 \<Rightarrow> u64 \<Rightarrow> 'a reward_world_scheme \<Rightarrow> ((u256 \<times> u256) \<times> 'a reward_world_scheme) result" where
  "settle_window env fb committee_size w =
     (let r = rewards w
      in if fee_settled r fb then Inr ((0, 0), w)
         else
           let pending = pending_fees r fb; denominator = fixed_denominator committee_size
           in if denominator = 0 then Inl (Revert ''late settle denominator is zero (empty committee)'')
              else and_then (fold_res (pay_voter fb pending denominator)
                     (stored (late_voter_count r fb) (late_voter_at r fb)) (0, w)) (\<lambda>(distributed, w).
                case checked_sub pending distributed of
                  None \<Rightarrow> Inl (Revert ''late settle insolvent: distributed exceeds escrow'')
                | Some residue \<Rightarrow>
                    and_then (recycle_residue env residue w) (\<lambda>w.
                    case checked_add distributed residue of
                      None \<Rightarrow> Inl (Revert ''late parity overflow'')
                    | Some s \<Rightarrow>
                        if s \<noteq> pending then Inl (Revert ''late settle parity violated'')
                        else Inr ((distributed, residue), upd_rewards (free_window fb) w))))"

definition free_number :: "u64 \<Rightarrow> rewards \<Rightarrow> rewards" where
  "free_number n r =
     r\<lparr>pending_fb_hash_at := (pending_fb_hash_at r)(n := B256_ZERO),
       pending_committee_size_at := (pending_committee_size_at r)(n := 0),
       pending_epoch_at := (pending_epoch_at r)(n := 0),
       pending_view_at := (pending_view_at r)(n := 0),
       pending_parent_view_at := (pending_parent_view_at r)(n := 0),
       pending_committee_set_hash_at := (pending_committee_set_hash_at r)(n := B256_ZERO)\<rparr>"

definition settle_matured ::
  "exec_env \<Rightarrow> u64 \<Rightarrow> u64 \<Rightarrow> 'a reward_world_scheme \<Rightarrow> ((u256 \<times> u256) \<times> 'a reward_world_scheme) result" where
  "settle_matured env current_block window_k w =
     (case checked_sub current_block window_k of
        None \<Rightarrow> Inr ((0, 0), w)
      | Some n \<Rightarrow>
          if n = 0 then Inr ((0, 0), w)
          else
            let fb = pending_fb_hash_at (rewards w) n
            in if fb = B256_ZERO then Inr ((0, 0), w)
               else and_then (settle_window env fb (ucast (pending_committee_size_at (rewards w) n)) w) (\<lambda>(res, w).
                 Inr (res, upd_rewards (free_number n) w)))"

record window_close_info =
  wc_fb_hash :: b256
  wc_epoch :: u64
  wc_committee_set_hash :: b256
  wc_credited :: "address list"

definition window_close_credited :: "rewards \<Rightarrow> u64 \<Rightarrow> window_close_info option" where
  "window_close_credited r n =
     (let fb = pending_fb_hash_at r n
      in if fb = B256_ZERO then None
         else Some \<lparr>wc_fb_hash = fb, wc_epoch = pending_epoch_at r n,
                    wc_committee_set_hash = pending_committee_set_hash_at r n,
                    wc_credited = stored (late_voter_count r fb) (late_voter_at r fb)\<rparr>)"

section \<open>The finalized-metadata hook\<close>

definition BLOCK_GUARD_RETAIN :: u64 where "BLOCK_GUARD_RETAIN = 64"

definition prune_block_guards :: "b256 \<Rightarrow> rewards \<Rightarrow> rewards result" where
  "prune_block_guards fb r =
     (let seq = block_guard_ring_seq r;
          idx = seq mod BLOCK_GUARD_RETAIN;
          evicted = block_guard_ring r idx;
          r = (if evicted \<noteq> B256_ZERO \<and> evicted \<noteq> fb
               then r\<lparr>block_metadata_counted := (block_metadata_counted r)(evicted := False),
                      metadata_fingerprint_for_block := (metadata_fingerprint_for_block r)(evicted := B256_ZERO),
                      fee_dust_counted_for_block := (fee_dust_counted_for_block r)(evicted := False),
                      fee_settled := (fee_settled r)(evicted := False)\<rparr>
               else r);
          r = r\<lparr>block_guard_ring := (block_guard_ring r)(idx := fb)\<rparr>
      in case checked_add seq 1 of
           None \<Rightarrow> Inl (Revert ''block_guard_ring_seq overflow'')
         | Some seq' \<Rightarrow> Inr (r\<lparr>block_guard_ring_seq := seq'\<rparr>))"

definition count_participation :: "b256 \<Rightarrow> u32 \<Rightarrow> address \<Rightarrow> rewards \<Rightarrow> rewards result" where
  "count_participation fb day voter r =
     (if participation_counted_for_block r fb voter then Inr r
      else
        let prev = daily_participation r day voter
        in and_then
             (if prev = 0
              then let idx = daily_voter_count r day
                   in case checked_add idx 1 of
                        None \<Rightarrow> Inl (Revert ''daily_voter_count overflow'')
                      | Some n \<Rightarrow>
                          Inr (r\<lparr>daily_voter_at := (daily_voter_at r)(day := (daily_voter_at r day)(idx := voter)),
                                 daily_voter_count := (daily_voter_count r)(day := n)\<rparr>)
              else Inr r) (\<lambda>r.
           case checked_add prev 1 of
             None \<Rightarrow> Inl (Revert ''daily_participation overflow'')
           | Some n \<Rightarrow>
               (case checked_add (daily_total_participation r day) 1 of
                  None \<Rightarrow> Inl (Revert ''daily_total_participation overflow'')
                | Some t \<Rightarrow>
                    Inr (r\<lparr>daily_participation := (daily_participation r)(day := (daily_participation r day)(voter := n)),
                           daily_total_participation := (daily_total_participation r)(day := t),
                           participation_counted_for_block := (participation_counted_for_block r)
                             (fb := (participation_counted_for_block r fb)(voter := True))\<rparr>))))"

definition add_daily_fees :: "b256 \<Rightarrow> u32 \<Rightarrow> u256 \<Rightarrow> rewards \<Rightarrow> rewards result" where
  "add_daily_fees fb day fees r =
     (case checked_add (daily_fee_sum_raw r day) fees of
        None \<Rightarrow> Inl (Revert ''daily_fee_sum_raw overflow'')
      | Some s \<Rightarrow>
          Inr (r\<lparr>daily_fee_sum_raw := (daily_fee_sum_raw r)(day := s),
                 block_metadata_counted := (block_metadata_counted r)(fb := True)\<rparr>))"

definition len_u32 :: "'a list \<Rightarrow> u32" where
  "len_u32 xs = (if length xs < 2 ^ 32 then word_of_nat (length xs) else - 1)"

definition init_last_settled :: "u32 \<Rightarrow> rewards \<Rightarrow> rewards" where
  "init_last_settled day r =
     (if last_settled_utc_day r = 0 then r\<lparr>last_settled_utc_day := previous_date_key day\<rparr> else r)"

definition observe_finalized_day :: "u32 \<Rightarrow> rewards \<Rightarrow> rewards" where
  "observe_finalized_day day r =
     (if max_observed_finalized_day r < day then r\<lparr>max_observed_finalized_day := day\<rparr> else r)"

definition on_finalized_metadata ::
  "certified_parent_metadata \<Rightarrow> u256 \<Rightarrow> u64 \<Rightarrow> address list \<Rightarrow> rewards \<Rightarrow> rewards result" where
  "on_finalized_metadata md validator_fee_sum finalized_block_timestamp voters r =
     (let fb = finalized_block_hash md;
          day = timestamp_to_date_key finalized_block_timestamp;
          first_seen = (\<not> block_metadata_counted r fb);
          r = init_last_settled day r
      in and_then (if first_seen then add_daily_fees fb day validator_fee_sum r else Inr r) (\<lambda>r.
         and_then (escrow_block_fee (finalized_block_number md) fb validator_fee_sum (len_u32 (ordered_committee md))
                     (finalized_epoch md) (finalized_view md) (parent_view md) (metadata_committee_set_hash md) voters r) (\<lambda>r.
         and_then (fold_res (count_participation fb day) voters r) (\<lambda>r.
           if first_seen then prune_block_guards fb (observe_finalized_day day r)
           else Inr (observe_finalized_day day r)))))"

section \<open>Reads and day marks\<close>

definition read_voters_for_day :: "rewards \<Rightarrow> u32 \<Rightarrow> (address \<times> u64) list" where
  "read_voters_for_day r day =
     map (\<lambda>v. (v, daily_participation r day v)) (stored (daily_voter_count r day) (daily_voter_at r day))"

definition mark_day_settled :: "u32 \<Rightarrow> rewards \<Rightarrow> rewards" where
  "mark_day_settled day r = r\<lparr>daily_settled := (daily_settled r)(day := True)\<rparr>"

end
