(* ===== verification/Agent_Reward.thy ===== *)
theory Agent_Reward
  imports Rewards
begin

text \<open>
  The agent reward contract (\<^verbatim>\<open>crates/core/agentreward/src/{schema,runtime,distribution,precompile}.rs\<close>): tribute
  counts per day and address, the capped distribution of a pool, the daily orchestration over the
  four pools and claims. Storage keys are hashes of day and address or day and index.
\<close>

section \<open>State\<close>

definition AGENT_REWARD_ADDRESS :: address where "AGENT_REWARD_ADDRESS = 0x100B"
definition CCA_ADDRESS :: address where "CCA_ADDRESS = 0x1011"
definition MERCHANT_ADDRESS :: address where "MERCHANT_ADDRESS = 0x1012"

record agent_reward =
  waa_tribute_counts :: "b256 \<Rightarrow> u64"
  sra_tribute_counts :: "b256 \<Rightarrow> u64"
  claimable_rewards :: "address \<Rightarrow> u256"
  waa_address_count :: "wwd \<Rightarrow> u32"
  waa_addresses :: "b256 \<Rightarrow> address"
  sra_address_count :: "wwd \<Rightarrow> u32"
  sra_addresses :: "b256 \<Rightarrow> address"

record agent_world = reward_world +
  agent :: agent_reward

definition tribute_count_key :: "crypto \<Rightarrow> wwd \<Rightarrow> address \<Rightarrow> b256" where
  "tribute_count_key c day a = keccak256 c (to_be_bytes 4 day @ to_be_bytes 20 a)"

definition address_index_key :: "crypto \<Rightarrow> wwd \<Rightarrow> u32 \<Rightarrow> b256" where
  "address_index_key c day idx = keccak256 c (to_be_bytes 4 day @ to_be_bytes 4 idx)"

section \<open>Tribute counts\<close>

definition increment_waa_tribute :: "crypto \<Rightarrow> wwd \<Rightarrow> address \<Rightarrow> agent_reward \<Rightarrow> agent_reward" where
  "increment_waa_tribute c day a s =
     (let key = tribute_count_key c day a;
          n = waa_tribute_counts s key;
          s = (if n = 0
               then let k = waa_address_count s day
                    in s\<lparr>waa_addresses := (waa_addresses s)(address_index_key c day k := a),
                         waa_address_count := (waa_address_count s)(day := k + 1)\<rparr>
               else s)
      in s\<lparr>waa_tribute_counts := (waa_tribute_counts s)(key := n + 1)\<rparr>)"

definition increment_sra_tribute :: "crypto \<Rightarrow> wwd \<Rightarrow> address \<Rightarrow> agent_reward \<Rightarrow> agent_reward" where
  "increment_sra_tribute c day a s =
     (let key = tribute_count_key c day a;
          n = sra_tribute_counts s key;
          s = (if n = 0
               then let k = sra_address_count s day
                    in s\<lparr>sra_addresses := (sra_addresses s)(address_index_key c day k := a),
                         sra_address_count := (sra_address_count s)(day := k + 1)\<rparr>
               else s)
      in s\<lparr>sra_tribute_counts := (sra_tribute_counts s)(key := n + 1)\<rparr>)"

text \<open>The enumeration both getters share, over an address list and a count table.\<close>

definition day_counts ::
  "crypto \<Rightarrow> wwd \<Rightarrow> u32 \<Rightarrow> (b256 \<Rightarrow> address) \<Rightarrow> (b256 \<Rightarrow> u64) \<Rightarrow> (address \<times> u64) list" where
  "day_counts c day n addrs cnts =
     filter (\<lambda>(a, k). a \<noteq> 0 \<and> 0 < k)
       (map (\<lambda>a. (a, cnts (tribute_count_key c day a))) (stored n (\<lambda>i. addrs (address_index_key c day i))))"

definition get_all_waa_counts :: "crypto \<Rightarrow> wwd \<Rightarrow> agent_reward \<Rightarrow> (address \<times> u64) list" where
  "get_all_waa_counts c day s = day_counts c day (waa_address_count s day) (waa_addresses s) (waa_tribute_counts s)"

definition get_all_sra_counts :: "crypto \<Rightarrow> wwd \<Rightarrow> agent_reward \<Rightarrow> (address \<times> u64) list" where
  "get_all_sra_counts c day s = day_counts c day (sra_address_count s day) (sra_addresses s) (sra_tribute_counts s)"

text \<open>The clearing loop, over the two tables.\<close>

definition clear_slot ::
  "crypto \<Rightarrow> wwd \<Rightarrow> u32 \<Rightarrow> (b256 \<Rightarrow> address) \<times> (b256 \<Rightarrow> u64) \<Rightarrow> (b256 \<Rightarrow> address) \<times> (b256 \<Rightarrow> u64)" where
  "clear_slot c day i = (\<lambda>(addrs, cnts).
     let key = address_index_key c day i; a = addrs key
     in if a \<noteq> 0 then (addrs(key := 0), cnts(tribute_count_key c day a := 0)) else (addrs, cnts))"

definition clear_waa_counts :: "crypto \<Rightarrow> wwd \<Rightarrow> agent_reward \<Rightarrow> agent_reward" where
  "clear_waa_counts c day s =
     (let (addrs, cnts) = fold (clear_slot c day) (map word_of_nat [0..<unat (waa_address_count s day)])
                            (waa_addresses s, waa_tribute_counts s)
      in s\<lparr>waa_addresses := addrs, waa_tribute_counts := cnts,
           waa_address_count := (waa_address_count s)(day := 0)\<rparr>)"

definition clear_sra_counts :: "crypto \<Rightarrow> wwd \<Rightarrow> agent_reward \<Rightarrow> agent_reward" where
  "clear_sra_counts c day s =
     (let (addrs, cnts) = fold (clear_slot c day) (map word_of_nat [0..<unat (sra_address_count s day)])
                            (sra_addresses s, sra_tribute_counts s)
      in s\<lparr>sra_addresses := addrs, sra_tribute_counts := cnts,
           sra_address_count := (sra_address_count s)(day := 0)\<rparr>)"

section \<open>Claimable balances\<close>

definition add_claimable_reward :: "address \<Rightarrow> u256 \<Rightarrow> agent_reward \<Rightarrow> agent_reward result" where
  "add_claimable_reward a amount s =
     (case checked_add (claimable_rewards s a) amount of
        None \<Rightarrow> Inl (Revert ''agentreward claimable_rewards overflow'')
      | Some v \<Rightarrow> Inr (s\<lparr>claimable_rewards := (claimable_rewards s)(a := v)\<rparr>))"

definition claim_reward :: "address \<Rightarrow> u256 \<Rightarrow> 'a agent_world_scheme \<Rightarrow> (u256 \<times> 'a agent_world_scheme) result" where
  "claim_reward a amount w =
     (let balance = claimable_rewards (agent w) a
      in if balance < amount then Inl (Revert ''insufficient claimable balance'')
         else
           let w = w\<lparr>agent := (agent w)\<lparr>claimable_rewards := (claimable_rewards (agent w))(a := balance - amount)\<rparr>\<rparr>
           in and_then (transfer_balance AGENT_REWARD_ADDRESS a amount w) (\<lambda>w. Inr (amount, w)))"

text \<open>The ABI entry point: an amount of 0 claims everything.\<close>

definition abi_claim_reward :: "address \<Rightarrow> u256 \<Rightarrow> 'a agent_world_scheme \<Rightarrow> (u256 \<times> 'a agent_world_scheme) result" where
  "abi_claim_reward sender amount w =
     (let amount = (if amount = 0 then claimable_rewards (agent w) sender else amount)
      in if amount = 0 then Inr (0, w) else claim_reward sender amount w)"

section \<open>Capped distribution\<close>

definition MAX_ADDRESS_SHARE_PCT :: u64 where "MAX_ADDRESS_SHARE_PCT = 32"
definition MAX_REDISTRIBUTION_ITERATIONS :: nat where "MAX_REDISTRIBUTION_ITERATIONS = 10"

record address_reward =
  ar_address :: address
  ar_tribute_count :: u64
  ar_reward_amount :: u256

record share_entry =
  se_address :: address
  se_count :: u64
  se_share :: u256
  se_capped :: bool

definition initial_share :: "u256 \<Rightarrow> u64 \<Rightarrow> u256 \<Rightarrow> address \<times> u64 \<Rightarrow> share_entry" where
  "initial_share pool total_tributes max_share = (\<lambda>(a, n).
     let s = pool * ucast n div ucast total_tributes
     in if max_share < s then \<lparr>se_address = a, se_count = n, se_share = max_share, se_capped = True\<rparr>
        else \<lparr>se_address = a, se_count = n, se_share = s, se_capped = False\<rparr>)"

definition open_entry :: "u256 \<Rightarrow> share_entry \<Rightarrow> bool" where
  "open_entry max_share e \<longleftrightarrow> \<not> se_capped e \<and> se_share e < max_share"

definition available_room :: "u256 \<Rightarrow> share_entry list \<Rightarrow> u256" where
  "available_room max_share es =
     fold (\<lambda>v acc. acc + v) (map (\<lambda>e. saturating_sub max_share (se_share e)) (filter (open_entry max_share) es)) 0"

definition give :: "u256 \<Rightarrow> u256 \<Rightarrow> share_entry \<Rightarrow> share_entry" where
  "give max_share amount e =
     (let s = se_share e + amount
      in e\<lparr>se_share := s, se_capped := se_capped e \<or> max_share \<le> s\<rparr>)"

text \<open>The proportional pass; it stops early once the excess is used up.\<close>

fun give_pass :: "u256 \<Rightarrow> u256 \<Rightarrow> share_entry list \<Rightarrow> u256 \<Rightarrow> share_entry list \<times> u256" where
  "give_pass max_share available [] excess = ([], excess)"
| "give_pass max_share available (e # es) excess =
     (let can_receive = saturating_sub max_share (se_share e);
          to_give = min can_receive (excess * can_receive div available)
      in if \<not> open_entry max_share e \<or> can_receive = 0 \<or> to_give = 0
         then let (es', x) = give_pass max_share available es excess in (e # es', x)
         else
           let e = give max_share to_give e; excess = excess - to_give
           in if excess = 0 then (e # es, excess)
              else let (es', x) = give_pass max_share available es excess in (e # es', x))"

text \<open>The dust pass; the flag tells whether anything was given.\<close>

fun dust_pass :: "u256 \<Rightarrow> share_entry list \<Rightarrow> u256 \<Rightarrow> bool \<Rightarrow> share_entry list \<times> u256 \<times> bool" where
  "dust_pass max_share [] excess dust = ([], excess, dust)"
| "dust_pass max_share (e # es) excess dust =
     (let can_receive = saturating_sub max_share (se_share e)
      in if \<not> open_entry max_share e \<or> can_receive = 0
         then let (es', x) = dust_pass max_share es excess dust in (e # es', x)
         else
           let to_give = min can_receive excess; e = give max_share to_give e; excess = excess - to_give
           in if excess = 0 then (e # es, excess, True)
              else let (es', x) = dust_pass max_share es excess True in (e # es', x))"

fun redistribute :: "nat \<Rightarrow> u256 \<Rightarrow> share_entry list \<Rightarrow> u256 \<Rightarrow> share_entry list \<times> u256" where
  "redistribute 0 max_share es excess = (es, excess)"
| "redistribute (Suc n) max_share es excess =
     (let available = available_room max_share es
      in if excess = 0 \<or> available = 0 then (es, excess)
         else
           let (es, excess) = give_pass max_share available es excess
           in if excess = 0 then (es, excess)
              else let (es, excess, dust) = dust_pass max_share es excess False
                   in if \<not> dust then (es, excess) else redistribute n max_share es excess)"

definition calculate_distribution_with_cap ::
  "u256 \<Rightarrow> (address \<times> u64) list \<Rightarrow> address_reward list \<times> u256" where
  "calculate_distribution_with_cap pool counts =
     (let total_tributes = sum_list (map snd counts)
      in if counts = [] \<or> pool = 0 \<or> total_tributes = 0 then ([], pool)
         else
           let max_share = pool * ucast MAX_ADDRESS_SHARE_PCT div 100;
               es = map (initial_share pool total_tributes max_share) (sort_key fst counts);
               distributed = fold (\<lambda>e acc. acc + se_share e) es 0;
               (es, excess) = redistribute MAX_REDISTRIBUTION_ITERATIONS max_share es (saturating_sub pool distributed)
           in (map (\<lambda>e. \<lparr>ar_address = se_address e, ar_tribute_count = se_count e, ar_reward_amount = se_share e\<rparr>) es, excess))"

section \<open>Daily distribution\<close>

datatype pool_kind = Pool_Waa | Pool_Sra | Pool_Cca | Pool_Merchant

definition credit_rewards :: "address_reward list \<Rightarrow> agent_reward \<Rightarrow> agent_reward result" where
  "credit_rewards rs =
     fold_res (\<lambda>r s. if ar_reward_amount r = 0 then Inr s else add_claimable_reward (ar_address r) (ar_reward_amount r) s) rs"

definition pool_counts :: "crypto \<Rightarrow> wwd \<Rightarrow> pool_kind \<Rightarrow> agent_reward \<Rightarrow> (address \<times> u64) list" where
  "pool_counts c day kind s = (if kind = Pool_Waa then get_all_waa_counts c day s else get_all_sra_counts c day s)"

definition clear_pool :: "crypto \<Rightarrow> wwd \<Rightarrow> pool_kind \<Rightarrow> agent_reward \<Rightarrow> agent_reward" where
  "clear_pool c day kind s = (if kind = Pool_Waa then clear_waa_counts c day s else clear_sra_counts c day s)"

definition distribute_capped ::
  "crypto \<Rightarrow> wwd \<Rightarrow> pool_kind \<Rightarrow> u256 \<Rightarrow> 'a agent_world_scheme \<Rightarrow> (u256 \<times> 'a agent_world_scheme) result" where
  "distribute_capped c prev_day kind amount w =
     (if amount = 0 then Inr (0, w)
      else and_then (increase_balance AGENT_REWARD_ADDRESS amount w) (\<lambda>w.
        let counts = pool_counts c prev_day kind (agent w)
        in if counts = []
           then and_then (decrease_balance AGENT_REWARD_ADDRESS amount w) (\<lambda>w. Inr (amount, w))
           else
             let (rs, excess) = calculate_distribution_with_cap amount counts
             in and_then (credit_rewards rs (agent w)) (\<lambda>s.
                and_then (decrease_balance AGENT_REWARD_ADDRESS excess (w\<lparr>agent := s\<rparr>)) (\<lambda>w.
                  Inr (excess, w\<lparr>agent := clear_pool c prev_day kind (agent w)\<rparr>)))))"

definition accumulate_to_address :: "address \<Rightarrow> u256 \<Rightarrow> 'a agent_world_scheme \<Rightarrow> 'a agent_world_scheme result" where
  "accumulate_to_address target amount w = (if amount \<noteq> 0 then increase_balance target amount w else Inr w)"

definition distribute_pool ::
  "crypto \<Rightarrow> wwd \<Rightarrow> pool_kind \<times> u256 \<Rightarrow> u256 \<times> 'a agent_world_scheme \<Rightarrow> (u256 \<times> 'a agent_world_scheme) result" where
  "distribute_pool c prev_day = (\<lambda>(kind, amount) (total_excess, w).
     and_then (case kind of
         Pool_Waa \<Rightarrow> distribute_capped c prev_day Pool_Waa amount w
       | Pool_Sra \<Rightarrow> distribute_capped c prev_day Pool_Sra amount w
       | Pool_Cca \<Rightarrow> and_then (accumulate_to_address CCA_ADDRESS amount w) (\<lambda>w. Inr (0, w))
       | Pool_Merchant \<Rightarrow> and_then (accumulate_to_address MERCHANT_ADDRESS amount w) (\<lambda>w. Inr (0, w))) (\<lambda>(excess, w).
     case checked_add total_excess excess of
       None \<Rightarrow> Inl (Revert ''agentreward distribute_daily overflow'')
     | Some t \<Rightarrow> Inr (t, w)))"

definition distribute_daily ::
  "crypto \<Rightarrow> wwd \<Rightarrow> (pool_kind \<times> u256) list \<Rightarrow> 'a agent_world_scheme \<Rightarrow> (u256 \<times> 'a agent_world_scheme) result" where
  "distribute_daily c prev_day pools w = fold_res (distribute_pool c prev_day) pools (0, w)"

end
