(* ===== verification/Begin_Block.thy ===== *)
theory Begin_Block
  imports Agent_Reward Tee_Registry
begin

text \<open>
  The begin-block system transactions (\<^verbatim>\<open>crates/blockchain/evm/src/begin_block_precompile.rs\<close>) with the
  checks of \<^verbatim>\<open>executor.rs\<close> they run and the accounting progress slot
  (\<^verbatim>\<open>crates/system/accounting/src\<close>): the context the executor preloads, finalization and
  slashing for the parent block, late credits with the close of the inclusion window, the DKG
  boundary, the proposer part of the cycle tick, and the dispatch over a decoded input. The begin-block
  handler of the Cycle module and the slash window of the Oracle module are arguments of the dispatch. So are
  the node's ECDSA library and the commonware decoder that extracts the encoded public polynomial
  of a DKG output. Block timestamps are 64-bit numbers, so the range check of \<open>u256_to_u64\<close> always passes
  and is left out.
\<close>

section \<open>State and context\<close>

record system_world = agent_world +
  last_accounted_block_number :: u64
  tee :: tee_registry

record accounted_parent =
  ap_validator_fee_sum :: u256
  ap_timestamp :: u64

record preloaded_context =
  pre_proposer :: address
  pre_finalized_summary :: "accounted_parent option"
  pre_allow_boundary_proposer :: bool
  pre_canonical_vrf_proof_hash :: b256

record block_context =
  bc_block_number :: u64
  bc_timestamp :: u64
  bc_chain_id :: u64
  bc_proposer :: address
  bc_validators :: "address list"

definition block_runtime_context_from_storage ::
  "exec_env \<Rightarrow> address \<Rightarrow> preloaded_context option \<Rightarrow> bool \<Rightarrow> 'a system_world_scheme \<Rightarrow> block_context" where
  "block_runtime_context_from_storage env beneficiary pre include_validators w =
     \<lparr>bc_block_number = env_block_number env, bc_timestamp = env_timestamp env, bc_chain_id = env_chain_id env,
      bc_proposer = (case pre of Some p \<Rightarrow> pre_proposer p | None \<Rightarrow> beneficiary),
      bc_validators = (if include_validators then sort (map validator_address (get_active_consensus_set (vset w))) else [])\<rparr>"

definition record_phase1_progress :: "u64 \<Rightarrow> 'a system_world_scheme \<Rightarrow> 'a system_world_scheme result" where
  "record_phase1_progress bn w =
     (if bn < last_accounted_block_number w then Inl (Revert ''last_accounted_block_number regression'')
      else Inr (w\<lparr>last_accounted_block_number := bn\<rparr>))"

section \<open>Finalization and slashing\<close>

definition validate_finalized_metadata :: "certified_parent_metadata \<Rightarrow> validator_set \<Rightarrow> unit result" where
  "validate_finalized_metadata md vs =
     (if length (signer_bitmap md) \<noteq> length (ordered_committee md)
      then Inl (Fatal ''consensus metadata signer bitmap length mismatch'')
      else if \<not> distinct (ordered_committee md)
      then Inl (Fatal ''consensus metadata committee contains duplicate addresses'')
      else if \<not> list_all (is_validator vs) (ordered_committee md)
      then Inl (Fatal ''consensus metadata committee member is not a registered validator'')
      else if \<not> list_all (\<lambda>m. missed_validator m \<in> set (ordered_committee md)) (missed_proposers md)
      then Inl (Fatal ''consensus metadata missed proposer is not in finalized committee'')
      else if \<not> list_all (\<lambda>b. b \<le> 1) (signer_bitmap md)
      then Inl (Fatal ''consensus metadata signer bitmap contains non-binary entry'')
      else Inr ())"

definition base_voters :: "certified_parent_metadata \<Rightarrow> address list" where
  "base_voters md = map fst (filter (\<lambda>(a, did_sign). did_sign = 1) (zip (ordered_committee md) (signer_bitmap md)))"

definition check_parent_target :: "u64 \<Rightarrow> certified_parent_metadata \<Rightarrow> u64 result" where
  "check_parent_target bn md =
     (if bn < 2 then Inl (Fatal ''CertifiedParentAccounting system tx requires block_number >= 2'')
      else case checked_sub bn 1 of
        None \<Rightarrow> Inl (Fatal ''block number underflow'')
      | Some expected_parent \<Rightarrow>
          if finalized_block_number md \<noteq> expected_parent
          then Inl (Fatal ''CertifiedParentAccounting metadata must target immediate parent'')
          else if finalized_block_hash md = B256_ZERO
          then Inl (Fatal ''CertifiedParentAccounting metadata has zero finalized block hash'')
          else Inr expected_parent)"

text \<open>The effects of a fresh parent, after the progress check.\<close>

definition account_parent ::
  "exec_env \<Rightarrow> certified_parent_metadata \<Rightarrow> accounted_parent \<Rightarrow> u64 \<Rightarrow> 'a system_world_scheme \<Rightarrow> 'a system_world_scheme result" where
  "account_parent env md finalized expected_parent w =
     and_then (on_finalized_metadata md (ap_validator_fee_sum finalized) (ap_timestamp finalized) (base_voters md) (rewards w)) (\<lambda>r.
     and_then (slash_window_proposers env (finalized_block_hash md) (map missed_validator (missed_proposers md)) (w\<lparr>rewards := r\<rparr>)) (\<lambda>w.
     and_then (prune_slash_guards (finalized_block_hash md) (slash w)) (\<lambda>si.
       record_phase1_progress expected_parent (w\<lparr>slash := si\<rparr>))))"

definition run_finalization_and_slashing ::
  "exec_env \<Rightarrow> preloaded_context option \<Rightarrow> block_context \<Rightarrow> certified_parent_metadata
     \<Rightarrow> 'a system_world_scheme \<Rightarrow> 'a system_world_scheme result" where
  "run_finalization_and_slashing env pre bc md w =
     and_then (check_parent_target (bc_block_number bc) md) (\<lambda>expected_parent.
     and_then (validate_finalized_metadata md (vset w)) (\<lambda>_.
     case Option.bind pre pre_finalized_summary of
       None \<Rightarrow> Inl (Fatal ''missing preloaded execution summary for finalized block'')
     | Some finalized \<Rightarrow>
         let vrf_hash = (case pre of Some p \<Rightarrow> pre_canonical_vrf_proof_hash p | None \<Rightarrow> B256_ZERO);
             last_accounted = last_accounted_block_number w
         in and_then (check_and_record_metadata_fingerprint (env_crypto env) md (ap_validator_fee_sum finalized) vrf_hash (rewards w)) (\<lambda>(outcome, r).
            case outcome of
              IdenticalReplay \<Rightarrow>
                if last_accounted \<noteq> expected_parent
                then Inl (Fatal ''CertifiedParentAccounting identical replay at unexpected progress'')
                else Inr (w\<lparr>rewards := r\<rparr>)
            | Fresh \<Rightarrow>
                if last_accounted \<noteq> saturating_sub expected_parent 1
                then Inl (Fatal ''CertifiedParentAccounting progress gap'')
                else account_parent env md finalized expected_parent (w\<lparr>rewards := r\<rparr>))))"

section \<open>Late credits and the close of the window\<close>

definition authenticate_late_credit :: "rewards \<Rightarrow> per_block_credit \<Rightarrow> unit result" where
  "authenticate_late_credit r credit =
     (let n = fb_number credit; escrowed_hash = pending_fb_hash_at r n
      in if escrowed_hash = B256_ZERO then Inl (Fatal ''LateFinalizeCredits: no escrow for fb_number'')
         else if escrowed_hash \<noteq> fb_hash credit then Inl (Fatal ''LateFinalizeCredits: fb_hash mismatch'')
         else if pending_epoch_at r n \<noteq> credit_epoch credit then Inl (Fatal ''LateFinalizeCredits: epoch mismatch'')
         else if pending_committee_set_hash_at r n \<noteq> credit_committee_set_hash credit
         then Inl (Fatal ''LateFinalizeCredits: committee_set_hash mismatch'')
         else if pending_view_at r n \<noteq> credit_view credit then Inl (Fatal ''LateFinalizeCredits: view mismatch'')
         else if pending_parent_view_at r n \<noteq> credit_parent_view credit
         then Inl (Fatal ''LateFinalizeCredits: parent_view mismatch'')
         else Inr ())"

text \<open>The inclusion distance, range-checked.\<close>

definition inclusion_distance :: "u64 \<Rightarrow> u64 \<Rightarrow> u8 result" where
  "inclusion_distance bn fb_num =
     (case checked_sub bn fb_num of
        None \<Rightarrow> Inl (Fatal ''LateFinalizeCredits: fb_number >= block'')
      | Some k \<Rightarrow>
          if k = 0 \<or> LATE_FINALIZE_WINDOW_K < k then Inl (Fatal ''LateFinalizeCredits: outside inclusion window'')
          else if \<not> unat k < 2 ^ 8 then Inl (Fatal ''LateFinalizeCredits: inclusion distance exceeds u8'')
          else Inr (ucast k))"

definition credit_signer :: "committee_snapshot \<Rightarrow> b256 \<Rightarrow> u8 \<Rightarrow> nat \<Rightarrow> rewards \<Rightarrow> rewards result" where
  "credit_signer snapshot fb k idx r =
     (if \<not> idx < length (committee snapshot)
      then Inl (Fatal ''LateFinalizeCredits: signer index out of committee range'')
      else record_late_credit fb (entry_address (committee snapshot ! idx)) k r)"

text \<open>One turn of the loop over the batches.\<close>

definition apply_late_credit ::
  "exec_env \<Rightarrow> u64 \<Rightarrow> per_block_credit \<Rightarrow> 'a system_world_scheme \<Rightarrow> 'a system_world_scheme result" where
  "apply_late_credit env bn credit w =
     and_then (inclusion_distance bn (fb_number credit)) (\<lambda>k.
     and_then (authenticate_late_credit (rewards w) credit) (\<lambda>_.
     case read_committee_snapshot
            (committee_snapshot_key (env_crypto env) (credit_epoch credit) (credit_committee_set_hash credit)) (snapshots w) of
       None \<Rightarrow> Inl (Fatal ''LateFinalizeCredits: missing committee snapshot'')
     | Some snapshot \<Rightarrow>
         (case verify_late_finalize_proof (env_crypto env) (env_commonware env) (env_chain_id env) snapshot credit of
            Inl _ \<Rightarrow> Inl (Fatal ''LateFinalizeCredits: proof verify failed'')
          | Inr idxs \<Rightarrow>
              and_then (fold_res (credit_signer snapshot (fb_hash credit) k) idxs (rewards w)) (\<lambda>r.
                Inr (w\<lparr>rewards := r\<rparr>)))))"

definition window_absentees :: "validator_set \<Rightarrow> address list \<Rightarrow> committee_snapshot \<Rightarrow> address list" where
  "window_absentees vs credits snapshot =
     filter (\<lambda>a. a \<notin> set credits \<and> is_validator vs a) (map entry_address (committee snapshot))"

definition record_window_close_absentees ::
  "exec_env \<Rightarrow> u64 \<Rightarrow> 'a system_world_scheme \<Rightarrow> 'a system_world_scheme result" where
  "record_window_close_absentees env bn w =
     (case checked_sub bn LATE_FINALIZE_WINDOW_K of
        None \<Rightarrow> Inr w
      | Some n \<Rightarrow>
          if n = 0 then Inr w
          else case window_close_credited (rewards w) n of
            None \<Rightarrow> Inr w
          | Some info \<Rightarrow>
              (case read_committee_snapshot
                      (committee_snapshot_key (env_crypto env) (wc_epoch info) (wc_committee_set_hash info)) (snapshots w) of
                 None \<Rightarrow> Inr w
               | Some snapshot \<Rightarrow>
                   let absentees = window_absentees (vset w) (wc_credited info) snapshot
                   in if absentees = [] then Inr w
                      else and_then (hook_record_finalized_participation (wc_fb_hash info) [] absentees (vset w)) (\<lambda>vs.
                        slash_window_voters env (wc_fb_hash info) absentees (w\<lparr>vset := vs\<rparr>))))"

definition run_late_finalize_credits ::
  "exec_env \<Rightarrow> block_context \<Rightarrow> per_block_credit list \<Rightarrow> 'a system_world_scheme \<Rightarrow> 'a system_world_scheme result" where
  "run_late_finalize_credits env bc batches w =
     (let bn = bc_block_number bc
      in and_then (fold_res (apply_late_credit env bn) batches w) (\<lambda>w.
         and_then (record_window_close_absentees env bn w) (\<lambda>w.
         and_then (settle_matured env bn LATE_FINALIZE_WINDOW_K w) (\<lambda>(_, w). Inr w))))"

section \<open>The DKG boundary\<close>

definition hash_boundary_active_set :: "crypto \<Rightarrow> address list \<Rightarrow> b256" where
  "hash_boundary_active_set c addresses =
     keccak256 c (to_be_bytes 8 (word_of_nat (length addresses) :: u64) @ concat (map (to_be_bytes 20) addresses))"

text \<open>
  \<open>dkg_polynomial\<close> reads a commonware DKG output and returns the encoding of its public polynomial.
\<close>

definition boundary_outcome_polynomial_hash :: "crypto \<Rightarrow> (bytes \<Rightarrow> bytes option) \<Rightarrow> bytes \<Rightarrow> b256" where
  "boundary_outcome_polynomial_hash c dkg_polynomial outcome =
     (let header_len = 4 + 1 + 8 + 1 + 4
      in if length outcome < header_len \<or> take 4 outcome \<noteq> ascii ''ODKO'' then B256_ZERO
         else
           let len = unat (from_be_bytes (take 4 (drop 14 outcome)) :: u32)
           in if length outcome < header_len + len then B256_ZERO
              else case dkg_polynomial (take len (drop header_len outcome)) of
                Some p \<Rightarrow> keccak256 c p
              | None \<Rightarrow> B256_ZERO)"

definition boundary_entry :: "validator_set \<Rightarrow> address \<Rightarrow> committee_entry list \<Rightarrow> committee_entry list result" where
  "boundary_entry vs a entries =
     (case get_validator vs a of
        None \<Rightarrow> Inl (Fatal ''boundary active set contains unregistered validator'')
      | Some v \<Rightarrow> Inr (entries @ [\<lparr>entry_address = a, entry_pubkey = consensus_pubkey v\<rparr>]))"

definition committee_snapshot_from_boundary ::
  "crypto \<Rightarrow> (bytes \<Rightarrow> bytes option) \<Rightarrow> validator_set \<Rightarrow> dkg_boundary_artifact \<Rightarrow> committee_snapshot result" where
  "committee_snapshot_from_boundary c dkg_polynomial vs b =
     and_then (fold_res (boundary_entry vs) (reshare_new_active_set b) []) (\<lambda>entries.
       Inr \<lparr>committee = entries, vrf_material_version = boundary_vrf_material_version b,
            vrf_group_public_key_bytes = boundary_vrf_group_public_key_bytes b,
            vrf_public_polynomial_hash = boundary_outcome_polynomial_hash c dkg_polynomial (dkg_outcome b)\<rparr>)"

definition apply_boundary_outcome ::
  "crypto \<Rightarrow> (bytes \<Rightarrow> bytes option) \<Rightarrow> dkg_boundary_artifact \<Rightarrow> 'a slash_world_scheme \<Rightarrow> 'a slash_world_scheme result" where
  "apply_boundary_outcome c dkg_polynomial b w =
     (if reshare_active_set_hash b \<noteq> hash_boundary_active_set c (reshare_new_active_set b)
      then Inl (Fatal ''boundary active_set_hash mismatch'')
      else if boundary_vrf_group_public_key b \<noteq> keccak256 c (boundary_vrf_group_public_key_bytes b)
      then Inl (Fatal ''boundary VRF group public key hash mismatch'')
      else and_then (committee_snapshot_from_boundary c dkg_polynomial (vset w) b) (\<lambda>snapshot.
        if boundary_committee_set_hash b \<noteq> committee_set_hash_v2 c (boundary_epoch b) snapshot
        then Inl (Fatal ''boundary committee_set_hash mismatch'')
        else if active_consensus_set_hash (vset w) \<noteq> reshare_active_set_hash b \<and> \<not> is_validator_set_change b
        then Inl (Fatal ''boundary active_set_hash changed without validator-set change'')
        else and_then (activate_boundary_atomic c
                 \<lparr>outgoing = None, incoming_epoch = boundary_epoch b, incoming = snapshot,
                  new_active_set = reshare_new_active_set b, active_set_hash = reshare_active_set_hash b\<rparr>
                 (vset w, snapshots w)) (\<lambda>(_, vs, st).
               Inr (w\<lparr>vset := vs, snapshots := st\<rparr>))))"

definition record_new_proposer :: "address \<Rightarrow> 'a system_world_scheme \<Rightarrow> 'a system_world_scheme result" where
  "record_new_proposer proposer w =
     (if is_consensus_participant (vset w) proposer
      then and_then (record_proposer proposer (vset w)) (\<lambda>vs. Inr (w\<lparr>vset := vs\<rparr>))
      else Inr w)"

definition record_tee_announcements :: "dkg_boundary_artifact \<Rightarrow> tee_registry \<Rightarrow> tee_registry" where
  "record_tee_announcements b r =
     (let r = (if tee_recipient_pubkeys b \<noteq> [] then record_boundary_recipient_keys (tee_recipient_pubkeys b) r else r)
      in if tee_reshare_registrations b \<noteq> []
         then record_reshare_registrations
                (map (\<lambda>g. (reg_validator g, reg_recipient_x25519 g, reg_attestation_pub g, reg_noise_static_pub g))
                  (tee_reshare_registrations b)) r
         else r)"

definition run_boundary_outcome ::
  "exec_env \<Rightarrow> (bytes \<Rightarrow> bytes option) \<Rightarrow> block_context \<Rightarrow> dkg_boundary_artifact
     \<Rightarrow> 'a system_world_scheme \<Rightarrow> 'a system_world_scheme result" where
  "run_boundary_outcome env dkg_polynomial bc b w =
     (let was_participant = is_consensus_participant (vset w) (bc_proposer bc)
      in and_then (apply_boundary_outcome (env_crypto env) dkg_polynomial b w) (\<lambda>w.
         and_then (if \<not> was_participant then record_new_proposer (bc_proposer bc) w else Inr w) (\<lambda>w.
           Inr (w\<lparr>tee := record_tee_announcements b (tee w)\<rparr>))))"

section \<open>Cycle tick and dispatch\<close>

definition run_cycle_tick ::
  "(block_context \<Rightarrow> 'a system_world_scheme \<Rightarrow> 'a system_world_scheme result) \<Rightarrow> preloaded_context option \<Rightarrow> block_context
     \<Rightarrow> 'a system_world_scheme \<Rightarrow> 'a system_world_scheme result" where
  "run_cycle_tick cycle_begin_block pre bc w =
     (let allow = (case pre of Some p \<Rightarrow> pre_allow_boundary_proposer p | None \<Rightarrow> False)
      in and_then
           (if is_consensus_participant (vset w) (bc_proposer bc)
            then and_then (record_proposer (bc_proposer bc) (vset w)) (\<lambda>vs. Inr (w\<lparr>vset := vs\<rparr>))
            else if allow \<and> is_validator (vset w) (bc_proposer bc) then Inr w
            else Inl (Fatal ''proposer is not a current consensus participant''))
           (cycle_begin_block bc))"

definition SYSTEM_ADDRESS :: address where "SYSTEM_ADDRESS = 0"

record 'w module_hooks =
  cycle_begin_block :: "block_context \<Rightarrow> 'w \<Rightarrow> 'w result"
  oracle_slash_window :: "block_context \<Rightarrow> 'w \<Rightarrow> 'w result"
  dkg_polynomial :: "bytes \<Rightarrow> bytes option"
  node_ecdsa :: ecdsa

fun run_system_tx ::
  "exec_env \<Rightarrow> 'a system_world_scheme module_hooks \<Rightarrow> preloaded_context option \<Rightarrow> (bool \<Rightarrow> block_context) \<Rightarrow> system_tx_input
     \<Rightarrow> 'a system_world_scheme \<Rightarrow> 'a system_world_scheme result" where
  "run_system_tx env h pre ctx (CertifiedParentAccountingInput md) w = run_finalization_and_slashing env pre (ctx True) md w"
| "run_system_tx env h pre ctx (LateFinalizeCreditsInput batches) w = run_late_finalize_credits env (ctx False) batches w"
| "run_system_tx env h pre ctx CycleTickInput w = run_cycle_tick (cycle_begin_block h) pre (ctx True) w"
| "run_system_tx env h pre ctx (BoundaryOutcomeInput b) w = run_boundary_outcome env (dkg_polynomial h) (ctx True) b w"
| "run_system_tx env h pre ctx (TeeBootstrapInput p) w =
     and_then (run_tee_bootstrap (env_crypto env) (node_ecdsa h) (bc_block_number (ctx True)) (vset w) p (tee w)) (\<lambda>r.
       Inr (w\<lparr>tee := r\<rparr>))"
| "run_system_tx env h pre ctx OracleSlashWindowInput w = oracle_slash_window h (ctx False) w"

definition dispatch_system_tx ::
  "exec_env \<Rightarrow> 'a system_world_scheme module_hooks \<Rightarrow> address \<Rightarrow> preloaded_context option \<Rightarrow> bytes \<Rightarrow> address \<Rightarrow> u256
     \<Rightarrow> 'a system_world_scheme \<Rightarrow> 'a system_world_scheme result" where
  "dispatch_system_tx env h beneficiary pre data caller amount w =
     (if caller \<noteq> SYSTEM_ADDRESS then Inl (Revert ''system precompile can only be called by SYSTEM_ADDRESS'')
      else if amount \<noteq> 0 then Inl (Revert ''system precompile does not accept native token value'')
      else case decode_input data of
        Inl _ \<Rightarrow> Inl (Fatal ''invalid system tx input'')
      | Inr inp \<Rightarrow>
          run_system_tx env h pre (\<lambda>b. block_runtime_context_from_storage env beneficiary pre b w) inp w)"

end
