(* ===== verification/Rewards_Properties.thy ===== *)
theory Rewards_Properties
  imports Rewards Slash_Properties
begin

text \<open>
  Correctness of the rewards module: the storage invariant of inclusion windows and participation
  days with its preservation by every operation, and the exact effect of a settlement.
\<close>

section \<open>Well-formed state\<close>

definition credited :: "rewards \<Rightarrow> b256 \<Rightarrow> address list" where
  "credited r fb = stored (late_voter_count r fb) (late_voter_at r fb)"

definition day_voters :: "rewards \<Rightarrow> u32 \<Rightarrow> address list" where
  "day_voters r day = stored (daily_voter_count r day) (daily_voter_at r day)"

definition window_wf :: "rewards \<Rightarrow> b256 \<Rightarrow> bool" where
  "window_wf r fb \<longleftrightarrow> distinct (credited r fb) \<and>
     (\<forall>v. v \<in> set (credited r fb) \<longleftrightarrow> late_voter_k_plus1 r fb v \<noteq> 0) \<and>
     (fee_settled r fb \<longrightarrow> pending_fees r fb = 0 \<and> credited r fb = [])"

definition day_wf :: "rewards \<Rightarrow> u32 \<Rightarrow> bool" where
  "day_wf r day \<longleftrightarrow> distinct (day_voters r day) \<and>
     (\<forall>v. v \<in> set (day_voters r day) \<longleftrightarrow> daily_participation r day v \<noteq> 0) \<and>
     unat (daily_total_participation r day) = (\<Sum>v\<in>UNIV. unat (daily_participation r day v))"

definition rewards_wf :: "rewards \<Rightarrow> bool" where
  "rewards_wf r \<longleftrightarrow> (\<forall>fb. window_wf r fb) \<and> (\<forall>day. day_wf r day)"

text \<open>The fields each invariant reads.\<close>

definition same_windows :: "rewards \<Rightarrow> rewards \<Rightarrow> bool" where
  "same_windows r r' \<longleftrightarrow> late_voter_count r' = late_voter_count r \<and> late_voter_at r' = late_voter_at r \<and>
     late_voter_k_plus1 r' = late_voter_k_plus1 r \<and> fee_settled r' = fee_settled r \<and> pending_fees r' = pending_fees r"

definition same_days :: "rewards \<Rightarrow> rewards \<Rightarrow> bool" where
  "same_days r r' \<longleftrightarrow> daily_voter_count r' = daily_voter_count r \<and> daily_voter_at r' = daily_voter_at r \<and>
     daily_participation r' = daily_participation r \<and> daily_total_participation r' = daily_total_participation r"

lemma same_windows_wf: "same_windows r r' \<Longrightarrow> window_wf r' fb = window_wf r fb"
  by (simp add: same_windows_def window_wf_def credited_def)

lemma same_days_wf: "same_days r r' \<Longrightarrow> day_wf r' d = day_wf r d"
  by (simp add: same_days_def day_wf_def day_voters_def)

lemma same_windows_trans: "same_windows r s \<Longrightarrow> same_windows s t \<Longrightarrow> same_windows r t"
  by (simp add: same_windows_def)

lemma same_days_trans: "same_days r s \<Longrightarrow> same_days s t \<Longrightarrow> same_days r t"
  by (simp add: same_days_def)

lemma stored_checked_push:
  assumes "checked_add n 1 = Some m"
  shows "stored m (f(n := v)) = stored n f @ [v]"
proof -
  have "unat n + 1 < 2 ^ LENGTH('a)" "m = n + 1" using assms by (auto simp: checked_add_def split: if_splits)
  then show ?thesis using stored_push by metis
qed

section \<open>Credits\<close>

lemma u8_succ_ne_0: "k < 255 \<Longrightarrow> k + 1 \<noteq> (0 :: u8)"
proof
  assume "k < 255" "k + 1 = 0"
  then have "k = - 1" by (simp add: eq_neg_iff_add_eq_0)
  with \<open>k < 255\<close> show False by simp
qed

lemma record_late_credit_wf:
  assumes "record_late_credit fb voter k r = Inr r'" "\<forall>f. window_wf r f" "k < 255"
  shows "window_wf r' f" "same_days r r'"
proof -
  have k: "k + 1 \<noteq> 0" using assms(3) by (rule u8_succ_ne_0)
  have w: "window_wf r f" "window_wf r fb" using assms(2) by blast+
  show "window_wf r' f"
  proof (cases "fee_settled r fb \<or> late_voter_k_plus1 r fb voter \<noteq> 0")
    case True
    then show ?thesis using assms(1) w k
      by (auto simp: record_late_credit_def Let_def window_wf_def credited_def split: if_splits)
  next
    case False
    then obtain n where n: "checked_add (late_voter_count r fb) 1 = Some n" and
      r': "r' = r\<lparr>late_voter_at := (late_voter_at r)(fb := (late_voter_at r fb)(late_voter_count r fb := voter)),
        late_voter_count := (late_voter_count r)(fb := n),
        late_voter_k_plus1 := (late_voter_k_plus1 r)(fb := (late_voter_k_plus1 r fb)(voter := k + 1))\<rparr>"
      using assms(1) by (auto simp: record_late_credit_def Let_def split: option.splits)
    have "credited r' fb = credited r fb @ [voter]" unfolding r' by (simp add: credited_def stored_checked_push [OF n])
    moreover have "credited r' x = credited r x" if "x \<noteq> fb" for x using that unfolding r' by (simp add: credited_def)
    moreover have "voter \<notin> set (credited r fb)" using False w(2) by (simp add: window_wf_def)
    ultimately show ?thesis using w False k unfolding window_wf_def by (cases "f = fb") (auto simp: r')
  qed
  show "same_days r r'" using assms(1) by (auto simp: record_late_credit_def Let_def same_days_def split: if_splits option.splits)
qed

lemma fold_credit_wf:
  assumes "fold_res (\<lambda>v. record_late_credit fb v k) voters r = Inr r'" "\<forall>f. window_wf r f" "k < 255"
  shows "(\<forall>f. window_wf r' f) \<and> same_days r r'"
  using assms(1)
proof (rule fold_res_invariant [where P = "\<lambda>s. (\<forall>f. window_wf s f) \<and> same_days r s"])
  show "(\<forall>f. window_wf r f) \<and> same_days r r" using assms(2) by (simp add: same_days_def)
next
  fix v s t
  assume "(\<forall>f. window_wf s f) \<and> same_days r s" "record_late_credit fb v k s = Inr t"
  then show "(\<forall>f. window_wf t f) \<and> same_days r t"
    using record_late_credit_wf [of fb v k s t] assms(3) same_days_trans by blast
qed

lemma escrow_block_fee_wf:
  assumes "escrow_block_fee n fb fee sz ep vw pv h voters r = Inr r'" "\<forall>f. window_wf r f"
  shows "(\<forall>f. window_wf r' f) \<and> same_days r r'"
proof (cases "fee_settled r fb")
  case True
  then show ?thesis using assms by (simp add: escrow_block_fee_def same_days_def)
next
  case False
  let ?s = "r\<lparr>pending_fees := (pending_fees r)(fb := fee), pending_fb_hash_at := (pending_fb_hash_at r)(n := fb),
    pending_committee_size_at := (pending_committee_size_at r)(n := sz), pending_epoch_at := (pending_epoch_at r)(n := ep),
    pending_view_at := (pending_view_at r)(n := vw), pending_parent_view_at := (pending_parent_view_at r)(n := pv),
    pending_committee_set_hash_at := (pending_committee_set_hash_at r)(n := h)\<rparr>"
  have "fold_res (\<lambda>v. record_late_credit fb v 0) voters ?s = Inr r'"
    using assms(1) False by (simp add: escrow_block_fee_def)
  moreover have "\<forall>f. window_wf ?s f" using assms(2) False by (auto simp: window_wf_def credited_def)
  moreover have "same_days r ?s" by (simp add: same_days_def)
  ultimately show ?thesis using fold_credit_wf [of fb 0 voters ?s r'] same_days_trans [of r ?s r'] by auto
qed

section \<open>Freeing a window\<close>

lemma free_slots:
  fixes r :: rewards and m :: nat and fb :: b256
  defines "r' \<equiv> fold (free_slot fb) (map word_of_nat [0..<m]) r"
  assumes "m < 2 ^ 32"
  shows "late_voter_at r' fb = (\<lambda>i. if unat i < m then 0 else late_voter_at r fb i) \<and>
    late_voter_k_plus1 r' fb = (\<lambda>v. if \<exists>i. unat i < m \<and> late_voter_at r fb i = v then 0 else late_voter_k_plus1 r fb v) \<and>
    (\<forall>f. f \<noteq> fb \<longrightarrow> late_voter_at r' f = late_voter_at r f \<and> late_voter_k_plus1 r' f = late_voter_k_plus1 r f) \<and>
    late_voter_count r' = late_voter_count r \<and> fee_settled r' = fee_settled r \<and> pending_fees r' = pending_fees r \<and>
    pending_fb_hash_at r' = pending_fb_hash_at r \<and> same_days r r'"
  using assms(2) unfolding r'_def
proof (induction m)
  case (Suc m)
  then have m: "unat (word_of_nat m :: u32) = m" by (intro unat_word_of_nat) simp
  have i: "unat i < Suc m \<longleftrightarrow> unat i < m \<or> i = word_of_nat m" for i :: u32
    using m by (auto simp: less_Suc_eq word_unat_eq_iff)
  define s where "s = fold (free_slot fb) (map word_of_nat [0..<m]) r"
  have ih: "late_voter_at s fb = (\<lambda>i. if unat i < m then 0 else late_voter_at r fb i)"
    "late_voter_k_plus1 s fb = (\<lambda>v. if \<exists>i. unat i < m \<and> late_voter_at r fb i = v then 0 else late_voter_k_plus1 r fb v)"
    "\<forall>f. f \<noteq> fb \<longrightarrow> late_voter_at s f = late_voter_at r f \<and> late_voter_k_plus1 s f = late_voter_k_plus1 r f"
    "late_voter_count s = late_voter_count r \<and> fee_settled s = fee_settled r \<and> pending_fees s = pending_fees r \<and>
     pending_fb_hash_at s = pending_fb_hash_at r \<and> same_days r s"
    using Suc unfolding s_def by simp_all
  have step: "fold (free_slot fb) (map word_of_nat [0..<Suc m]) r = free_slot fb (word_of_nat m) s" by (simp add: s_def)
  have at_m: "late_voter_at s fb (word_of_nat m) = late_voter_at r fb (word_of_nat m)" using ih(1) m by simp
  have 1: "late_voter_at (free_slot fb (word_of_nat m) s) fb = (\<lambda>i. if unat i < Suc m then 0 else late_voter_at r fb i)"
    by (rule ext) (simp add: free_slot_def Let_def ih(1) i)
  have 2: "late_voter_k_plus1 (free_slot fb (word_of_nat m) s) fb =
      (\<lambda>v. if \<exists>i. unat i < Suc m \<and> late_voter_at r fb i = v then 0 else late_voter_k_plus1 r fb v)"
    unfolding i by (rule ext) (auto simp: free_slot_def Let_def ih(2) at_m)
  show ?case unfolding step using 1 2 ih(3,4) by (simp add: free_slot_def Let_def same_days_def)
qed (simp add: same_days_def)

lemma set_credited: "set (credited r fb) = {v. \<exists>i. i < late_voter_count r fb \<and> late_voter_at r fb i = v}"
proof -
  have "v \<in> set (credited r fb) \<longleftrightarrow> (\<exists>i. i < late_voter_count r fb \<and> late_voter_at r fb i = v)" for v
  proof
    assume "v \<in> set (credited r fb)"
    then obtain j where "j < unat (late_voter_count r fb)" "late_voter_at r fb (word_of_nat j) = v"
      by (auto simp: credited_def stored_def)
    then show "\<exists>i. i < late_voter_count r fb \<and> late_voter_at r fb i = v"
      by (intro exI [of _ "word_of_nat j"]) (simp add: word_less_nat_alt word_of_nat_below)
  next
    assume "\<exists>i. i < late_voter_count r fb \<and> late_voter_at r fb i = v"
    then obtain i where "unat i < unat (late_voter_count r fb)" "late_voter_at r fb i = v" by (auto simp: word_less_nat_alt)
    then show "v \<in> set (credited r fb)"
      unfolding credited_def stored_def by (auto intro!: image_eqI [where x = "unat i"])
  qed
  then show ?thesis by auto
qed

lemma free_window_facts:
  assumes "window_wf r fb"
  shows "late_voter_k_plus1 (free_window fb r) fb = (\<lambda>_. 0)" "late_voter_count (free_window fb r) = (late_voter_count r)(fb := 0)"
    "fee_settled (free_window fb r) = (fee_settled r)(fb := True)" "pending_fees (free_window fb r) = (pending_fees r)(fb := 0)"
    "pending_fb_hash_at (free_window fb r) = pending_fb_hash_at r" "same_days r (free_window fb r)"
    "f \<noteq> fb \<Longrightarrow> late_voter_at (free_window fb r) f = late_voter_at r f"
    "f \<noteq> fb \<Longrightarrow> late_voter_k_plus1 (free_window fb r) f = late_voter_k_plus1 r f"
proof -
  let ?n = "late_voter_count r fb" and ?r = "r\<lparr>fee_settled := (fee_settled r)(fb := True)\<rparr>"
  have "unat ?n < 2 ^ 32" using unat_lt_2p [of ?n] by simp
  note fs = free_slots [OF this, of fb ?r]
  have k: "(\<exists>i. unat i < unat ?n \<and> late_voter_at r fb i = v) \<longleftrightarrow> late_voter_k_plus1 r fb v \<noteq> 0" for v
    using assms set_credited [of r fb] by (auto simp: window_wf_def word_less_nat_alt)
  show "late_voter_k_plus1 (free_window fb r) fb = (\<lambda>_. 0)"
    using fs k by (auto simp: free_window_def Let_def fun_eq_iff)
  show "late_voter_count (free_window fb r) = (late_voter_count r)(fb := 0)"
    "fee_settled (free_window fb r) = (fee_settled r)(fb := True)" "pending_fees (free_window fb r) = (pending_fees r)(fb := 0)"
    "pending_fb_hash_at (free_window fb r) = pending_fb_hash_at r" "same_days r (free_window fb r)"
    "f \<noteq> fb \<Longrightarrow> late_voter_at (free_window fb r) f = late_voter_at r f"
    "f \<noteq> fb \<Longrightarrow> late_voter_k_plus1 (free_window fb r) f = late_voter_k_plus1 r f"
    using fs by (simp_all add: free_window_def Let_def same_days_def)
qed

lemma free_window_wf:
  assumes "\<forall>f. window_wf r f" shows "window_wf (free_window fb r) f"
proof (cases "f = fb")
  case True
  then show ?thesis using free_window_facts [of r fb] assms by (simp add: window_wf_def credited_def)
next
  case False
  then show ?thesis using free_window_facts [of r fb] assms by (simp add: window_wf_def credited_def)
qed

section \<open>Participation\<close>

lemma sum_participation_Suc:
  fixes f :: "address \<Rightarrow> u64"
  assumes "checked_add (f v) 1 = Some n"
  shows "(\<Sum>x\<in>UNIV. unat ((f(v := n)) x)) = (\<Sum>x\<in>UNIV. unat (f x)) + 1"
  using sum_unat_fun_upd [of f v n] checked_add_Some [OF assms] by simp

lemma count_participation_wf:
  assumes "count_participation fb day voter r = Inr r'" "\<forall>d. day_wf r d"
  shows "day_wf r' d" "same_windows r r'"
proof -
  show "same_windows r r'" using assms(1)
    by (auto simp: count_participation_def Let_def same_windows_def and_then_eq_Inr split: if_splits option.splits)
  show "day_wf r' d"
  proof (cases "participation_counted_for_block r fb voter")
    case True
    then show ?thesis using assms by (simp add: count_participation_def)
  next
    case False
    let ?p = "daily_participation r day voter"
    from False assms(1) obtain n t where n: "checked_add ?p 1 = Some n"
      and t: "checked_add (daily_total_participation r day) 1 = Some t"
      and part: "daily_participation r' = (daily_participation r)(day := (daily_participation r day)(voter := n))"
      and total: "daily_total_participation r' = (daily_total_participation r)(day := t)"
      and old: "?p \<noteq> 0 \<Longrightarrow> day_voters r' = day_voters r"
      and new: "?p = 0 \<Longrightarrow> day_voters r' = (day_voters r)(day := day_voters r day @ [voter])"
      by (auto simp: count_participation_def Let_def and_then_eq_Inr day_voters_def fun_eq_iff stored_checked_push
          split: if_splits option.splits)
    have nz: "n \<noteq> 0" using checked_add_Some [OF n] by auto
    have w: "day_wf r day" "day_wf r d" using assms(2) by blast+
    have sum: "unat t = (\<Sum>x\<in>UNIV. unat (((daily_participation r day)(voter := n)) x))"
      using sum_participation_Suc [of "daily_participation r day" voter n, OF n] checked_add_Some [OF t] w(1) by (simp add: day_wf_def)
    have "voter \<in> set (day_voters r day) \<longleftrightarrow> ?p \<noteq> 0" using w(1) by (simp add: day_wf_def)
    then have "distinct (day_voters r' day) \<and> (\<forall>v. v \<in> set (day_voters r' day) \<longleftrightarrow> v = voter \<or> daily_participation r day v \<noteq> 0)"
      using old new w(1) by (cases "?p = 0") (auto simp: day_wf_def)
    moreover have "day_voters r' d = day_voters r d" if "d \<noteq> day" using old new that by (cases "?p = 0") auto
    ultimately show ?thesis using w(2) nz sum unfolding day_wf_def part total by (cases "d = day") auto
  qed
qed

lemma fold_participation_wf:
  assumes "fold_res (count_participation fb day) voters r = Inr r'" "\<forall>d. day_wf r d"
  shows "(\<forall>d. day_wf r' d) \<and> same_windows r r'"
  using assms(1)
proof (rule fold_res_invariant [where P = "\<lambda>s. (\<forall>d. day_wf s d) \<and> same_windows r s"])
  show "(\<forall>d. day_wf r d) \<and> same_windows r r" using assms(2) by (simp add: same_windows_def)
next
  fix v s t
  assume "(\<forall>d. day_wf s d) \<and> same_windows r s" "count_participation fb day v s = Inr t"
  then show "(\<forall>d. day_wf t d) \<and> same_windows r t"
    using count_participation_wf [of fb day v s t] same_windows_trans by blast
qed

lemma prune_block_guards_wf:
  assumes "prune_block_guards fb r = Inr r'" "rewards_wf r" shows "rewards_wf r'"
proof -
  have "same_days r r'" "late_voter_count r' = late_voter_count r" "late_voter_at r' = late_voter_at r"
    "late_voter_k_plus1 r' = late_voter_k_plus1 r" "pending_fees r' = pending_fees r" "\<forall>f. fee_settled r' f \<longrightarrow> fee_settled r f"
    using assms(1) by (auto simp: prune_block_guards_def Let_def same_days_def split: option.splits if_splits)
  then show ?thesis using assms(2) by (auto simp: rewards_wf_def window_wf_def credited_def same_days_wf)
qed

lemma rewards_wf_cong: "same_windows r r' \<Longrightarrow> same_days r r' \<Longrightarrow> rewards_wf r \<Longrightarrow> rewards_wf r'"
  by (simp add: rewards_wf_def same_windows_wf same_days_wf)

lemma on_finalized_metadata_wf:
  assumes "on_finalized_metadata md fees ts voters r = Inr r'" "rewards_wf r"
  shows "rewards_wf r'"
proof -
  let ?fb = "finalized_block_hash md" and ?day = "timestamp_to_date_key ts"
  let ?r0 = "init_last_settled ?day r"
  from assms(1) obtain r1 r2 r3 where
    r1: "(if \<not> block_metadata_counted r ?fb then add_daily_fees ?fb ?day fees ?r0 else Inr ?r0) = Inr r1"
    and r2: "escrow_block_fee (finalized_block_number md) ?fb fees (len_u32 (ordered_committee md)) (finalized_epoch md)
      (finalized_view md) (parent_view md) (metadata_committee_set_hash md) voters r1 = Inr r2"
    and r3: "fold_res (count_participation ?fb ?day) voters r2 = Inr r3"
    and r4: "(if \<not> block_metadata_counted r ?fb then prune_block_guards ?fb (observe_finalized_day ?day r3)
      else Inr (observe_finalized_day ?day r3)) = Inr r'"
    unfolding on_finalized_metadata_def Let_def and_then_eq_Inr by blast
  have "rewards_wf ?r0"
    by (rule rewards_wf_cong [OF _ _ assms(2)]) (simp_all add: init_last_settled_def same_windows_def same_days_def)
  moreover have "same_windows ?r0 r1 \<and> same_days ?r0 r1"
    using r1 by (auto simp: add_daily_fees_def same_windows_def same_days_def split: if_splits option.splits)
  ultimately have w1: "rewards_wf r1" using rewards_wf_cong by blast
  then have "(\<forall>f. window_wf r2 f) \<and> same_days r1 r2" using escrow_block_fee_wf [OF r2] by (simp add: rewards_wf_def)
  then have w2: "rewards_wf r2" using w1 same_days_wf [of r1 r2] by (auto simp: rewards_wf_def)
  then have "(\<forall>d. day_wf r3 d) \<and> same_windows r2 r3" using fold_participation_wf [OF r3] by (simp add: rewards_wf_def)
  then have w3: "rewards_wf r3" using w2 same_windows_wf [of r2 r3] by (auto simp: rewards_wf_def)
  have ws: "rewards_wf (observe_finalized_day ?day r3)"
    by (rule rewards_wf_cong [OF _ _ w3]) (simp_all add: observe_finalized_day_def same_windows_def same_days_def)
  show ?thesis
  proof (cases "block_metadata_counted r ?fb")
    case True
    then show ?thesis using r4 ws by simp
  next
    case False
    then have "prune_block_guards ?fb (observe_finalized_day ?day r3) = Inr r'" using r4 by simp
    then show ?thesis using ws by (rule prune_block_guards_wf)
  qed
qed

section \<open>Settlement keeps the state well-formed\<close>

lemma transfer_balance_more:
  "transfer_balance a b x w = Inr w' \<Longrightarrow> world.more w' = world.more w \<and> vset w' = vset w \<and> stk w' = stk w"
  by (auto simp: transfer_balance_def Let_def split: if_splits)

lemma decrease_balance_more:
  "decrease_balance a x w = Inr w' \<Longrightarrow> world.more w' = world.more w \<and> vset w' = vset w \<and> stk w' = stk w"
  by (auto simp: decrease_balance_def split: if_splits)

lemma world_more_rewards:
  fixes w w' :: "'a reward_world_scheme"
  assumes "world.more w' = world.more w"
  shows "rewards w' = rewards w" "metadosis w' = metadosis w"
  using assms by (cases w; cases w'; simp)+

lemma pay_voter_rewards:
  assumes "pay_voter fb p den v (d, w) = Inr (d', w')"
  shows "rewards w' = rewards w \<and> metadosis w' = metadosis w"
proof (cases "w' = w")
  case False
  then obtain x where "transfer_balance REWARDS_ADDRESS v x w = Inr w'"
    using assms by (auto simp: pay_voter_def Let_def and_then_eq_Inr split: if_splits option.splits)
  then show ?thesis using transfer_balance_more world_more_rewards by blast
qed simp

lemma pay_all_rewards:
  assumes "fold_res (pay_voter fb p den) vs (d, w) = Inr (d', w')"
  shows "rewards w' = rewards w \<and> metadosis w' = metadosis w"
proof -
  have "rewards (snd (d', w')) = rewards w \<and> metadosis (snd (d', w')) = metadosis w"
    using assms
  proof (rule fold_res_invariant [where P = "\<lambda>s. rewards (snd s) = rewards w \<and> metadosis (snd s) = metadosis w"])
    fix v s t
    assume "rewards (snd s) = rewards w \<and> metadosis (snd s) = metadosis w" "pay_voter fb p den v s = Inr t"
    then show "rewards (snd t) = rewards w \<and> metadosis (snd t) = metadosis w"
      using pay_voter_rewards [of fb p den v "fst s" "snd s" "fst t" "snd t"] by simp
  qed simp
  then show ?thesis by simp
qed

lemma recycle_residue_rewards:
  assumes "recycle_residue env x w = Inr w'" shows "rewards w' = rewards w"
proof (cases "x = 0")
  case False
  then obtain w1 m where "decrease_balance REWARDS_ADDRESS x w = Inr w1" "w' = w1\<lparr>metadosis := m\<rparr>"
    using assms by (auto simp: recycle_residue_def and_then_eq_Inr)
  then show ?thesis using decrease_balance_more world_more_rewards(1) by fastforce
qed (use assms in \<open>simp add: recycle_residue_def\<close>)

lemma settle_windowE:
  assumes "settle_window env fb n w = Inr (res, w')"
  obtains "fee_settled (rewards w) fb" "res = (0, 0)" "w' = w"
  | d x w1 w2 where "\<not> fee_settled (rewards w) fb" "res = (d, x)" "fixed_denominator n \<noteq> 0"
      "fold_res (pay_voter fb (pending_fees (rewards w) fb) (fixed_denominator n)) (credited (rewards w) fb) (0, w) = Inr (d, w1)"
      "checked_sub (pending_fees (rewards w) fb) d = Some x" "recycle_residue env x w1 = Inr w2"
      "w' = upd_rewards (free_window fb) w2" "rewards w' = free_window fb (rewards w)"
proof (cases "fee_settled (rewards w) fb")
  case True
  then have "settle_window env fb n w = Inr ((0, 0), w)" by (simp add: settle_window_def)
  with assms have "res = (0, 0)" "w' = w" by simp_all
  then show ?thesis using that(1) [OF True] by blast
next
  case False
  let ?p = "pending_fees (rewards w) fb"
  have den: "fixed_denominator n \<noteq> 0" using assms False by (auto simp: settle_window_def Let_def)
  obtain d w1 where f: "fold_res (pay_voter fb ?p (fixed_denominator n)) (credited (rewards w) fb) (0, w) = Inr (d, w1)"
    using assms False den by (auto simp: settle_window_def Let_def and_then_eq_Inr credited_def)
  then obtain x where x: "checked_sub ?p d = Some x"
    using assms False den by (auto simp: settle_window_def Let_def credited_def split: option.splits)
  obtain w2 where w2: "recycle_residue env x w1 = Inr w2"
    using assms False den f x by (auto simp: settle_window_def Let_def credited_def and_then_eq_Inr)
  have r: "res = (d, x)" "w' = upd_rewards (free_window fb) w2"
    using assms False den f x w2 by (auto simp: settle_window_def Let_def credited_def split: option.splits if_splits)
  have "rewards w' = free_window fb (rewards w)"
    using r(2) pay_all_rewards [OF f] recycle_residue_rewards [OF w2] by (simp add: upd_rewards_def)
  then show ?thesis using that(2) [OF False r(1) den f x w2 r(2)] by blast
qed

lemma settle_window_wf:
  assumes "settle_window env fb n w = Inr (res, w')" "rewards_wf (rewards w)"
  shows "rewards_wf (rewards w')"
  using assms(1)
proof (cases rule: settle_windowE)
  case 2
  then show ?thesis using assms(2) free_window_wf free_window_facts(6) same_days_wf
    unfolding rewards_wf_def 2(8) by metis
qed (use assms(2) in simp)

lemma free_number_same: "same_windows r (free_number n r)" "same_days r (free_number n r)"
  by (simp_all add: free_number_def same_windows_def same_days_def)

lemma settle_matured_wf:
  assumes "settle_matured env h k w = Inr (res, w')" "rewards_wf (rewards w)"
  shows "rewards_wf (rewards w')"
proof -
  have "rewards_wf (rewards (upd_rewards (free_number m) v))" if "rewards_wf (rewards v)" for m and v :: "'a reward_world_scheme"
    using that rewards_wf_cong [OF free_number_same] by (simp add: upd_rewards_def)
  then show ?thesis using assms settle_window_wf
    by (fastforce simp: settle_matured_def Let_def and_then_eq_Inr split: option.splits if_splits)
qed

section \<open>Shares\<close>

definition share :: "rewards \<Rightarrow> b256 \<Rightarrow> u64 \<Rightarrow> address \<Rightarrow> nat" where
  "share r fb n v =
     (if late_voter_k_plus1 r fb v = 0 then 0
      else unat (pending_fees r fb) * unat (decay_weight (ucast (late_voter_k_plus1 r fb v - 1))) div (unat n * 100))"

lemma decay_weight_le: "unat (decay_weight k) \<le> 100"
proof (cases "unat k < 4")
  case True
  then consider "unat k = 0" | "unat k = 1" | "unat k = 2" | "unat k = 3" by linarith
  then show ?thesis by cases (simp_all add: decay_weight_def LATE_FINALIZE_DECAY_def)
qed (simp add: decay_weight_def LATE_FINALIZE_DECAY_def)

lemma unat_fixed_denominator: "unat (fixed_denominator n) = unat n * 100"
proof -
  have "unat n * 100 < 2 ^ 64 * 100" using unat_lt_2p [of n] by simp
  then have "unat n * 100 < 2 ^ 256" by simp
  then show ?thesis
    by (simp add: fixed_denominator_def saturating_mul_def checked_mul_def LATE_FINALIZE_W_MAX_def LATE_FINALIZE_DECAY_def
        unat_mult_exact)
qed

lemma share_le: "share r fb n v \<le> unat (pending_fees r fb) div unat n"
proof -
  have "unat (pending_fees r fb) * unat (decay_weight k) div (unat n * 100) \<le> unat (pending_fees r fb) * 100 div (unat n * 100)" for k
    by (intro div_le_mono mult_le_mono2 decay_weight_le)
  then show ?thesis by (simp add: share_def)
qed

lemma sum_shares_le:
  assumes "length vs \<le> unat n" shows "(\<Sum>v\<leftarrow>vs. share r fb n v) \<le> unat (pending_fees r fb)"
proof -
  have "(\<Sum>v\<leftarrow>vs. share r fb n v) \<le> (\<Sum>v\<leftarrow>vs. unat (pending_fees r fb) div unat n)"
    by (intro sum_list_mono share_le)
  also have "\<dots> = length vs * (unat (pending_fees r fb) div unat n)" by (simp add: sum_list_triv)
  also have "\<dots> \<le> unat n * (unat (pending_fees r fb) div unat n)" using assms by (rule mult_le_mono1)
  also have "\<dots> \<le> unat (pending_fees r fb)" by simp
  finally show ?thesis .
qed

section \<open>Payments\<close>

definition supply_ok :: "'a world_scheme \<Rightarrow> bool" where
  "supply_ok w \<longleftrightarrow> (\<Sum>a\<in>UNIV. unat (balances w a)) < 2 ^ 256"

lemma two_balances:
  assumes "supply_ok w" "a \<noteq> b" shows "unat (balances w a) + unat (balances w b) < 2 ^ 256"
proof -
  have "(\<Sum>x\<in>{a, b}. unat (balances w x)) \<le> (\<Sum>x\<in>UNIV. unat (balances w x))" by (rule sum_mono2) auto
  then show ?thesis using assms by (simp add: supply_ok_def)
qed

lemma transfer_balance_exact:
  assumes "supply_ok w" "a \<noteq> b" "unat x \<le> unat (balances w a)"
  obtains w' where "transfer_balance a b x w = Inr w'" "world.more w' = world.more w" "vset w' = vset w" "stk w' = stk w" "supply_ok w'"
    "\<And>c. unat (balances w' c) = (if c = a then unat (balances w a) - unat x
       else if c = b then unat (balances w b) + unat x else unat (balances w c))"
proof (cases "x = 0")
  case True
  then show ?thesis using that [of w] assms by (simp add: transfer_balance_def)
next
  case False
  let ?w = "w\<lparr>balances := (balances w)(a := balances w a - x, b := balances w b + x)\<rparr>"
  have le: "x \<le> balances w a" using assms(3) by (simp add: word_le_nat_alt)
  have s: "unat (balances w a - x) = unat (balances w a) - unat x" using le by (rule unat_sub_exact)
  have p: "unat (balances w b + x) = unat (balances w b) + unat x"
    using two_balances [OF assms(1,2)] assms(3) by (intro unat_add_exact) simp
  have "transfer_balance a b x w = Inr ?w"
    using False assms(2) le by (simp add: transfer_balance_def Let_def not_less)
  moreover have "(\<Sum>c\<in>UNIV. unat (((balances w)(a := balances w a - x, b := balances w b + x)) c)) = (\<Sum>c\<in>UNIV. unat (balances w c))"
    using sum_unat_fun_upd [of "(balances w)(a := balances w a - x)" b "balances w b + x"]
      sum_unat_fun_upd [of "balances w" a "balances w a - x"] s p assms(2,3) by simp
  ultimately show ?thesis using that [of ?w] assms s p by (simp add: supply_ok_def)
qed

lemma pay_voter_exact:
  assumes "supply_ok w" "v \<noteq> REWARDS_ADDRESS" "unat p * 100 < 2 ^ 256" "0 < unat n"
    and "p = pending_fees (rewards w) fb" "share (rewards w) fb n v \<le> unat (balances w REWARDS_ADDRESS)"
    and "unat d + share (rewards w) fb n v < 2 ^ 256"
  obtains d' w' where "pay_voter fb p (fixed_denominator n) v (d, w) = Inr (d', w')" "supply_ok w'" "world.more w' = world.more w"
    "unat d' = unat d + share (rewards w) fb n v"
    "\<And>c. unat (balances w' c) = (if c = REWARDS_ADDRESS then unat (balances w c) - share (rewards w) fb n v
       else if c = v then unat (balances w c) + share (rewards w) fb n v else unat (balances w c))"
proof -
  let ?st = "late_voter_k_plus1 (rewards w) fb v"
  let ?wt = "decay_weight (ucast (?st - 1))" and ?den = "fixed_denominator n"
  let ?amt = "p * ?wt div ?den"
  have "unat p * unat ?wt \<le> unat p * 100" by (intro mult_le_mono2 decay_weight_le)
  then have fits: "unat p * unat ?wt < 2 ^ 256" using assms(3) by linarith
  then have mul: "checked_mul p ?wt = Some (p * ?wt)" by (simp add: checked_mul_def)
  have den: "?den \<noteq> 0" using assms(4) unat_fixed_denominator [of n] by (auto simp: word_unat_eq_iff)
  have amt: "unat ?amt = share (rewards w) fb n v" if "?st \<noteq> 0"
    using that fits by (simp add: unat_div unat_mult_exact share_def unat_fixed_denominator assms(5))
  show ?thesis
  proof (cases "?st = 0 \<or> ?wt = 0 \<or> ?amt = 0")
    case True
    then have "share (rewards w) fb n v = 0" using amt by (auto simp: share_def)
    moreover have "pay_voter fb p ?den v (d, w) = Inr (d, w)"
      using True mul by (auto simp: pay_voter_def Let_def)
    ultimately show ?thesis using that [of d w] assms(1) by simp
  next
    case False
    then have a: "unat ?amt = share (rewards w) fb n v" using amt by simp
    obtain w' where w': "transfer_balance REWARDS_ADDRESS v ?amt w = Inr w'" "world.more w' = world.more w" "supply_ok w'"
      "\<And>c. unat (balances w' c) = (if c = REWARDS_ADDRESS then unat (balances w REWARDS_ADDRESS) - unat ?amt
         else if c = v then unat (balances w v) + unat ?amt else unat (balances w c))"
      using transfer_balance_exact [OF assms(1) assms(2) [symmetric], of ?amt] assms(6) a by metis
    have add: "checked_add d ?amt = Some (d + ?amt)" using assms(7) a by (simp add: checked_add_def)
    then have "pay_voter fb p ?den v (d, w) = Inr (d + ?amt, w')"
      using False mul w'(1) by (simp add: pay_voter_def Let_def)
    moreover have "unat (d + ?amt) = unat d + share (rewards w) fb n v" using checked_add_Some [OF add] a by simp
    ultimately show ?thesis using that [of "d + ?amt" w'] w' a by simp
  qed
qed

lemma pay_all_exact:
  assumes "distinct vs" "REWARDS_ADDRESS \<notin> set vs" "supply_ok w" "unat p * 100 < 2 ^ 256" "0 < unat n"
    and "p = pending_fees (rewards w) fb" "(\<Sum>v\<leftarrow>vs. share (rewards w) fb n v) \<le> unat (balances w REWARDS_ADDRESS)"
    and "unat d + (\<Sum>v\<leftarrow>vs. share (rewards w) fb n v) < 2 ^ 256"
  shows "\<exists>d' w'. fold_res (pay_voter fb p (fixed_denominator n)) vs (d, w) = Inr (d', w') \<and> supply_ok w' \<and>
    world.more w' = world.more w \<and> unat d' = unat d + (\<Sum>v\<leftarrow>vs. share (rewards w) fb n v) \<and>
    (\<forall>c. unat (balances w' c) = (if c = REWARDS_ADDRESS then unat (balances w c) - (\<Sum>v\<leftarrow>vs. share (rewards w) fb n v)
       else if c \<in> set vs then unat (balances w c) + share (rewards w) fb n c else unat (balances w c)))"
  using assms
proof (induction vs arbitrary: d w)
  case (Cons v vs)
  obtain d1 w1 where s1: "pay_voter fb p (fixed_denominator n) v (d, w) = Inr (d1, w1)" "supply_ok w1"
    "world.more w1 = world.more w" "unat d1 = unat d + share (rewards w) fb n v"
    "\<And>c. unat (balances w1 c) = (if c = REWARDS_ADDRESS then unat (balances w c) - share (rewards w) fb n v
       else if c = v then unat (balances w c) + share (rewards w) fb n v else unat (balances w c))"
    using pay_voter_exact [of w v p n fb d] Cons.prems by auto
  have r: "rewards w1 = rewards w" using s1(3) by (rule world_more_rewards)
  have prems: "distinct vs" "REWARDS_ADDRESS \<notin> set vs"
    "(\<Sum>v\<leftarrow>vs. share (rewards w) fb n v) \<le> unat (balances w1 REWARDS_ADDRESS)"
    "unat d1 + (\<Sum>v\<leftarrow>vs. share (rewards w) fb n v) < 2 ^ 256"
    using Cons.prems s1(4,5) by simp_all
  obtain d2 w2 where s2: "fold_res (pay_voter fb p (fixed_denominator n)) vs (d1, w1) = Inr (d2, w2)" "supply_ok w2"
    "world.more w2 = world.more w1" "unat d2 = unat d1 + (\<Sum>v\<leftarrow>vs. share (rewards w) fb n v)"
    "\<And>c. unat (balances w2 c) = (if c = REWARDS_ADDRESS then unat (balances w1 c) - (\<Sum>v\<leftarrow>vs. share (rewards w) fb n v)
       else if c \<in> set vs then unat (balances w1 c) + share (rewards w) fb n c else unat (balances w1 c))"
    using Cons.IH [of w1 d1, unfolded r, OF prems(1,2) s1(2) Cons.prems(4,5,6) prems(3,4)] by blast
  show ?case
    using s1 s2 Cons.prems(1,2) by (intro exI [of _ d2] exI [of _ w2]) auto
qed auto

section \<open>Settlement\<close>

definition solvent_window :: "'a reward_world_scheme \<Rightarrow> b256 \<Rightarrow> u64 \<Rightarrow> bool" where
  "solvent_window w fb n \<longleftrightarrow> window_wf (rewards w) fb \<and> \<not> fee_settled (rewards w) fb \<and> 0 < n \<and>
     length (credited (rewards w) fb) \<le> unat n \<and> REWARDS_ADDRESS \<notin> set (credited (rewards w) fb) \<and> supply_ok w \<and>
     unat (pending_fees (rewards w) fb) * 100 < 2 ^ 256 \<and> pending_fees (rewards w) fb \<le> balances w REWARDS_ADDRESS"

definition settled_balances :: "'a reward_world_scheme \<Rightarrow> b256 \<Rightarrow> u64 \<Rightarrow> address \<Rightarrow> nat" where
  "settled_balances w fb n c =
     (if c = REWARDS_ADDRESS then unat (balances w c) - unat (pending_fees (rewards w) fb)
      else if c \<in> set (credited (rewards w) fb) then unat (balances w c) + share (rewards w) fb n c
      else unat (balances w c))"

lemma dispatch_terminal_exact:
  "dispatch_terminal_remainder_at b x t m = Inr (if x = 0 then m else snd (emission_sink_apply b t x m))"
  by (simp add: dispatch_terminal_remainder_at_def emission_sink_apply_def Let_def)

lemma recycle_residue_exact:
  assumes "x \<le> balances w REWARDS_ADDRESS"
  obtains w' where "recycle_residue env x w = Inr w'" "rewards w' = rewards w"
    "metadosis w' = (if x = 0 then metadosis w else snd (emission_sink_apply (env_block_number env) (env_timestamp env) x (metadosis w)))"
    "\<forall>c. unat (balances w' c) = (if c = REWARDS_ADDRESS then unat (balances w c) - unat x else unat (balances w c))"
proof (cases "x = 0")
  case True
  then show ?thesis using that [of w] by (simp add: recycle_residue_def)
next
  case False
  let ?w = "w\<lparr>balances := (balances w)(REWARDS_ADDRESS := balances w REWARDS_ADDRESS - x)\<rparr>"
  have "decrease_balance REWARDS_ADDRESS x w = Inr ?w"
    using False assms by (simp add: decrease_balance_def not_less)
  then have "recycle_residue env x w = Inr (?w\<lparr>metadosis := snd (emission_sink_apply (env_block_number env) (env_timestamp env) x (metadosis w))\<rparr>)"
    using False by (simp add: recycle_residue_def dispatch_terminal_exact)
  then show ?thesis using that False assms by (simp add: unat_sub_exact)
qed

lemma settle_window_exact:
  assumes s: "solvent_window w fb n"
  obtains d x w' where "settle_window env fb n w = Inr ((d, x), w')"
    "unat d = (\<Sum>v\<leftarrow>credited (rewards w) fb. share (rewards w) fb n v)" "unat d + unat x = unat (pending_fees (rewards w) fb)"
    "\<And>c. unat (balances w' c) = settled_balances w fb n c" "rewards w' = free_window fb (rewards w)"
    "metadosis w' = (if x = 0 then metadosis w else snd (emission_sink_apply (env_block_number env) (env_timestamp env) x (metadosis w)))"
proof -
  let ?p = "pending_fees (rewards w) fb" and ?vs = "credited (rewards w) fb"
  have n: "0 < unat n" using s by (simp add: solvent_window_def word_gt_0 unat_gt_0)
  have sum: "(\<Sum>v\<leftarrow>?vs. share (rewards w) fb n v) \<le> unat ?p" using s by (intro sum_shares_le) (simp add: solvent_window_def)
  have p: "unat ?p \<le> unat (balances w REWARDS_ADDRESS)" using s by (simp add: solvent_window_def word_le_nat_alt)
  have prems: "distinct ?vs" "REWARDS_ADDRESS \<notin> set ?vs" "supply_ok w" "unat ?p * 100 < 2 ^ 256"
    using s unfolding solvent_window_def window_wf_def by blast+
  have room: "unat (0 :: u256) + (\<Sum>v\<leftarrow>?vs. share (rewards w) fb n v) < 2 ^ 256" using sum unat_lt_2p [of ?p] by simp
  obtain d w1 where pay: "fold_res (pay_voter fb ?p (fixed_denominator n)) ?vs (0, w) = Inr (d, w1)"
    "world.more w1 = world.more w" "unat d = (\<Sum>v\<leftarrow>?vs. share (rewards w) fb n v)"
    "\<forall>c. unat (balances w1 c) = (if c = REWARDS_ADDRESS then unat (balances w c) - (\<Sum>v\<leftarrow>?vs. share (rewards w) fb n v)
       else if c \<in> set ?vs then unat (balances w c) + share (rewards w) fb n c else unat (balances w c))"
    using pay_all_exact [OF prems n refl order_trans [OF sum p] room] by auto
  have "d \<le> ?p" using pay(3) sum by (simp add: word_le_nat_alt)
  then have x: "checked_sub ?p d = Some (?p - d)" "unat (?p - d) = unat ?p - unat d"
    by (simp_all add: checked_sub_def unat_sub_exact)
  have "?p - d \<le> balances w1 REWARDS_ADDRESS" using x(2) pay(3,4) p by (simp add: word_le_nat_alt)
  then obtain w2 where rec: "recycle_residue env (?p - d) w1 = Inr w2" "rewards w2 = rewards w1"
    "metadosis w2 = (if ?p - d = 0 then metadosis w1 else snd (emission_sink_apply (env_block_number env) (env_timestamp env) (?p - d) (metadosis w1)))"
    "\<forall>c. unat (balances w2 c) = (if c = REWARDS_ADDRESS then unat (balances w1 c) - unat (?p - d) else unat (balances w1 c))"
    by (rule recycle_residue_exact [where env = env])
  have par: "unat d + unat (?p - d) = unat ?p" using x(2) pay(3) sum by simp
  then have add: "checked_add d (?p - d) = Some ?p" using unat_lt_2p [of ?p] by (simp add: checked_add_def)
  have den: "fixed_denominator n \<noteq> 0" using n unat_fixed_denominator [of n] by (auto simp: word_unat_eq_iff)
  have ns: "\<not> fee_settled (rewards w) fb" using s by (simp add: solvent_window_def)
  have res: "settle_window env fb n w = Inr ((d, ?p - d), upd_rewards (free_window fb) w2)"
    using ns den pay(1) x(1) rec(1) add by (simp add: settle_window_def Let_def credited_def)
  note more = world_more_rewards [OF pay(2)]
  have bal: "unat (balances w2 c) = settled_balances w fb n c" for c
    using rec(4) pay(3,4) x(2) prems(2) sum by (auto simp: settled_balances_def)
  show ?thesis
    using that [OF res pay(3) par] bal rec(2,3) more by (simp add: upd_rewards_def)
qed

section \<open>Every operation keeps the state well-formed\<close>

inductive reward_step :: "'a reward_world_scheme \<Rightarrow> 'a reward_world_scheme \<Rightarrow> bool" where
  anchor: "reward_step w (upd_rewards (rewards_begin_block env) w)"
| fingerprint: "check_and_record_metadata_fingerprint c md fees h (rewards w) = Inr (res, r) \<Longrightarrow> reward_step w (w\<lparr>rewards := r\<rparr>)"
| finalized: "on_finalized_metadata md fees ts voters (rewards w) = Inr r \<Longrightarrow> reward_step w (w\<lparr>rewards := r\<rparr>)"
| credit: "record_late_credit fb voter k (rewards w) = Inr r \<Longrightarrow> unat k \<le> unat LATE_FINALIZE_WINDOW_K \<Longrightarrow>
    reward_step w (w\<lparr>rewards := r\<rparr>)"
| settle: "settle_matured env h k w = Inr (res, w') \<Longrightarrow> reward_step w w'"
| settled_day: "reward_step w (upd_rewards (mark_day_settled day) w)"

lemma reward_step_wf:
  assumes "reward_step w w'" "rewards_wf (rewards w)" shows "rewards_wf (rewards w')"
  using assms
proof cases
  case (anchor env)
  then show ?thesis using assms(2) rewards_wf_cong [of "rewards w" "rewards w'"]
    by (simp add: upd_rewards_def rewards_begin_block_def ensure_genesis_anchor_def Let_def same_windows_def same_days_def)
next
  case (fingerprint c md fees h res r)
  then show ?thesis using assms(2) rewards_wf_cong [of "rewards w" r]
    by (auto simp: check_and_record_metadata_fingerprint_def Let_def same_windows_def same_days_def split: if_splits)
next
  case (finalized md fees ts voters r)
  then show ?thesis using assms(2) on_finalized_metadata_wf by simp
next
  case (credit fb voter k r)
  then have "k < 255" by (simp add: LATE_FINALIZE_WINDOW_K_def word_less_nat_alt)
  then show ?thesis using credit assms(2) record_late_credit_wf [OF credit(2)]
    by (simp add: rewards_wf_def same_days_wf)
next
  case (settle env h k res)
  then show ?thesis using assms(2) settle_matured_wf by blast
next
  case (settled_day day)
  then show ?thesis using assms(2) rewards_wf_cong [of "rewards w" "rewards w'"]
    by (simp add: upd_rewards_def mark_day_settled_def same_windows_def same_days_def)
qed

text \<open>The state before the first block, and an example world around it.\<close>

definition empty_rewards :: rewards where
  "empty_rewards = \<lparr>rw_genesis_utc_day = 0, participation_counted_for_block = \<lambda>_ _. False, daily_fee_sum_raw = \<lambda>_. 0,
     daily_fees_paid = \<lambda>_. 0, daily_fee_dust = \<lambda>_. 0, daily_participation = \<lambda>_ _. 0, daily_total_participation = \<lambda>_. 0,
     daily_voter_count = \<lambda>_. 0, daily_voter_at = \<lambda>_ _. 0, daily_settled = \<lambda>_. False, max_observed_finalized_day = 0,
     last_settled_utc_day = 0, block_metadata_counted = \<lambda>_. False, metadata_fingerprint_for_block = \<lambda>_. B256_ZERO,
     fee_dust_counted_for_block = \<lambda>_. False, daily_topup_settled = \<lambda>_. False, pending_fees = \<lambda>_. 0, fee_settled = \<lambda>_. False,
     late_voter_k_plus1 = \<lambda>_ _. 0, late_voter_count = \<lambda>_. 0, late_voter_at = \<lambda>_ _. 0, pending_fb_hash_at = \<lambda>_. B256_ZERO,
     pending_committee_size_at = \<lambda>_. 0, pending_epoch_at = \<lambda>_. 0, pending_committee_set_hash_at = \<lambda>_. B256_ZERO,
     pending_view_at = \<lambda>_. 0, pending_parent_view_at = \<lambda>_. 0, block_guard_ring = \<lambda>_. B256_ZERO, block_guard_ring_seq = 0\<rparr>"

definition empty_metadosis :: metadosis where
  "empty_metadosis = \<lparr>bootstrap_end_time = 0, worldwide_days = \<lambda>_. no_worldwide_day, day_limit_amount = \<lambda>_. 0,
     day_limit_used = \<lambda>_. False, active_wwd_count = 0, active_wwds = \<lambda>_. 0, config_oracle_pair_hash = B256_ZERO,
     day_limit_exists = \<lambda>_. False, day_limit_count = 0, day_limit_dates = \<lambda>_. 0, md_events = []\<rparr>"

lemma empty_rewards_wf: "rewards_wf empty_rewards"
  by (simp add: rewards_wf_def window_wf_def day_wf_def credited_def day_voters_def empty_rewards_def)

text \<open>Block 10, fee 1000, escrowed with two of four committee members credited.\<close>

definition demo_fb :: b256 where "demo_fb = replicate 32 1"

definition demo_window :: rewards where
  "demo_window = empty_rewards
     \<lparr>pending_fees := (\<lambda>_. 0)(demo_fb := 1000),
      late_voter_count := (\<lambda>_. 0)(demo_fb := 2),
      late_voter_at := (\<lambda>_ _. 0)(demo_fb := ((\<lambda>_. 0)(0 := 7, 1 := 8))),
      late_voter_k_plus1 := (\<lambda>_ _. 0)(demo_fb := ((\<lambda>_. 0)(7 := 1, 8 := 4))),
      pending_fb_hash_at := (\<lambda>_. B256_ZERO)(10 := demo_fb),
      pending_committee_size_at := (\<lambda>_. 0)(10 := 4)\<rparr>"

definition reward_demo :: reward_world where
  "reward_demo = \<lparr>balances = (\<lambda>_. 0)(REWARDS_ADDRESS := 5000), vset = vset slash_demo, stk = stk slash_demo,
     slash = slash slash_demo, snapshots = snapshots slash_demo, rewards = demo_window, metadosis = empty_metadosis\<rparr>"

lemma upt_0_2: "[0..<2] = [0, 1]"
  by (simp add: upt_rec)

lemma demo_window_fields [simp]:
  "credited demo_window demo_fb = [7, 8]" "pending_fees demo_window demo_fb = 1000" "fee_settled demo_window demo_fb = False"
  "late_voter_k_plus1 demo_window demo_fb = (\<lambda>_. 0)(7 := 1, 8 := 4)"
  by (simp_all add: demo_window_def credited_def stored_def upt_0_2 empty_rewards_def)

lemma demo_window_wf: "window_wf demo_window demo_fb"
  by (simp add: window_wf_def)

lemma reward_demo_fields [simp]:
  "rewards reward_demo = demo_window" "balances reward_demo = (\<lambda>_. 0)(REWARDS_ADDRESS := 5000)" "metadosis reward_demo = empty_metadosis"
  by (simp_all add: reward_demo_def)

lemma reward_demo_solvent: "solvent_window reward_demo demo_fb 4"
proof -
  have "(\<Sum>a\<in>UNIV. unat (balances reward_demo a)) = 5000"
    using sum_unat_fun_upd [of "(\<lambda>_. 0) :: address \<Rightarrow> u256" REWARDS_ADDRESS 5000] by simp
  then show ?thesis using demo_window_wf by (simp add: solvent_window_def supply_ok_def REWARDS_ADDRESS_def)
qed

section \<open>Properties\<close>

text \<open>
  C2. Settling a solvent window pays every credited voter exactly its fixed share (its decay weight
  over committee size times maximal weight, whoever else voted), burns the rest, and conserves the
  escrow: distributed plus residue is the escrowed fee, the rewards account pays exactly that, no
  other balance changes, and the residue is what terminal emission receives. The window is then
  closed: a second settlement pays nothing.
\<close>

theorem settle_window_correct:
  assumes "solvent_window w fb n"
  shows "\<exists>d x w'. settle_window env fb n w = Inr ((d, x), w') \<and>
    unat d = (\<Sum>v\<leftarrow>credited (rewards w) fb. share (rewards w) fb n v) \<and>
    unat d + unat x = unat (pending_fees (rewards w) fb) \<and>
    (\<forall>c. unat (balances w' c) = settled_balances w fb n c) \<and>
    metadosis w' = (if x = 0 then metadosis w
      else snd (emission_sink_apply (env_block_number env) (env_timestamp env) x (metadosis w))) \<and>
    fee_settled (rewards w') fb \<and> pending_fees (rewards w') fb = 0 \<and> credited (rewards w') fb = [] \<and>
    (\<forall>env' n'. settle_window env' fb n' w' = Inr ((0, 0), w'))"
proof -
  obtain d x w' where r: "settle_window env fb n w = Inr ((d, x), w')"
    "unat d = (\<Sum>v\<leftarrow>credited (rewards w) fb. share (rewards w) fb n v)" "unat d + unat x = unat (pending_fees (rewards w) fb)"
    "\<And>c. unat (balances w' c) = settled_balances w fb n c" "rewards w' = free_window fb (rewards w)"
    "metadosis w' = (if x = 0 then metadosis w else snd (emission_sink_apply (env_block_number env) (env_timestamp env) x (metadosis w)))"
    using settle_window_exact [OF assms] by blast
  have "window_wf (rewards w) fb" using assms by (simp add: solvent_window_def)
  note f = free_window_facts [OF this]
  have again: "settle_window env' fb n' w' = Inr ((0, 0), w')" for env' n'
    using f(3) r(5) by (simp add: settle_window_def)
  show ?thesis using r f again by (intro exI [of _ d] exI [of _ x] exI [of _ w']) (simp add: credited_def)
qed

theorem settle_window_correct_witness:
  "\<exists>d x w'. settle_window slash_env demo_fb 4 reward_demo = Inr ((d, x), w') \<and> unat d = 250 \<and> unat x = 750 \<and>
    unat (balances w' 7) = 250 \<and> unat (balances w' 8) = 0 \<and> unat (balances w' REWARDS_ADDRESS) = 4000"
proof -
  have "share demo_window demo_fb 4 7 = 250" "share demo_window demo_fb 4 8 = 0"
    by (simp_all add: share_def decay_weight_def LATE_FINALIZE_DECAY_def)
  then show ?thesis using settle_window_correct [OF reward_demo_solvent, of slash_env]
    by (auto simp: settled_balances_def REWARDS_ADDRESS_def)
qed

text \<open>
  C15. Whatever sequence of operations runs on the rewards module, its storage stays well-formed:
  the credited voters of a block are enumerated without duplicates and are exactly those with a
  recorded distance, a settled block holds no escrow and no credits, the voters of a day are
  enumerated without duplicates and are exactly those that participated, and the day's total is
  the sum of their counts.
\<close>

theorem rewards_state_wf:
  assumes "reward_step\<^sup>*\<^sup>* w w'" "rewards_wf (rewards w)"
  shows "rewards_wf (rewards w')"
  using assms by (induction rule: rtranclp_induct) (auto intro: reward_step_wf)

theorem rewards_state_wf_witness:
  "\<exists>r. record_late_credit demo_fb 7 1 empty_rewards = Inr r \<and> credited r demo_fb = [7] \<and>
    rewards_wf (rewards (reward_demo\<lparr>rewards := r\<rparr>))"
proof -
  let ?w = "reward_demo\<lparr>rewards := empty_rewards\<rparr>"
  obtain r where r: "record_late_credit demo_fb 7 1 empty_rewards = Inr r"
    by (cases "record_late_credit demo_fb 7 1 empty_rewards") (auto simp: record_late_credit_def Let_def empty_rewards_def checked_add_def)
  then have c: "credited r demo_fb = [7]"
    by (auto simp: record_late_credit_def Let_def empty_rewards_def checked_add_def credited_def stored_def)
  from r have "reward_step ?w (?w\<lparr>rewards := r\<rparr>)"
    using reward_step.credit [of demo_fb 7 1 ?w r] by (simp add: LATE_FINALIZE_WINDOW_K_def)
  then have "reward_step\<^sup>*\<^sup>* ?w (?w\<lparr>rewards := r\<rparr>)" by (rule r_into_rtranclp)
  from rewards_state_wf [OF this] empty_rewards_wf r c show ?thesis by simp
qed

end
