(* ===== verification/Agent_Properties.thy ===== *)
theory Agent_Properties
  imports Agent_Reward Rewards_Properties
begin

text \<open>
  Exactness of the capped distribution, its 32 percent cap, and solvency of the claimable balances of the
  agent reward contract.
\<close>

section \<open>The capped distribution\<close>

definition shares_sum :: "share_entry list \<Rightarrow> nat" where
  "shares_sum es = (\<Sum>e\<leftarrow>es. unat (se_share e))"

definition entry_ok :: "u256 \<Rightarrow> share_entry \<Rightarrow> bool" where
  "entry_ok M e \<longleftrightarrow> se_share e \<le> M \<and> (se_capped e \<longrightarrow> se_share e = M)"

definition tags :: "share_entry list \<Rightarrow> (address \<times> u64) list" where
  "tags es = map (\<lambda>e. (se_address e, se_count e)) es"

lemma closed_entry: "entry_ok M e \<Longrightarrow> \<not> open_entry M e \<Longrightarrow> se_share e = M"
  by (auto simp: entry_ok_def open_entry_def)

lemma room: "entry_ok M e \<Longrightarrow> unat (saturating_sub M (se_share e)) + unat (se_share e) = unat M"
  by (simp add: unat_saturating_sub entry_ok_def word_le_nat_alt)

lemma give_ok:
  assumes "entry_ok M e" "x \<le> saturating_sub M (se_share e)" "open_entry M e"
  shows "entry_ok M (give M x e)" "unat (se_share (give M x e)) = unat (se_share e) + unat x"
    "se_address (give M x e) = se_address e" "se_count (give M x e) = se_count e"
proof -
  have le: "unat x + unat (se_share e) \<le> unat M" using room [OF assms(1)] assms(2) by (simp add: word_le_nat_alt)
  then have s: "unat (se_share e + x) = unat (se_share e) + unat x"
    using unat_lt_2p [of M] by (intro unat_add_exact) simp
  show "unat (se_share (give M x e)) = unat (se_share e) + unat x" using s by (simp add: give_def Let_def)
  have "se_share e + x \<le> M" using s le by (simp add: word_le_nat_alt)
  then show "entry_ok M (give M x e)" using assms(3) by (auto simp: entry_ok_def give_def Let_def open_entry_def)
qed (simp_all add: give_def Let_def)

lemma proportional_le:
  fixes x c A :: u256
  assumes "unat x * unat c < 2 ^ 256" "c \<le> A"
  shows "x * c div A \<le> x"
proof (cases "A = 0")
  case False
  then have "0 < unat A" by (simp add: unat_gt_0)
  have "unat (x * c div A) = unat x * unat c div unat A" using assms(1) by (simp add: unat_div unat_mult_exact)
  also have "\<dots> \<le> unat x * unat A div unat A" using assms(2) by (intro div_le_mono mult_le_mono2) (simp add: word_le_nat_alt)
  also have "\<dots> = unat x" using \<open>0 < unat A\<close> by simp
  finally show ?thesis by (simp add: word_le_nat_alt)
qed simp

lemma shares_sum_Cons [simp]: "shares_sum (e # es) = unat (se_share e) + shares_sum es"
  and tags_Cons [simp]: "tags (e # es) = (se_address e, se_count e) # tags es"
  by (simp_all add: shares_sum_def tags_def)

lemma give_pass_spec:
  assumes "give_pass M A es x = (es', x')" "\<forall>e\<in>set es. entry_ok M e" "unat x * unat M < 2 ^ 256"
    and "\<forall>e\<in>set es. open_entry M e \<longrightarrow> saturating_sub M (se_share e) \<le> A"
  shows "shares_sum es' + unat x' = shares_sum es + unat x \<and> (\<forall>e\<in>set es'. entry_ok M e) \<and> tags es' = tags es \<and> x' \<le> x"
  using assms
proof (induction es arbitrary: x es' x')
  case (Cons e es)
  define c where "c = saturating_sub M (se_share e)"
  define g where "g = min c (x * c div A)"
  have step: "give_pass M A (e # es) x =
    (if \<not> open_entry M e \<or> c = 0 \<or> g = 0 then let (es', y) = give_pass M A es x in (e # es', y)
     else if x - g = 0 then (give M g e # es, x - g)
     else let (es', y) = give_pass M A es (x - g) in (give M g e # es', y))"
    by (simp add: c_def g_def Let_def)
  have tail: "\<forall>e\<in>set es. entry_ok M e" "\<forall>e\<in>set es. open_entry M e \<longrightarrow> saturating_sub M (se_share e) \<le> A"
    using Cons.prems by simp_all
  have ok: "entry_ok M e" using Cons.prems(2) by simp
  show ?case
  proof (cases "\<not> open_entry M e \<or> c = 0 \<or> g = 0")
    case True
    obtain es1 x1 where r: "give_pass M A es x = (es1, x1)" by (cases "give_pass M A es x")
    then have eq: "es' = e # es1" "x' = x1" using Cons.prems(1) True unfolding step by simp_all
    show ?thesis using Cons.IH [OF r tail(1) Cons.prems(3) tail(2)] ok unfolding eq by simp
  next
    case False
    have "unat c \<le> unat M" using room [OF ok] unfolding c_def by linarith
    then have "unat x * unat c < 2 ^ 256" using Cons.prems(3) mult_le_mono2 order_le_less_trans by blast
    moreover have "c \<le> A" using Cons.prems(4) False by (simp add: c_def)
    ultimately have "x * c div A \<le> x" by (rule proportional_le)
    then have gx: "g \<le> x" unfolding g_def by (rule min.coboundedI2)
    have op: "open_entry M e" using False by blast
    have "g \<le> saturating_sub M (se_share e)" unfolding g_def c_def by (rule min.cobounded1)
    note gv = give_ok [OF ok this op]
    have sub: "unat (x - g) + unat g = unat x" using gx by (simp add: unat_sub_exact word_le_nat_alt)
    show ?thesis
    proof (cases "x - g = 0")
      case True
      then have eq: "es' = give M g e # es" "x' = 0" using Cons.prems(1) False unfolding step by simp_all
      have "unat g = unat x" using sub unfolding True by simp
      then show ?thesis using gv tail unfolding eq by simp
    next
      case nz: False
      obtain es1 x1 where r: "give_pass M A es (x - g) = (es1, x1)" by (cases "give_pass M A es (x - g)")
      then have eq: "es' = give M g e # es1" "x' = x1" using Cons.prems(1) False nz unfolding step by simp_all
      have le: "x - g \<le> x" using sub by (simp add: word_le_nat_alt)
      have "unat (x - g) * unat M \<le> unat x * unat M" using sub by (intro mult_le_mono1) simp
      then have "unat (x - g) * unat M < 2 ^ 256" using Cons.prems(3) by (rule order_le_less_trans)
      note h = Cons.IH [OF r tail(1) this tail(2)]
      have "x1 \<le> x" using h le order_trans by blast
      then show ?thesis using gv sub h unfolding eq by simp
    qed
  qed
qed (simp add: shares_sum_def tags_def)

lemma dust_pass_spec:
  assumes "dust_pass M es x b = (es', x', b')" "\<forall>e\<in>set es. entry_ok M e" "x \<noteq> 0"
  shows "shares_sum es' + unat x' = shares_sum es + unat x \<and> (\<forall>e\<in>set es'. entry_ok M e) \<and> tags es' = tags es \<and> x' \<le> x \<and>
    (x' \<noteq> 0 \<longrightarrow> (\<forall>e\<in>set es'. se_share e = M))"
  using assms
proof (induction es arbitrary: x es' x' b b')
  case (Cons e es)
  define c where "c = saturating_sub M (se_share e)"
  define g where "g = min c x"
  have step: "dust_pass M (e # es) x b =
    (if \<not> open_entry M e \<or> c = 0 then let (es', y) = dust_pass M es x b in (e # es', y)
     else if x - g = 0 then (give M g e # es, x - g, True)
     else let (es', y) = dust_pass M es (x - g) True in (give M g e # es', y))"
    by (simp add: c_def g_def Let_def)
  have ok: "entry_ok M e" and tail: "\<forall>e\<in>set es. entry_ok M e" using Cons.prems(2) by simp_all
  show ?case
  proof (cases "\<not> open_entry M e \<or> c = 0")
    case True
    obtain es1 x1 b1 where r: "dust_pass M es x b = (es1, x1, b1)" by (cases "dust_pass M es x b")
    then have eq: "es' = e # es1" "x' = x1" using Cons.prems(1) True unfolding step by simp_all
    have "se_share e = M" using True closed_entry [OF ok] room [OF ok] by (auto simp: word_unat_eq_iff c_def)
    then show ?thesis using Cons.IH [OF r tail Cons.prems(3)] ok unfolding eq by simp
  next
    case False
    have op: "open_entry M e" using False by blast
    have "g \<le> saturating_sub M (se_share e)" unfolding g_def c_def by (rule min.cobounded1)
    note gv = give_ok [OF ok this op]
    have "g \<le> x" unfolding g_def by (rule min.cobounded2)
    then have sub: "unat (x - g) + unat g = unat x" by (simp add: unat_sub_exact word_le_nat_alt)
    show ?thesis
    proof (cases "x - g = 0")
      case True
      then have eq: "es' = give M g e # es" "x' = 0" using Cons.prems(1) False unfolding step by simp_all
      have "unat g = unat x" using sub unfolding True by simp
      then show ?thesis using gv tail unfolding eq by simp
    next
      case nz: False
      obtain es1 x1 b1 where r: "dust_pass M es (x - g) True = (es1, x1, b1)" by (cases "dust_pass M es (x - g) True")
      then have eq: "es' = give M g e # es1" "x' = x1" using Cons.prems(1) False nz unfolding step by simp_all
      have "g = c" using nz by (auto simp: min_def g_def)
      then have full: "se_share (give M g e) = M" using gv(2) room [OF ok] by (simp add: word_unat_eq_iff c_def)
      note h = Cons.IH [OF r tail nz]
      have "x - g \<le> x" using sub by (simp add: word_le_nat_alt)
      then have "x1 \<le> x" using h order_trans by blast
      then show ?thesis using gv sub full h unfolding eq by simp
    qed
  qed
qed (simp add: shares_sum_def tags_def)

lemma fold_add_exact:
  fixes xs :: "u256 list"
  shows "unat acc + (\<Sum>x\<leftarrow>xs. unat x) < 2 ^ 256 \<Longrightarrow>
    unat (fold (\<lambda>v acc. acc + v) xs acc) = unat acc + (\<Sum>x\<leftarrow>xs. unat x)"
proof (induction xs arbitrary: acc)
  case (Cons x xs)
  have "unat (acc + x) = unat acc + unat x" using Cons.prems by (intro unat_add_exact) simp
  then show ?case using Cons.IH [of "acc + x"] Cons.prems by simp
qed simp

lemma available_room_bounds:
  assumes "length es * unat M < 2 ^ 256" "\<forall>e\<in>set es. entry_ok M e" "e \<in> set es" "open_entry M e"
  shows "saturating_sub M (se_share e) \<le> available_room M es"
proof -
  let ?f = "\<lambda>e. saturating_sub M (se_share e)" and ?es = "filter (open_entry M) es"
  have le_room: "unat (?f e) \<le> unat M" if "e \<in> set ?es" for e
    using room [of M e] assms(2) that by auto
  have "(\<Sum>x\<leftarrow>map ?f ?es. unat x) \<le> length ?es * unat M"
    using sum_list_mono [of ?es "\<lambda>e. unat (?f e)" "\<lambda>e. unat M", OF le_room] by (simp add: sum_list_triv comp_def)
  also have "\<dots> \<le> length es * unat M" by (intro mult_le_mono1) simp
  finally have "(\<Sum>x\<leftarrow>map ?f ?es. unat x) < 2 ^ 256" using assms(1) by linarith
  then have "unat (available_room M es) = (\<Sum>x\<leftarrow>map ?f ?es. unat x)"
    using fold_add_exact [of 0 "map ?f ?es"] unfolding available_room_def by simp
  moreover have "unat (?f e) \<le> (\<Sum>x\<leftarrow>map ?f ?es. unat x)"
    using assms(3,4) by (intro member_le_sum_list) auto
  ultimately show ?thesis by (simp add: word_le_nat_alt)
qed

definition settled_shares :: "u256 \<Rightarrow> share_entry list \<Rightarrow> u256 \<Rightarrow> share_entry list \<Rightarrow> u256 \<Rightarrow> bool" where
  "settled_shares M es x es' x' \<longleftrightarrow> shares_sum es' + unat x' = shares_sum es + unat x \<and>
     (\<forall>e\<in>set es'. entry_ok M e) \<and> tags es' = tags es \<and> x' \<le> x \<and> (x' \<noteq> 0 \<longrightarrow> (\<forall>e\<in>set es'. se_share e = M))"

lemma tags_length: "tags es' = tags es \<Longrightarrow> length es' = length es"
  unfolding tags_def by (rule map_eq_imp_length_eq)

lemma no_room_full:
  assumes "length es * unat M < 2 ^ 256" "\<forall>e\<in>set es. entry_ok M e" "available_room M es = 0"
  shows "\<forall>e\<in>set es. se_share e = M"
proof
  fix e assume e: "e \<in> set es"
  then have ok: "entry_ok M e" using assms(2) by blast
  show "se_share e = M"
  proof (cases "open_entry M e")
    case True
    then have "saturating_sub M (se_share e) = 0" using available_room_bounds [OF assms(1,2) e True] assms(3) by simp
    then show ?thesis using room [OF ok] by (simp add: word_unat_eq_iff)
  qed (rule closed_entry [OF ok])
qed

lemma settled_shares_trans:
  assumes "settled_shares M es x es1 x1" "settled_shares M es1 x1 es' x'"
  shows "settled_shares M es x es' x'"
  using assms order_trans [of x' x1 x] unfolding settled_shares_def by simp

lemma redistribute_round:
  assumes "give_pass M (available_room M es) es x = (es1, x1)" "dust_pass M es1 x1 b = (es', x', b')" "x1 \<noteq> 0"
    and "\<forall>e\<in>set es. entry_ok M e" "unat x * unat M < 2 ^ 256" "length es * unat M < 2 ^ 256"
  shows "settled_shares M es x es' x'"
proof -
  have "\<forall>e\<in>set es. open_entry M e \<longrightarrow> saturating_sub M (se_share e) \<le> available_room M es"
    using available_room_bounds [OF assms(6,4)] by blast
  note g = give_pass_spec [OF assms(1,4,5) this]
  then have "\<forall>e\<in>set es1. entry_ok M e" by blast
  note d = dust_pass_spec [OF assms(2) this assms(3)]
  show ?thesis using g d order_trans [of x' x1 x] unfolding settled_shares_def by simp
qed

lemma redistribute_spec:
  assumes "redistribute n M es x = (es', x')" "0 < n" "\<forall>e\<in>set es. entry_ok M e" "unat x * unat M < 2 ^ 256" "length es * unat M < 2 ^ 256"
  shows "settled_shares M es x es' x'"
  using assms
proof (induction n arbitrary: es x)
  case (Suc n)
  let ?A = "available_room M es"
  obtain es1 x1 where g: "give_pass M ?A es x = (es1, x1)" by (cases "give_pass M ?A es x")
  obtain es2 x2 b2 where d: "dust_pass M es1 x1 False = (es2, x2, b2)" by (cases "dust_pass M es1 x1 False")
  have step: "redistribute (Suc n) M es x =
    (if x = 0 \<or> ?A = 0 then (es, x) else if x1 = 0 then (es1, x1) else if \<not> b2 then (es2, x2) else redistribute n M es2 x2)"
    using g d by (simp add: Let_def)
  have room: "\<forall>e\<in>set es. open_entry M e \<longrightarrow> saturating_sub M (se_share e) \<le> ?A"
    using available_room_bounds [OF Suc.prems(5,3)] by blast
  consider "x = 0 \<or> ?A = 0" | "x \<noteq> 0" "?A \<noteq> 0" "x1 = 0" | "x \<noteq> 0" "?A \<noteq> 0" "x1 \<noteq> 0" by blast
  then show ?case
  proof cases
    case 1
    then have eq: "es' = es" "x' = x" using Suc.prems(1) unfolding step by simp_all
    show ?thesis using 1 Suc.prems(3) no_room_full [OF Suc.prems(5,3)] unfolding eq settled_shares_def by auto
  next
    case 2
    then have eq: "es' = es1" "x' = x1" using Suc.prems(1) unfolding step by simp_all
    show ?thesis using 2 give_pass_spec [OF g Suc.prems(3,4) room] unfolding eq settled_shares_def by simp
  next
    case 3
    note s2 = redistribute_round [OF g d 3(3) Suc.prems(3-5)]
    have h2: "\<forall>e\<in>set es2. entry_ok M e" "unat x2 \<le> unat x" "length es2 = length es"
      using s2 tags_length [of es2 es] unfolding settled_shares_def word_le_nat_alt by simp_all
    have eq: "(es', x') = (if \<not> b2 then (es2, x2) else redistribute n M es2 x2)" using Suc.prems(1) 3 unfolding step by simp
    show ?thesis
    proof (cases "\<not> b2 \<or> n = 0")
      case True
      then have "es' = es2" "x' = x2" using eq by (auto split: if_splits)
      then show ?thesis using s2 by simp
    next
      case False
      have "unat x2 * unat M < 2 ^ 256" using mult_le_mono1 [OF h2(2)] Suc.prems(4) by (rule order_le_less_trans)
      then have "settled_shares M es2 x2 es' x'" using Suc.IH [of es2 x2] eq False h2 Suc.prems(5) by simp
      then show ?thesis using settled_shares_trans [OF s2] by blast
    qed
  qed
qed simp

lemma proportional_sum:
  fixes P T :: nat
  assumes "0 < T" "(\<Sum>c\<leftarrow>cs. f c) \<le> T"
  shows "(\<Sum>c\<leftarrow>cs. P * f c div T) \<le> P"
proof -
  have "(\<Sum>c\<leftarrow>cs. P * f c div T) * T \<le> P * (\<Sum>c\<leftarrow>cs. f c)" for cs
  proof (induction cs)
    case (Cons c cs)
    have "P * f c div T * T \<le> P * f c" by (rule div_times_less_eq_dividend)
    then have "P * f c div T * T + (\<Sum>c\<leftarrow>cs. P * f c div T) * T \<le> P * f c + P * (\<Sum>c\<leftarrow>cs. f c)"
      using Cons.IH by (rule add_le_mono)
    then show ?case by (simp only: list.map sum_list.Cons distrib_left distrib_right)
  qed simp
  also have "P * (\<Sum>c\<leftarrow>cs. f c) \<le> P * T" using assms(2) by (rule mult_le_mono2)
  finally show ?thesis using assms(1) by simp
qed

definition count_sum :: "(address \<times> u64) list \<Rightarrow> nat" where
  "count_sum cs = (\<Sum>c\<leftarrow>cs. unat (snd c))"

lemma sum_counts_exact:
  fixes cs :: "(address \<times> u64) list"
  shows "count_sum cs < 2 ^ 64 \<Longrightarrow> unat (sum_list (map snd cs)) = count_sum cs"
proof (induction cs)
  case (Cons c cs)
  then show ?case using unat_add_exact [of "snd c" "sum_list (map snd cs)"] by (simp add: count_sum_def)
qed (simp add: count_sum_def)

lemma initial_share_spec:
  fixes pool :: u256 and T :: u64
  assumes "unat pool < 2 ^ 128" "T \<noteq> 0"
  shows "entry_ok M (initial_share pool T M c)"
    "unat (se_share (initial_share pool T M c)) \<le> unat pool * unat (snd c) div unat T"
    "(se_address (initial_share pool T M c), se_count (initial_share pool T M c)) = c"
proof -
  obtain a n where c: "c = (a, n)" by (cases c)
  let ?s = "pool * ucast n div ucast T"
  have u: "unat (ucast n :: u256) = unat n" "unat (ucast T :: u256) = unat T"  by simp_all
  have "unat pool * unat n < 2 ^ 128 * 2 ^ 64" using assms(1) unat_lt_2p [of n] by (intro mult_strict_mono) auto
  then have "unat pool * unat (ucast n :: u256) < 2 ^ 256" by (simp add: u)
  then have "unat ?s = unat pool * unat n div unat T" by (simp add: unat_div unat_mult_exact u)
  then show "unat (se_share (initial_share pool T M c)) \<le> unat pool * unat (snd c) div unat T"
    by (auto simp: c initial_share_def Let_def word_less_nat_alt)
  show "entry_ok M (initial_share pool T M c)" by (auto simp: c initial_share_def Let_def entry_ok_def)
  show "(se_address (initial_share pool T M c), se_count (initial_share pool T M c)) = c"
    by (simp add: c initial_share_def Let_def)
qed

lemma max_share_exact:
  fixes pool :: u256
  assumes "unat pool < 2 ^ 128"
  shows "unat (pool * ucast MAX_ADDRESS_SHARE_PCT div 100) = unat pool * 32 div 100"
proof -
  have "unat pool * unat (32 :: u256) < 2 ^ 256" using assms by simp
  then show ?thesis by (simp add: MAX_ADDRESS_SHARE_PCT_def unat_div unat_mult_exact)
qed

definition initial_entries :: "u256 \<Rightarrow> (address \<times> u64) list \<Rightarrow> share_entry list" where
  "initial_entries pool counts =
     map (initial_share pool (sum_list (map snd counts)) (pool * ucast MAX_ADDRESS_SHARE_PCT div 100)) (sort_key fst counts)"

lemma count_sum_sort [simp]: "count_sum (sort_key fst cs) = count_sum cs"
proof -
  have "mset (map (\<lambda>c. unat (snd c)) (sort_key fst cs)) = mset (map (\<lambda>c. unat (snd c)) cs)" by simp
  then show ?thesis unfolding count_sum_def sum_mset_sum_list [symmetric] by (rule arg_cong)
qed

lemma initial_entries_spec:
  assumes "unat pool < 2 ^ 128" "count_sum counts < 2 ^ 64" "count_sum counts \<noteq> 0"
  shows "\<forall>e\<in>set (initial_entries pool counts). entry_ok (pool * ucast MAX_ADDRESS_SHARE_PCT div 100) e"
    "shares_sum (initial_entries pool counts) \<le> unat pool"
    "tags (initial_entries pool counts) = sort_key fst counts"
proof -
  define T where "T = sum_list (map snd counts)"
  define M :: u256 where "M = pool * ucast MAX_ADDRESS_SHARE_PCT div 100"
  have T: "unat T = count_sum counts" unfolding T_def using assms(2) by (rule sum_counts_exact)
  then have nz: "T \<noteq> 0" using assms(3) by auto
  note i = initial_share_spec [OF assms(1) nz, of M]
  have es: "initial_entries pool counts = map (initial_share pool T M) (sort_key fst counts)"
    by (simp add: initial_entries_def T_def M_def)
  show "\<forall>e\<in>set (initial_entries pool counts). entry_ok (pool * ucast MAX_ADDRESS_SHARE_PCT div 100) e"
    unfolding es M_def [symmetric] using i(1) by simp
  show "tags (initial_entries pool counts) = sort_key fst counts"
    unfolding es tags_def by (simp add: comp_def i(3))
  have "shares_sum (initial_entries pool counts) \<le> (\<Sum>c\<leftarrow>sort_key fst counts. unat pool * unat (snd c) div unat T)"
    unfolding es shares_sum_def by (simp add: comp_def) (intro sum_list_mono i(2))
  also have "\<dots> \<le> unat pool" using assms(3) T
    by (intro proportional_sum) (simp_all add: count_sum_def [symmetric])
  finally show "shares_sum (initial_entries pool counts) \<le> unat pool" .
qed

definition reward_pairs :: "address_reward list \<Rightarrow> (address \<times> u64) list" where
  "reward_pairs rs = map (\<lambda>r. (ar_address r, ar_tribute_count r)) rs"

definition rewards_sum :: "address_reward list \<Rightarrow> nat" where
  "rewards_sum rs = (\<Sum>r\<leftarrow>rs. unat (ar_reward_amount r))"

lemma distribution_exact:
  assumes "unat pool < 2 ^ 128" "count_sum counts < 2 ^ 64" "length counts < 2 ^ 64"
    and "calculate_distribution_with_cap pool counts = (rs, excess)" "0 < count_sum counts" "pool \<noteq> 0"
  shows "rewards_sum rs + unat excess = unat pool" "reward_pairs rs = sort_key fst counts"
    "\<forall>r\<in>set rs. unat (ar_reward_amount r) \<le> unat pool * 32 div 100"
    "excess \<noteq> 0 \<Longrightarrow> \<forall>r\<in>set rs. unat (ar_reward_amount r) = unat pool * 32 div 100"
proof -
  define M :: u256 where "M = pool * ucast MAX_ADDRESS_SHARE_PCT div 100"
  define es where "es = initial_entries pool counts"
  define x where "x = saturating_sub pool (fold (\<lambda>e acc. acc + se_share e) es 0)"
  have nz: "count_sum counts \<noteq> 0" using assms(5) by simp
  note i = initial_entries_spec [OF assms(1,2) nz, folded es_def M_def]
  have M: "unat M = unat pool * 32 div 100" unfolding M_def using assms(1) by (rule max_share_exact)
  then have M_le: "unat M \<le> unat pool" by simp
  have "unat (fold (\<lambda>v acc. acc + v) (map se_share es) 0) = shares_sum es"
    using fold_add_exact [of 0 "map se_share es"] i(2) assms(1) by (simp add: shares_sum_def comp_def)
  then have "unat (fold (\<lambda>e acc. acc + se_share e) es 0) = shares_sum es" by (simp add: fold_map comp_def)
  then have x: "unat x + shares_sum es = unat pool" using i(2) by (simp add: x_def unat_saturating_sub)
  have "sum_list (map snd counts) \<noteq> 0" using sum_counts_exact [OF assms(2)] nz by auto
  moreover have "counts \<noteq> []" using nz by (auto simp: count_sum_def)
  obtain es' x' where r: "redistribute MAX_REDISTRIBUTION_ITERATIONS M es x = (es', x')" by (cases "redistribute MAX_REDISTRIBUTION_ITERATIONS M es x")
  ultimately have eq: "rs = map (\<lambda>e. \<lparr>ar_address = se_address e, ar_tribute_count = se_count e, ar_reward_amount = se_share e\<rparr>) es'" "excess = x'"
    using assms(4,6) \<open>counts \<noteq> []\<close> unfolding calculate_distribution_with_cap_def
    by (simp_all add: Let_def M_def es_def x_def initial_entries_def)
  have "unat x * unat M < 2 ^ 128 * 2 ^ 128" using x M_le assms(1) by (intro mult_strict_mono) auto
  then have b1: "unat x * unat M < 2 ^ 256" by simp
  have "length es = length counts" by (simp add: es_def initial_entries_def)
  then have "length es * unat M < 2 ^ 64 * 2 ^ 128" using assms(1,3) M_le by (intro mult_strict_mono) auto
  then have b2: "length es * unat M < 2 ^ 256" by simp
  have s: "settled_shares M es x es' x'" using redistribute_spec [OF r _ i(1) b1 b2] by (simp add: MAX_REDISTRIBUTION_ITERATIONS_def)
  show "rewards_sum rs + unat excess = unat pool"
    using s x by (simp add: settled_shares_def eq rewards_sum_def shares_sum_def comp_def)
  show "reward_pairs rs = sort_key fst counts"
    using s i(3) by (simp add: settled_shares_def eq reward_pairs_def tags_def comp_def)
  show "\<forall>r\<in>set rs. unat (ar_reward_amount r) \<le> unat pool * 32 div 100"
    using s by (simp add: settled_shares_def eq entry_ok_def word_le_nat_alt M [symmetric])
  show "\<forall>r\<in>set rs. unat (ar_reward_amount r) = unat pool * 32 div 100" if "excess \<noteq> 0"
    using s that by (simp add: settled_shares_def eq M [symmetric])
qed

section \<open>Solvency of the claimable balances\<close>

definition claimable_sum :: "agent_reward \<Rightarrow> nat" where
  "claimable_sum s = (\<Sum>a\<in>UNIV. unat (claimable_rewards s a))"

definition agent_solvent :: "'a agent_world_scheme \<Rightarrow> bool" where
  "agent_solvent w \<longleftrightarrow> claimable_sum (agent w) \<le> unat (balances w AGENT_REWARD_ADDRESS)"

lemma add_claimable_exact:
  assumes "claimable_sum s + unat x < 2 ^ 256"
  obtains v where "add_claimable_reward a x s = Inr (s\<lparr>claimable_rewards := (claimable_rewards s)(a := v)\<rparr>)"
    "claimable_sum (s\<lparr>claimable_rewards := (claimable_rewards s)(a := v)\<rparr>) = claimable_sum s + unat x"
    "unat v = unat (claimable_rewards s a) + unat x"
proof -
  have "unat (claimable_rewards s a) \<le> claimable_sum s"
    unfolding claimable_sum_def by (rule member_le_sum_UNIV [of "\<lambda>a. unat (claimable_rewards s a)"])
  then have b: "unat (claimable_rewards s a) + unat x < 2 ^ 256" using assms by linarith
  then have v: "unat (claimable_rewards s a + x) = unat (claimable_rewards s a) + unat x" by (intro unat_add_exact) simp
  have "checked_add (claimable_rewards s a) x = Some (claimable_rewards s a + x)" using b by (simp add: checked_add_def)
  then have "add_claimable_reward a x s = Inr (s\<lparr>claimable_rewards := (claimable_rewards s)(a := claimable_rewards s a + x)\<rparr>)"
    by (simp add: add_claimable_reward_def)
  moreover have "claimable_sum (s\<lparr>claimable_rewards := (claimable_rewards s)(a := claimable_rewards s a + x)\<rparr>) = claimable_sum s + unat x"
    using sum_unat_fun_upd [of "claimable_rewards s" a "claimable_rewards s a + x"] v by (simp add: claimable_sum_def)
  ultimately show ?thesis using v by (rule that)
qed

definition reward_of :: "address_reward list \<Rightarrow> address \<Rightarrow> nat" where
  "reward_of rs a = (\<Sum>r\<leftarrow>rs. if ar_address r = a then unat (ar_reward_amount r) else 0)"

lemma credit_rewards_exact:
  assumes "claimable_sum s + rewards_sum rs < 2 ^ 256"
  shows "\<exists>f. credit_rewards rs s = Inr (s\<lparr>claimable_rewards := f\<rparr>) \<and>
    claimable_sum (s\<lparr>claimable_rewards := f\<rparr>) = claimable_sum s + rewards_sum rs \<and>
    (\<forall>a. unat (f a) = unat (claimable_rewards s a) + reward_of rs a)"
  using assms
proof (induction rs arbitrary: s)
  case Nil
  show ?case by (rule exI [of _ "claimable_rewards s"]) (simp add: credit_rewards_def rewards_sum_def reward_of_def)
next
  case (Cons r rs)
  show ?case
  proof (cases "ar_reward_amount r = 0")
    case True
    then show ?thesis using Cons.IH [of s] Cons.prems by (simp add: credit_rewards_def rewards_sum_def reward_of_def)
  next
    case False
    have "claimable_sum s + unat (ar_reward_amount r) < 2 ^ 256" using Cons.prems by (simp add: rewards_sum_def)
    then obtain v where v: "add_claimable_reward (ar_address r) (ar_reward_amount r) s =
        Inr (s\<lparr>claimable_rewards := (claimable_rewards s)(ar_address r := v)\<rparr>)"
      "claimable_sum (s\<lparr>claimable_rewards := (claimable_rewards s)(ar_address r := v)\<rparr>) = claimable_sum s + unat (ar_reward_amount r)"
      "unat v = unat (claimable_rewards s (ar_address r)) + unat (ar_reward_amount r)"
      by (rule add_claimable_exact)
    let ?s = "s\<lparr>claimable_rewards := (claimable_rewards s)(ar_address r := v)\<rparr>"
    have "claimable_sum ?s + rewards_sum rs < 2 ^ 256" using Cons.prems v(2) by (simp add: rewards_sum_def)
    then obtain f where "credit_rewards rs ?s = Inr (?s\<lparr>claimable_rewards := f\<rparr>)"
      "claimable_sum (?s\<lparr>claimable_rewards := f\<rparr>) = claimable_sum ?s + rewards_sum rs"
      "\<forall>a. unat (f a) = unat (claimable_rewards ?s a) + reward_of rs a"
      using Cons.IH [of ?s] by blast
    then show ?thesis using v False by (auto simp: credit_rewards_def rewards_sum_def reward_of_def)
  qed
qed

lemma pool_counts_bounds:
  "length (pool_counts c day kind s) < 2 ^ 64" "pool_counts c day kind s \<noteq> [] \<Longrightarrow> 0 < count_sum (pool_counts c day kind s)"
proof -
  have day: "length (day_counts c day n addrs cnts) < 2 ^ 64" for n addrs cnts
  proof -
    have "length (day_counts c day n addrs cnts) \<le> length (stored n (\<lambda>i. addrs (address_index_key c day i)))"
      unfolding day_counts_def by (rule order_trans [OF length_filter_le]) simp
    also have "\<dots> = unat n" by simp
    finally show ?thesis using unat_lt_2p [of n] by simp
  qed
  have pos: "0 < count_sum (day_counts c day n addrs cnts)" if "day_counts c day n addrs cnts \<noteq> []" for n addrs cnts
  proof -
    obtain p ps where p: "day_counts c day n addrs cnts = p # ps" using \<open>day_counts c day n addrs cnts \<noteq> []\<close> by (cases "day_counts c day n addrs cnts") auto
    then have "p \<in> set (day_counts c day n addrs cnts)" by simp
    then have "0 < snd p" unfolding day_counts_def by auto
    then show ?thesis using p by (simp add: count_sum_def word_less_nat_alt)
  qed
  show "length (pool_counts c day kind s) < 2 ^ 64"
    unfolding pool_counts_def get_all_waa_counts_def get_all_sra_counts_def by (split if_split) (intro conjI impI day)
  show "pool_counts c day kind s \<noteq> [] \<Longrightarrow> 0 < count_sum (pool_counts c day kind s)"
    using pos by (simp add: pool_counts_def get_all_waa_counts_def get_all_sra_counts_def split: if_splits)
qed

lemma clear_pool_claimable [simp]: "claimable_rewards (clear_pool c day kind s) = claimable_rewards s"
  by (simp add: clear_pool_def clear_waa_counts_def clear_sra_counts_def Let_def split: prod.splits)

lemma distribute_capped_exact:
  fixes w :: "'a agent_world_scheme"
  assumes "unat amount < 2 ^ 128" "count_sum (pool_counts c day kind (agent w)) < 2 ^ 64"
    and "agent_solvent w" "unat (balances w AGENT_REWARD_ADDRESS) + unat amount < 2 ^ 256"
    and "amount \<noteq> 0" "pool_counts c day kind (agent w) \<noteq> []"
    and "calculate_distribution_with_cap amount (pool_counts c day kind (agent w)) = (rs, excess)"
  shows "\<exists>f b. distribute_capped c day kind amount w =
      Inr (excess, w\<lparr>agent := clear_pool c day kind ((agent w)\<lparr>claimable_rewards := f\<rparr>), balances := (balances w)(AGENT_REWARD_ADDRESS := b)\<rparr>) \<and>
    unat b = unat (balances w AGENT_REWARD_ADDRESS) + rewards_sum rs \<and>
    claimable_sum ((agent w)\<lparr>claimable_rewards := f\<rparr>) = claimable_sum (agent w) + rewards_sum rs \<and>
    (\<forall>a. unat (f a) = unat (claimable_rewards (agent w) a) + reward_of rs a)"
proof -
  define A where "A = AGENT_REWARD_ADDRESS"
  define b0 where "b0 = balances w A + amount"
  note pb = pool_counts_bounds [of c day kind "agent w"]
  have sum: "rewards_sum rs + unat excess = unat amount"
    using distribution_exact(1) [OF assms(1,2) pb(1) assms(7) pb(2) assms(5)] assms(6) by blast
  have b0: "unat b0 = unat (balances w A) + unat amount" unfolding b0_def using assms(4) by (intro unat_add_exact) (simp add: A_def)
  have "claimable_sum (agent w) + rewards_sum rs < 2 ^ 256" using assms(3,4) sum by (simp add: agent_solvent_def)
  then obtain f where f: "credit_rewards rs (agent w) = Inr ((agent w)\<lparr>claimable_rewards := f\<rparr>)"
    "claimable_sum ((agent w)\<lparr>claimable_rewards := f\<rparr>) = claimable_sum (agent w) + rewards_sum rs"
    "\<forall>a. unat (f a) = unat (claimable_rewards (agent w) a) + reward_of rs a"
    using credit_rewards_exact by blast
  have le: "excess \<le> b0" using b0 sum by (simp add: word_le_nat_alt)
  then have b: "unat (b0 - excess) = unat (balances w A) + rewards_sum rs" using b0 sum by (simp add: unat_sub_exact word_le_nat_alt)
  have inc: "increase_balance A amount w = Inr (w\<lparr>balances := (balances w)(A := b0)\<rparr>)" using assms(5) by (simp add: increase_balance_def b0_def)
  have dec: "decrease_balance A excess (w\<lparr>balances := (balances w)(A := b0), agent := s\<rparr>) = Inr (w\<lparr>agent := s, balances := (balances w)(A := b0 - excess)\<rparr>)" for s
    using le by (simp add: decrease_balance_def not_less)
  have "distribute_capped c day kind amount w =
      Inr (excess, w\<lparr>agent := clear_pool c day kind ((agent w)\<lparr>claimable_rewards := f\<rparr>), balances := (balances w)(A := b0 - excess)\<rparr>)"
    unfolding distribute_capped_def A_def [symmetric] using assms(5,6,7) f(1) dec by (simp add: inc Let_def)
  then show ?thesis using b f(2,3) unfolding A_def by blast
qed

lemma claim_reward_exact:
  fixes w :: "'a agent_world_scheme"
  assumes "agent_solvent w" "amount \<le> claimable_rewards (agent w) a" "a \<noteq> AGENT_REWARD_ADDRESS"
    and "unat (balances w a) + unat amount < 2 ^ 256"
  shows "\<exists>w'. claim_reward a amount w = Inr (amount, w') \<and> agent_solvent w' \<and>
    unat (balances w' a) = unat (balances w a) + unat amount \<and>
    claimable_rewards (agent w') = (claimable_rewards (agent w))(a := claimable_rewards (agent w) a - amount)"
proof -
  define A where "A = AGENT_REWARD_ADDRESS"
  define s where "s = (agent w)\<lparr>claimable_rewards := (claimable_rewards (agent w))(a := claimable_rewards (agent w) a - amount)\<rparr>"
  have "unat (claimable_rewards (agent w) a) \<le> claimable_sum (agent w)"
    unfolding claimable_sum_def by (rule member_le_sum_UNIV [of "\<lambda>a. unat (claimable_rewards (agent w) a)"])
  then have le: "unat amount \<le> unat (balances w A)" using assms(1,2) by (simp add: agent_solvent_def A_def word_le_nat_alt)
  have s: "claimable_sum s + unat amount = claimable_sum (agent w)"
    using sum_unat_fun_upd [of "claimable_rewards (agent w)" a "claimable_rewards (agent w) a - amount"] assms(2)
    by (simp add: claimable_sum_def s_def unat_sub_exact word_le_nat_alt)
  show ?thesis
  proof (cases "amount = 0")
    case True
    then have "claim_reward a amount w = Inr (amount, w\<lparr>agent := s\<rparr>)"
      by (simp add: claim_reward_def transfer_balance_def s_def)
    then show ?thesis using True s assms(1) by (simp add: agent_solvent_def s_def)
  next
    case False
    let ?w = "w\<lparr>agent := s, balances := (balances w)(A := balances w A - amount, a := balances w a + amount)\<rparr>"
    have "claim_reward a amount w = Inr (amount, ?w)"
      using False assms(2,3) le by (simp add: claim_reward_def transfer_balance_def s_def A_def [symmetric] word_le_nat_alt word_less_nat_alt)
    moreover have "agent_solvent ?w"
      using assms(1,3) le s by (simp add: agent_solvent_def A_def [symmetric] unat_sub_exact word_le_nat_alt)
    moreover have "unat (balances w a + amount) = unat (balances w a) + unat amount" using assms(4) by (intro unat_add_exact) simp
    ultimately show ?thesis by (auto simp: s_def)
  qed
qed

definition agent_crypto :: crypto where
  "agent_crypto = (env_crypto slash_env)\<lparr>keccak256 := \<lambda>b. b\<rparr>"

definition agent_tributes :: agent_reward where
  "agent_tributes = \<lparr>waa_tribute_counts = \<lambda>k. if last k = 7 then 3 else 1, sra_tribute_counts = \<lambda>_. 0, claimable_rewards = \<lambda>_. 0,
     waa_address_count = \<lambda>_. 2, waa_addresses = \<lambda>k. if last k = 0 then 7 else 5, sra_address_count = \<lambda>_. 0, sra_addresses = \<lambda>_. 0\<rparr>"

definition agent_demo :: agent_world where
  "agent_demo = reward_world.extend reward_demo (agent_world.fields agent_tributes)"

text \<open>
  C4. A daily agent pool is distributed exactly. For a pool below \<open>2 ^ 128\<close> base units and tribute
  counts that add up below \<open>2 ^ 64\<close>, \<open>distribute_capped\<close> succeeds on every solvent contract state;
  the rewards and the returned excess add up to the pool, every address with tributes has exactly one reward,
  no reward is above 32 percent of the pool, and an excess is returned only when every
  address is already at that cap. The claimable balance of every address grows by exactly its
  reward, and their sum and the coins the contract holds grow by the same amount, so the contract stays solvent, and no other account changes.
\<close>

theorem agent_distribution_correct:
  fixes w :: "'a agent_world_scheme"
  assumes "unat amount < 2 ^ 128" "count_sum (pool_counts c day kind (agent w)) < 2 ^ 64"
    and "agent_solvent w" "unat (balances w AGENT_REWARD_ADDRESS) + unat amount < 2 ^ 256"
    and "amount \<noteq> 0" "pool_counts c day kind (agent w) \<noteq> []"
    and "calculate_distribution_with_cap amount (pool_counts c day kind (agent w)) = (rs, excess)"
  shows "\<exists>w'. distribute_capped c day kind amount w = Inr (excess, w') \<and>
    rewards_sum rs + unat excess = unat amount \<and>
    reward_pairs rs = sort_key fst (pool_counts c day kind (agent w)) \<and>
    (\<forall>r\<in>set rs. unat (ar_reward_amount r) \<le> unat amount * 32 div 100) \<and>
    (excess \<noteq> 0 \<longrightarrow> (\<forall>r\<in>set rs. unat (ar_reward_amount r) = unat amount * 32 div 100)) \<and>
    (\<forall>a. unat (claimable_rewards (agent w') a) = unat (claimable_rewards (agent w) a) + reward_of rs a) \<and>
    claimable_sum (agent w') = claimable_sum (agent w) + rewards_sum rs \<and>
    unat (balances w' AGENT_REWARD_ADDRESS) = unat (balances w AGENT_REWARD_ADDRESS) + rewards_sum rs \<and>
    agent_solvent w' \<and> (\<forall>a. a \<noteq> AGENT_REWARD_ADDRESS \<longrightarrow> balances w' a = balances w a)"
proof -
  obtain f b where d: "distribute_capped c day kind amount w =
      Inr (excess, w\<lparr>agent := clear_pool c day kind ((agent w)\<lparr>claimable_rewards := f\<rparr>), balances := (balances w)(AGENT_REWARD_ADDRESS := b)\<rparr>)"
    and b: "unat b = unat (balances w AGENT_REWARD_ADDRESS) + rewards_sum rs"
    and f: "claimable_sum ((agent w)\<lparr>claimable_rewards := f\<rparr>) = claimable_sum (agent w) + rewards_sum rs"
      "\<forall>a. unat (f a) = unat (claimable_rewards (agent w) a) + reward_of rs a"
    using distribute_capped_exact [OF assms] by blast
  note x = distribution_exact [OF assms(1,2) pool_counts_bounds(1) assms(7) pool_counts_bounds(2) [OF assms(6)] assms(5)]
  have "claimable_sum (clear_pool c day kind ((agent w)\<lparr>claimable_rewards := f\<rparr>)) = claimable_sum (agent w) + rewards_sum rs"
    using f by (simp add: claimable_sum_def)
  then show ?thesis using d b x f(2) assms(3) by (simp add: agent_solvent_def)
qed

lemma last_to_be_bytes: "last (xs @ to_be_bytes 4 v) = ucast v" "last (xs @ to_be_bytes 20 w) = ucast w"
  using to_be_bytes_Suc [of 3 v] to_be_bytes_Suc [of 19 w] by simp_all

lemma agent_demo_counts: "pool_counts agent_crypto 20250101 Pool_Waa (agent agent_demo) = [(7, 3), (5, 1)]"
  by (simp add: agent_demo_def agent_world.defs reward_world.defs agent_tributes_def pool_counts_def get_all_waa_counts_def day_counts_def
   stored_def agent_crypto_def tribute_count_key_def address_index_key_def upt_0_2 last_to_be_bytes)

lemma agent_demo_split: "calculate_distribution_with_cap 1000 [(7, 3), (5, 1)] =
    ([\<lparr>ar_address = 5, ar_tribute_count = 1, ar_reward_amount = 320\<rparr>, \<lparr>ar_address = 7, ar_tribute_count = 3, ar_reward_amount = 320\<rparr>], 360)"
  using redistribute.simps(2) [of 9]
  by (simp add: calculate_distribution_with_cap_def Let_def MAX_REDISTRIBUTION_ITERATIONS_def MAX_ADDRESS_SHARE_PCT_def initial_share_def
  available_room_def open_entry_def saturating_sub_def give_def)

theorem agent_distribution_correct_witness:
  "\<exists>w'. distribute_capped agent_crypto 20250101 Pool_Waa 1000 agent_demo = Inr (360, w') \<and>
    unat (claimable_rewards (agent w') 5) = 320 \<and> unat (claimable_rewards (agent w') 7) = 320 \<and>
    claimable_sum (agent w') = 640 \<and> unat (balances w' AGENT_REWARD_ADDRESS) = 640 \<and> agent_solvent w'"
proof -
  have z: "claimable_sum (agent agent_demo) = 0" "balances agent_demo AGENT_REWARD_ADDRESS = 0"
    by (simp_all add: claimable_sum_def agent_demo_def agent_world.defs reward_world.defs agent_tributes_def reward_demo_def
        AGENT_REWARD_ADDRESS_def REWARDS_ADDRESS_def)
  then have "agent_solvent agent_demo" by (simp add: agent_solvent_def)
  moreover have "claimable_rewards (agent agent_demo) a = 0" for a
    by (simp add: agent_demo_def agent_world.defs reward_world.defs agent_tributes_def)
  ultimately show ?thesis
    using agent_distribution_correct [of 1000 agent_crypto 20250101 Pool_Waa agent_demo] agent_demo_split z
    by (auto simp: agent_demo_counts count_sum_def rewards_sum_def reward_of_def)
qed

end
