(* ===== verification/Begin_Block_Properties.thy ===== *)
theory Begin_Block_Properties
  imports Begin_Block Agent_Properties
begin

text \<open>
  What the begin-block phases keep of the rewards state and its escrow index, and that every escrowed fee is
  settled when the inclusion window of its block closes.
\<close>

section \<open>What the phases leave alone\<close>

lemma rewards_of_more:
  fixes w w' :: "'a reward_world_scheme"
  assumes "slash_world.more w' = slash_world.more w"
  shows "rewards w' = rewards w"
  using assms by (cases w; cases w') simp

lemma slash_more_of_world: "world.more w' = world.more w \<Longrightarrow> slash_world.more w' = slash_world.more w"
  by (cases w; cases w') simp

lemma jail_and_slash_more:
  assumes "jail_and_slash env v w = Inr (y, w')"
  shows "slash_world.more w' = slash_world.more w"
proof -
  obtain fc x where y: "y = (fc, x)" by (cases y)
  obtain vs where "slash_stake (env_block_number env) (env_timestamp env) v (slash_amount_percent (slash w))
       (w\<lparr>slash := (slash w)\<lparr>felony_count := (felony_count (slash w))(v := fc)\<rparr>, vset := vs\<rparr>) = Inr (x, w')"
    using assms unfolding y by (rule jail_and_slashE) blast
  then show ?thesis using slash_more_of_world [OF slash_stake_more] by fastforce
qed

lemma slash_proposer_more: "slash_proposer env v w = Inr w' \<Longrightarrow> slash_world.more w' = slash_world.more w"
  by (auto simp: slash_proposer_def Let_def and_then_eq_Inr si_emit_def split: if_splits dest!: jail_and_slash_more)

lemma slash_voter_more: "slash_voter env v w = Inr w' \<Longrightarrow> slash_world.more w' = slash_world.more w"
  by (auto simp: slash_voter_def Let_def and_then_eq_Inr si_emit_def split: if_splits dest!: jail_and_slash_more)

text \<open>
  The contract of an operation on the slashing world that leaves every later extension of the record
  alone; it lifts to a loop over the operation.
\<close>

locale extension_neutral =
  fixes step :: "'x \<Rightarrow> 'a slash_world_scheme \<Rightarrow> 'a slash_world_scheme result"
  assumes neutral: "step x w = Inr w' \<Longrightarrow> slash_world.more w' = slash_world.more w"
begin

lemma fold_neutral: "fold_res step xs w = Inr w' \<Longrightarrow> slash_world.more w' = slash_world.more w"
  by (erule fold_res_invariant [where P = "\<lambda>u. slash_world.more u = slash_world.more w"]) (auto dest: neutral)

end

interpretation proposer_slash: extension_neutral "slash_proposer env" for env
  by unfold_locales (rule slash_proposer_more)

interpretation voter_slash: extension_neutral "slash_voter env" for env
  by unfold_locales (rule slash_voter_more)

lemma slash_window_more:
  assumes "slash_window_proposers env fb vs w = Inr w' \<or> slash_window_voters env fb vs w = Inr w'"
  shows "slash_world.more w' = slash_world.more w"
  using assms proposer_slash.fold_neutral [of env vs w] voter_slash.fold_neutral [of env vs w]
  by (auto simp: slash_window_proposers_def slash_window_voters_def and_then_eq_Inr split: if_splits)

section \<open>The escrow index\<close>

lemma record_late_credit_index: "record_late_credit fb v k r = Inr r' \<Longrightarrow> pending_fb_hash_at r' = pending_fb_hash_at r"
  by (auto simp: record_late_credit_def Let_def split: if_splits option.splits)

lemma fold_credit_index:
  "fold_res (\<lambda>v. record_late_credit fb v k) vs r = Inr r' \<Longrightarrow> pending_fb_hash_at r' = pending_fb_hash_at r"
  by (erule fold_res_invariant [where P = "\<lambda>x. pending_fb_hash_at x = pending_fb_hash_at r"]) (auto dest: record_late_credit_index)

lemma escrow_block_fee_index:
  assumes "escrow_block_fee n fb fee sz ep vw pv h voters r = Inr r'"
  shows "pending_fb_hash_at r' = (if fee_settled r fb then pending_fb_hash_at r else (pending_fb_hash_at r)(n := fb))"
  using assms by (auto simp: escrow_block_fee_def dest: fold_credit_index split: if_splits)

lemma count_participation_index: "count_participation fb d v r = Inr r' \<Longrightarrow> pending_fb_hash_at r' = pending_fb_hash_at r"
  by (auto simp: count_participation_def Let_def and_then_eq_Inr split: if_splits option.splits)

lemma fold_participation_index:
  "fold_res (count_participation fb d) vs r = Inr r' \<Longrightarrow> pending_fb_hash_at r' = pending_fb_hash_at r"
  by (erule fold_res_invariant [where P = "\<lambda>x. pending_fb_hash_at x = pending_fb_hash_at r"]) (auto dest: count_participation_index)

lemma on_finalized_metadata_index:
  assumes "on_finalized_metadata md fees ts voters r = Inr r'"
  shows "pending_fb_hash_at r' = (if fee_settled r (finalized_block_hash md) then pending_fb_hash_at r
    else (pending_fb_hash_at r)(finalized_block_number md := finalized_block_hash md))"
proof -
  let ?fb = "finalized_block_hash md" and ?day = "timestamp_to_date_key ts"
  let ?r0 = "init_last_settled ?day r"
  from assms(1) obtain r1 r2 r3 where
    r1: "(if \<not> block_metadata_counted r ?fb then add_daily_fees ?fb ?day fees ?r0 else Inr ?r0) = Inr r1"
    and r2: "escrow_block_fee (finalized_block_number md) ?fb fees (len_u32 (ordered_committee md)) (finalized_epoch md)
      (finalized_view md) (parent_view md) (metadata_committee_set_hash md) voters r1 = Inr r2"
    and r3: "fold_res (count_participation ?fb ?day) voters r2 = Inr r3"
    and r4: "(if \<not> block_metadata_counted r ?fb then prune_block_guards ?fb (observe_finalized_day ?day r3)
      else Inr (observe_finalized_day ?day r3)) = Inr r'"
    unfolding on_finalized_metadata_def Let_def and_then_eq_Inr by blast
  have "fee_settled r1 = fee_settled r \<and> pending_fb_hash_at r1 = pending_fb_hash_at r"
    using r1 by (auto simp: add_daily_fees_def init_last_settled_def split: if_splits option.splits)
  moreover have "pending_fb_hash_at r' = pending_fb_hash_at r3"
    using r4 by (auto simp: observe_finalized_day_def prune_block_guards_def Let_def split: if_splits option.splits)
  ultimately show ?thesis using escrow_block_fee_index [OF r2] fold_participation_index [OF r3] by simp
qed

lemma fingerprint_keeps:
  assumes "check_and_record_metadata_fingerprint c md fees h r = Inr (res, r')"
  shows "pending_fb_hash_at r' = pending_fb_hash_at r" "fee_settled r' = fee_settled r" "rewards_wf r \<Longrightarrow> rewards_wf r'"
  using assms rewards_wf_cong [of r r']
  by (auto simp: check_and_record_metadata_fingerprint_def Let_def same_windows_def same_days_def split: if_splits)

section \<open>The parent phase\<close>

lemma check_parent_targetD:
  assumes "check_parent_target bn md = Inr p"
  shows "p = bn - 1" "finalized_block_number md = bn - 1" "finalized_block_hash md \<noteq> B256_ZERO" "2 \<le> bn"
  using assms by (auto simp: check_parent_target_def checked_sub_def split: if_splits option.splits)

lemma account_parent_rewards:
  assumes "account_parent env md fin p w = Inr w'"
  shows "on_finalized_metadata md (ap_validator_fee_sum fin) (ap_timestamp fin) (base_voters md) (rewards w) = Inr (rewards w')"
proof -
  from assms obtain r w1 si where r: "on_finalized_metadata md (ap_validator_fee_sum fin) (ap_timestamp fin) (base_voters md) (rewards w) = Inr r"
    and w1: "slash_window_proposers env (finalized_block_hash md) (map missed_validator (missed_proposers md)) (w\<lparr>rewards := r\<rparr>) = Inr w1"
    and w': "record_phase1_progress p (w1\<lparr>slash := si\<rparr>) = Inr w'"
    unfolding account_parent_def and_then_eq_Inr by blast
  have "rewards w1 = r" using w1 slash_window_more rewards_of_more by fastforce
  moreover have "rewards w' = rewards w1" using w' by (auto simp: record_phase1_progress_def split: if_splits)
  ultimately show ?thesis using r by simp
qed

lemma run_finalizationE:
  assumes "run_finalization_and_slashing env pre bc md w = Inr w'"
  obtains (replay) "metadata_fingerprint_for_block (rewards w) (finalized_block_hash md) \<noteq> B256_ZERO" "w' = w"
  | (fresh) fin :: accounted_parent and vh r where "check_parent_target (bc_block_number bc) md = Inr (bc_block_number bc - 1)"
      "check_and_record_metadata_fingerprint (env_crypto env) md (ap_validator_fee_sum fin) vh (rewards w) = Inr (Fresh, r)"
      "on_finalized_metadata md (ap_validator_fee_sum fin) (ap_timestamp fin) (base_voters md) r = Inr (rewards w')"
proof -
  from assms obtain p where p: "check_parent_target (bc_block_number bc) md = Inr p"
    unfolding run_finalization_and_slashing_def and_then_eq_Inr by blast
  obtain fin where fin: "Option.bind pre pre_finalized_summary = Some fin"
    using assms by (cases "Option.bind pre pre_finalized_summary") (auto simp: run_finalization_and_slashing_def and_then_eq_Inr)
  define vh where "vh = (case pre of Some p \<Rightarrow> pre_canonical_vrf_proof_hash p | None \<Rightarrow> B256_ZERO)"
  obtain oc r where fp: "check_and_record_metadata_fingerprint (env_crypto env) md (ap_validator_fee_sum fin) vh (rewards w) = Inr (oc, r)"
    and rest: "(case oc of
              IdenticalReplay \<Rightarrow>
                if last_accounted_block_number w \<noteq> p
                then Inl (Fatal ''CertifiedParentAccounting identical replay at unexpected progress'')
                else Inr (w\<lparr>rewards := r\<rparr>)
            | Fresh \<Rightarrow>
                if last_accounted_block_number w \<noteq> saturating_sub p 1
                then Inl (Fatal ''CertifiedParentAccounting progress gap'')
                else account_parent env md fin p (w\<lparr>rewards := r\<rparr>)) = Inr w'"
    using assms p fin unfolding run_finalization_and_slashing_def vh_def by (auto simp: Let_def and_then_eq_Inr)
  show ?thesis
  proof (cases oc)
    case IdenticalReplay
    then have "w' = w\<lparr>rewards := r\<rparr>" using rest by (simp split: if_splits)
    moreover have "r = rewards w" "metadata_fingerprint_for_block (rewards w) (finalized_block_hash md) \<noteq> B256_ZERO"
      using fp IdenticalReplay by (auto simp: check_and_record_metadata_fingerprint_def Let_def split: if_splits)
    ultimately show ?thesis using replay by simp
  next
    case Fresh
    then have "account_parent env md fin p (w\<lparr>rewards := r\<rparr>) = Inr w'" using rest by (simp split: if_splits)
    note account_parent_rewards [OF this]
    then show ?thesis using fresh [of fin vh r] fp p check_parent_targetD(1) [OF p] Fresh by simp
  qed
qed

lemma parent_phase_keeps:
  assumes "run_finalization_and_slashing env pre bc md w = Inr w'" "rewards_wf (rewards w)"
  shows "rewards_wf (rewards w')" "n \<noteq> bc_block_number bc - 1 \<Longrightarrow> pending_fb_hash_at (rewards w') n = pending_fb_hash_at (rewards w) n"
proof -
  have "rewards_wf (rewards w') \<and> (n \<noteq> bc_block_number bc - 1 \<longrightarrow> pending_fb_hash_at (rewards w') n = pending_fb_hash_at (rewards w) n)"
    using assms(1)
  proof (cases rule: run_finalizationE)
    case (fresh fin vh r)
    note fk = fingerprint_keeps [OF fresh(2)]
    have "rewards_wf (rewards w')" using on_finalized_metadata_wf [OF fresh(3)] fk(3) assms(2) by blast
    then show ?thesis using on_finalized_metadata_index [OF fresh(3)] fk(1) check_parent_targetD(2) [OF fresh(1)] by simp
  qed (use assms(2) in simp)
  then show "rewards_wf (rewards w')" "n \<noteq> bc_block_number bc - 1 \<Longrightarrow> pending_fb_hash_at (rewards w') n = pending_fb_hash_at (rewards w) n"
    by blast+
qed

lemma parent_phase_escrows:
  assumes "run_finalization_and_slashing env pre bc md w = Inr w'"
    and "metadata_fingerprint_for_block (rewards w) (finalized_block_hash md) = B256_ZERO" "\<not> fee_settled (rewards w) (finalized_block_hash md)"
  shows "pending_fb_hash_at (rewards w') (bc_block_number bc - 1) = finalized_block_hash md" "finalized_block_hash md \<noteq> B256_ZERO"
proof -
  have "pending_fb_hash_at (rewards w') (bc_block_number bc - 1) = finalized_block_hash md \<and> finalized_block_hash md \<noteq> B256_ZERO"
    using assms(1)
  proof (cases rule: run_finalizationE)
    case (fresh fin vh r)
    then show ?thesis using on_finalized_metadata_index [OF fresh(3)] fingerprint_keeps(2) [OF fresh(2)] assms(3)
      check_parent_targetD(2,3) [OF fresh(1)] by simp
  qed (use assms(2) in simp)
  then show "pending_fb_hash_at (rewards w') (bc_block_number bc - 1) = finalized_block_hash md" "finalized_block_hash md \<noteq> B256_ZERO" by blast+
qed

section \<open>The late phase\<close>

lemma inclusion_distance_bound: "inclusion_distance bn m = Inr k \<Longrightarrow> k < 255"
proof -
  assume "inclusion_distance bn m = Inr k"
  then obtain d where d: "\<not> LATE_FINALIZE_WINDOW_K < d" "k = ucast d"
    by (auto simp: inclusion_distance_def split: option.splits if_splits)
  then have "unat d \<le> 3" by (simp add: LATE_FINALIZE_WINDOW_K_def word_less_nat_alt)
  then have "unat k \<le> 3" unfolding d(2) by (simp add: unsigned_ucast_eq take_bit_eq_mod)
  then show ?thesis by (simp add: word_less_nat_alt)
qed

lemma apply_late_credit_keeps:
  assumes "apply_late_credit env bn credit w = Inr w'" "rewards_wf (rewards w)"
  shows "rewards_wf (rewards w') \<and> pending_fb_hash_at (rewards w') = pending_fb_hash_at (rewards w)"
proof -
  let ?key = "committee_snapshot_key (env_crypto env) (credit_epoch credit) (credit_committee_set_hash credit)"
  obtain k where k: "inclusion_distance bn (fb_number credit) = Inr k"
    using assms(1) unfolding apply_late_credit_def and_then_eq_Inr by blast
  obtain s where s: "read_committee_snapshot ?key (snapshots w) = Some s"
    using assms(1) by (cases "read_committee_snapshot ?key (snapshots w)") (auto simp: apply_late_credit_def and_then_eq_Inr)
  obtain idxs r where r: "fold_res (credit_signer s (fb_hash credit) k) idxs (rewards w) = Inr r" "w' = w\<lparr>rewards := r\<rparr>"
    using assms(1) k s by (auto simp: apply_late_credit_def and_then_eq_Inr split: sum.splits)
  have "(\<forall>f. window_wf r f) \<and> same_days (rewards w) r \<and> pending_fb_hash_at r = pending_fb_hash_at (rewards w)"
    using r(1)
  proof (rule fold_res_invariant [where P = "\<lambda>x. (\<forall>f. window_wf x f) \<and> same_days (rewards w) x \<and>
      pending_fb_hash_at x = pending_fb_hash_at (rewards w)"])
    show "(\<forall>f. window_wf (rewards w) f) \<and> same_days (rewards w) (rewards w) \<and> pending_fb_hash_at (rewards w) = pending_fb_hash_at (rewards w)"
      using assms(2) by (simp add: rewards_wf_def same_days_def)
  next
    fix i x y
    assume x: "(\<forall>f. window_wf x f) \<and> same_days (rewards w) x \<and> pending_fb_hash_at x = pending_fb_hash_at (rewards w)"
      and y: "credit_signer s (fb_hash credit) k i x = Inr y"
    then have "record_late_credit (fb_hash credit) (entry_address (committee s ! i)) k x = Inr y"
      by (auto simp: credit_signer_def split: if_splits)
    then show "(\<forall>f. window_wf y f) \<and> same_days (rewards w) y \<and> pending_fb_hash_at y = pending_fb_hash_at (rewards w)"
      using x record_late_credit_wf [OF _ _ inclusion_distance_bound [OF k]] record_late_credit_index same_days_trans by metis
  qed
  then show ?thesis using assms(2) same_days_wf [of "rewards w" r] by (simp add: r(2) rewards_wf_def)
qed

lemma absentees_rewards:
  fixes w :: "'a system_world_scheme"
  assumes "record_window_close_absentees env bn w = Inr w'"
  shows "rewards w' = rewards w"
proof (cases "w' = w")
  case False
  then obtain fb vs ab where "slash_window_voters env fb ab (w\<lparr>vset := vs\<rparr>) = Inr w'"
    using assms by (auto simp: record_window_close_absentees_def Let_def and_then_eq_Inr split: option.splits if_splits)
  then have "slash_world.more w' = slash_world.more w" using slash_window_more by fastforce
  then show ?thesis by (rule rewards_of_more)
qed simp

lemma settle_matured_index:
  fixes w :: "'a system_world_scheme"
  assumes "settle_matured env bn k w = Inr (res, w')" "rewards_wf (rewards w)"
  shows "n \<noteq> bn - k \<Longrightarrow> pending_fb_hash_at (rewards w') n = pending_fb_hash_at (rewards w) n"
    "k < bn \<Longrightarrow> pending_fb_hash_at (rewards w) (bn - k) = fb \<Longrightarrow> fb \<noteq> B256_ZERO \<Longrightarrow>
      pending_fb_hash_at (rewards w') (bn - k) = B256_ZERO \<and> fee_settled (rewards w') fb"
proof -
  have *: "fee_settled (rewards u) f \<and> pending_fb_hash_at (rewards u) = pending_fb_hash_at (rewards w)"
    if "settle_window env f sz w = Inr (x, u)" for f sz x u
    using that
  proof (cases rule: settle_windowE)
    case (2 d x w1 w2)
    then show ?thesis using free_window_facts(3,5) [of "rewards w" f] assms(2) by (simp add: rewards_wf_def)
  qed simp
  show "n \<noteq> bn - k \<Longrightarrow> pending_fb_hash_at (rewards w') n = pending_fb_hash_at (rewards w) n"
    using assms(1) * by (fastforce simp: settle_matured_def Let_def and_then_eq_Inr upd_rewards_def free_number_def checked_sub_def
        split: option.splits if_splits)
  assume a: "k < bn" "pending_fb_hash_at (rewards w) (bn - k) = fb" "fb \<noteq> B256_ZERO"
  have "k \<le> bn" "bn - k \<noteq> 0" using a(1) by auto
  then obtain u where u: "settle_window env fb (ucast (pending_committee_size_at (rewards w) (bn - k))) w = Inr (res, u)"
    "w' = upd_rewards (free_number (bn - k)) u"
    using assms(1) a by (auto simp: settle_matured_def Let_def and_then_eq_Inr checked_sub_def split: if_splits)
  show "pending_fb_hash_at (rewards w') (bn - k) = B256_ZERO \<and> fee_settled (rewards w') fb"
    using * [OF u(1)] by (simp add: u(2) upd_rewards_def free_number_def)
qed

lemma late_phase_keeps:
  fixes w :: "'a system_world_scheme"
  assumes "run_late_finalize_credits env bc batches w = Inr w'" "rewards_wf (rewards w)"
  defines "bn \<equiv> bc_block_number bc"
  shows "rewards_wf (rewards w')"
    "n \<noteq> bn - LATE_FINALIZE_WINDOW_K \<Longrightarrow> pending_fb_hash_at (rewards w') n = pending_fb_hash_at (rewards w) n"
    "LATE_FINALIZE_WINDOW_K < bn \<Longrightarrow> pending_fb_hash_at (rewards w) (bn - LATE_FINALIZE_WINDOW_K) = fb \<Longrightarrow> fb \<noteq> B256_ZERO \<Longrightarrow>
      pending_fb_hash_at (rewards w') (bn - LATE_FINALIZE_WINDOW_K) = B256_ZERO \<and> fee_settled (rewards w') fb"
proof -
  obtain w1 w2 res where w1: "fold_res (apply_late_credit env bn) batches w = Inr w1"
    and w2: "record_window_close_absentees env bn w1 = Inr w2" and w3: "settle_matured env bn LATE_FINALIZE_WINDOW_K w2 = Inr (res, w')"
    using assms(1) unfolding run_late_finalize_credits_def Let_def bn_def [symmetric] by (auto simp: and_then_eq_Inr)
  have k1: "rewards_wf (rewards w1) \<and> pending_fb_hash_at (rewards w1) = pending_fb_hash_at (rewards w)"
    using w1 by (rule fold_res_invariant [where P = "\<lambda>x. rewards_wf (rewards x) \<and> pending_fb_hash_at (rewards x) = pending_fb_hash_at (rewards w)"])
      (simp_all add: assms(2), drule apply_late_credit_keeps, simp_all)
  have k2: "rewards_wf (rewards w2)" "pending_fb_hash_at (rewards w2) = pending_fb_hash_at (rewards w)"
    using k1 absentees_rewards [OF w2] by simp_all
  show "rewards_wf (rewards w')" using settle_matured_wf [OF w3 k2(1)] .
  show "n \<noteq> bn - LATE_FINALIZE_WINDOW_K \<Longrightarrow> pending_fb_hash_at (rewards w') n = pending_fb_hash_at (rewards w) n"
    using settle_matured_index(1) [OF w3 k2(1)] k2(2) by simp
  show "LATE_FINALIZE_WINDOW_K < bn \<Longrightarrow> pending_fb_hash_at (rewards w) (bn - LATE_FINALIZE_WINDOW_K) = fb \<Longrightarrow> fb \<noteq> B256_ZERO \<Longrightarrow>
      pending_fb_hash_at (rewards w') (bn - LATE_FINALIZE_WINDOW_K) = B256_ZERO \<and> fee_settled (rewards w') fb"
    using settle_matured_index(2) [OF w3 k2(1)] k2(2) by simp
qed

section \<open>Blocks\<close>

text \<open>
  What a block does to the escrow: the parent phase, the late phase, then phases and user transactions that
  leave the windows, the day counters and the escrow index alone.
\<close>

definition escrow_untouched :: "rewards \<Rightarrow> rewards \<Rightarrow> bool" where
  "escrow_untouched r r' \<longleftrightarrow> same_windows r r' \<and> same_days r r' \<and> pending_fb_hash_at r' = pending_fb_hash_at r"

inductive block_step :: "u64 \<Rightarrow> certified_parent_metadata \<Rightarrow> 'a system_world_scheme \<Rightarrow> 'a system_world_scheme \<Rightarrow> bool" where
  block: "env_block_number env = bn \<Longrightarrow>
    run_system_tx env h pre (\<lambda>b. block_runtime_context_from_storage env beneficiary pre b w) (CertifiedParentAccountingInput md) w = Inr w1 \<Longrightarrow>
    run_system_tx env h pre (\<lambda>b. block_runtime_context_from_storage env beneficiary pre b w1) (LateFinalizeCreditsInput batches) w1 = Inr w2 \<Longrightarrow>
    escrow_untouched (rewards w2) (rewards w') \<Longrightarrow> block_step bn md w w'"

inductive block_run :: "u64 \<Rightarrow> certified_parent_metadata list \<Rightarrow> 'a system_world_scheme \<Rightarrow> 'a system_world_scheme \<Rightarrow> bool" where
  none: "block_run bn [] w w"
| more: "block_step bn md w w1 \<Longrightarrow> block_run (bn + 1) mds w1 w' \<Longrightarrow> block_run bn (md # mds) w w'"

inductive_simps block_run_simps: "block_run bn [] w w'" "block_run bn (md # mds) w w'"

lemma context_number [simp]: "bc_block_number (block_runtime_context_from_storage env b pre v w) = env_block_number env"
  by (simp add: block_runtime_context_from_storage_def)

lemma block_step_keeps:
  fixes w :: "'a system_world_scheme"
  assumes "block_step bn md w w'" "rewards_wf (rewards w)"
  shows "rewards_wf (rewards w')"
    "n \<noteq> bn - 1 \<Longrightarrow> n \<noteq> bn - LATE_FINALIZE_WINDOW_K \<Longrightarrow> pending_fb_hash_at (rewards w') n = pending_fb_hash_at (rewards w) n"
    "metadata_fingerprint_for_block (rewards w) (finalized_block_hash md) = B256_ZERO \<Longrightarrow>
      \<not> fee_settled (rewards w) (finalized_block_hash md) \<Longrightarrow> bn - 1 \<noteq> bn - LATE_FINALIZE_WINDOW_K \<Longrightarrow>
      pending_fb_hash_at (rewards w') (bn - 1) = finalized_block_hash md \<and> finalized_block_hash md \<noteq> B256_ZERO"
    "LATE_FINALIZE_WINDOW_K < bn \<Longrightarrow> bn - 1 \<noteq> bn - LATE_FINALIZE_WINDOW_K \<Longrightarrow>
      pending_fb_hash_at (rewards w) (bn - LATE_FINALIZE_WINDOW_K) = fb \<Longrightarrow> fb \<noteq> B256_ZERO \<Longrightarrow>
      pending_fb_hash_at (rewards w') (bn - LATE_FINALIZE_WINDOW_K) = B256_ZERO \<and> fee_settled (rewards w') fb"
proof -
  from assms(1) obtain env h pre ben w1 batches w2 where e: "env_block_number env = bn"
    and p: "run_finalization_and_slashing env pre (block_runtime_context_from_storage env ben pre True w) md w = Inr w1"
    and l: "run_late_finalize_credits env (block_runtime_context_from_storage env ben pre False w1) batches w1 = Inr w2"
    and u: "escrow_untouched (rewards w2) (rewards w')"
    by (cases rule: block_step.cases) auto
  note pk = parent_phase_keeps [OF p assms(2), unfolded context_number e]
  note lk = late_phase_keeps [OF l pk(1), unfolded context_number e]
  have same: "rewards_wf (rewards w')" "pending_fb_hash_at (rewards w') = pending_fb_hash_at (rewards w2)" "fee_settled (rewards w') = fee_settled (rewards w2)"
    using u lk(1) rewards_wf_cong [of "rewards w2" "rewards w'"] by (simp_all add: escrow_untouched_def same_windows_def)
  show "rewards_wf (rewards w')" by (rule same(1))
  show "n \<noteq> bn - 1 \<Longrightarrow> n \<noteq> bn - LATE_FINALIZE_WINDOW_K \<Longrightarrow> pending_fb_hash_at (rewards w') n = pending_fb_hash_at (rewards w) n"
    using pk(2) lk(2) same(2) by simp
  show "metadata_fingerprint_for_block (rewards w) (finalized_block_hash md) = B256_ZERO \<Longrightarrow>
      \<not> fee_settled (rewards w) (finalized_block_hash md) \<Longrightarrow> bn - 1 \<noteq> bn - LATE_FINALIZE_WINDOW_K \<Longrightarrow>
      pending_fb_hash_at (rewards w') (bn - 1) = finalized_block_hash md \<and> finalized_block_hash md \<noteq> B256_ZERO"
    using parent_phase_escrows [OF p, unfolded context_number e] lk(2) same(2) by simp
  show "LATE_FINALIZE_WINDOW_K < bn \<Longrightarrow> bn - 1 \<noteq> bn - LATE_FINALIZE_WINDOW_K \<Longrightarrow>
      pending_fb_hash_at (rewards w) (bn - LATE_FINALIZE_WINDOW_K) = fb \<Longrightarrow> fb \<noteq> B256_ZERO \<Longrightarrow>
      pending_fb_hash_at (rewards w') (bn - LATE_FINALIZE_WINDOW_K) = B256_ZERO \<and> fee_settled (rewards w') fb"
    using pk(2) [of "bn - LATE_FINALIZE_WINDOW_K"] lk(3) [of fb] same by simp
qed

text \<open>
  C3. No fee stays in escrow. The first time a block accounts a parent, the parent's fees are
  escrowed; after the \<open>LATE_FINALIZE_WINDOW_K = 3\<close> blocks from that one on have executed, whatever the metadata, late credits and
  other transactions in them, the parent's window is closed: it is marked settled, nothing is
  pending under its hash, no voter is left in its credit list, and its number is free in the escrow index.
\<close>

theorem escrow_settles:
  fixes w :: "'a system_world_scheme"
  assumes "block_run (n + 1) (md # mds) w w'" "length (md # mds) = unat LATE_FINALIZE_WINDOW_K"
    and "rewards_wf (rewards w)" "unat n + 3 < 2 ^ 64" "n \<noteq> 0"
    and "metadata_fingerprint_for_block (rewards w) (finalized_block_hash md) = B256_ZERO" "\<not> fee_settled (rewards w) (finalized_block_hash md)"
  shows "fee_settled (rewards w') (finalized_block_hash md) \<and> pending_fees (rewards w') (finalized_block_hash md) = 0 \<and>
    credited (rewards w') (finalized_block_hash md) = [] \<and> pending_fb_hash_at (rewards w') n = B256_ZERO"
proof -
  let ?fb = "finalized_block_hash md"
  have k: "LATE_FINALIZE_WINDOW_K = 3" by (simp add: LATE_FINALIZE_WINDOW_K_def)
  have "length mds = 2" using assms(2) by (simp add: k)
  then obtain m2 m3 where mds: "mds = [m2, m3]" by (auto simp: length_Suc_conv eval_nat_numeral)
  have eq: "n + 1 + 1 = n + 2" "n + 2 + 1 = n + 3" by simp_all
  obtain w1 w2 where s1: "block_step (n + 1) md w w1" and s2: "block_step (n + 2) m2 w1 w2" and s3: "block_step (n + 3) m3 w2 w'"
    using assms(1) unfolding mds block_run_simps eq by blast
  note b1 = block_step_keeps [OF s1 assms(3)]
  note b2 = block_step_keeps [OF s2 b1(1)]
  note b3 = block_step_keeps [OF s3 b2(1)]
  have "pending_fb_hash_at (rewards w1) n = ?fb" and nz: "?fb \<noteq> B256_ZERO"
    using b1(3) [OF assms(6,7)] by (simp_all add: k)
  then have h2: "pending_fb_hash_at (rewards w2) n = ?fb" using b2(2) [of n] by (simp add: k)
  have "(3 :: u64) < n + 3"
    using assms(4,5) unat_add_exact [of n 3] by (simp add: word_less_nat_alt unat_gt_0)
  then have "pending_fb_hash_at (rewards w') n = B256_ZERO \<and> fee_settled (rewards w') ?fb"
    using b3(4) [of ?fb] h2 nz by (simp add: k)
  then show ?thesis using b3(1) by (auto simp: rewards_wf_def window_wf_def)
qed

definition parent_md :: "u8 \<Rightarrow> u64 \<Rightarrow> certified_parent_metadata" where
  "parent_md h n = vrf_metadata\<lparr>finalized_block_number := n, finalized_block_hash := replicate 32 h\<rparr>"

definition parent_ctx :: "u256 \<Rightarrow> preloaded_context" where
  "parent_ctx fee = \<lparr>pre_proposer = 5, pre_finalized_summary = Some \<lparr>ap_validator_fee_sum = fee, ap_timestamp = 1709200000\<rparr>,
     pre_allow_boundary_proposer = False, pre_canonical_vrf_proof_hash = B256_ZERO\<rparr>"

definition system_demo :: system_world where
  "system_demo = \<lparr>balances = (\<lambda>_. 0)(REWARDS_ADDRESS := 5000), vset = vset slash_demo, stk = demo_staking, slash = demo_indicator,
     snapshots = empty_store, rewards = empty_rewards, metadosis = empty_metadosis, agent = agent_tributes, last_accounted_block_number = 4, tee = empty_registry\<rparr>"

definition env_at :: "u64 \<Rightarrow> exec_env" where "env_at n = slash_env\<lparr>env_block_number := n\<rparr>"

lemma demo_date_keys: "timestamp_to_date_key 1709200000 = 20240229" "previous_date_key 20240229 = 20240228"
  by code_simp+

lemma demo_is_validator: "is_validator (vset slash_demo) 5"
  by (simp add: slash_demo_def is_validator_def one_validator_def register_new_def Let_def emit_def write_consensus_pubkey_def empty_validator_set_def)

definition demo_block :: "u64 \<Rightarrow> u8 \<Rightarrow> u256 \<Rightarrow> system_world \<Rightarrow> system_world result" where
  "demo_block n h fee w =
     and_then (run_finalization_and_slashing (env_at n) (Some (parent_ctx fee))
       (block_runtime_context_from_storage (env_at n) 5 (Some (parent_ctx fee)) True w) (parent_md h (n - 1)) w) (\<lambda>w.
     run_late_finalize_credits (env_at n) (block_runtime_context_from_storage (env_at n) 5 (Some (parent_ctx fee)) False w) [] w)"

lemma demo_block_step:
  assumes "demo_block n h fee w = Inr w'"
  shows "block_step n (parent_md h (n - 1)) w w'"
proof -
  from assms obtain w1 where "run_finalization_and_slashing (env_at n) (Some (parent_ctx fee))
       (block_runtime_context_from_storage (env_at n) 5 (Some (parent_ctx fee)) True w) (parent_md h (n - 1)) w = Inr w1"
    "run_late_finalize_credits (env_at n) (block_runtime_context_from_storage (env_at n) 5 (Some (parent_ctx fee)) False w1) [] w1 = Inr w'"
    by (auto simp: demo_block_def and_then_eq_Inr)
  then show ?thesis
    by (intro block_step.block [where env = "env_at n" and pre = "Some (parent_ctx fee)" and beneficiary = 5 and batches = "[]" and ?w1.0 = w1 and ?w2.0 = w'])
      (simp_all add: env_at_def escrow_untouched_def same_windows_def same_days_def)
qed

lemmas demo_eval = demo_block_def run_finalization_and_slashing_def check_parent_target_def checked_sub_def parent_md_def vrf_metadata_def validate_finalized_metadata_def
  demo_is_validator parent_ctx_def Let_def check_and_record_metadata_fingerprint_def account_parent_def base_voters_def on_finalized_metadata_def
  init_last_settled_def demo_date_keys add_daily_fees_def checked_add_def escrow_block_fee_def record_late_credit_def count_participation_def observe_finalized_day_def
  prune_block_guards_def BLOCK_GUARD_RETAIN_def slash_window_proposers_def prune_slash_guards_def SLASH_GUARD_RETAIN_def record_phase1_progress_def
  saturating_sub_def B256_ZERO_def
  run_late_finalize_credits_def record_window_close_absentees_def window_close_credited_def LATE_FINALIZE_WINDOW_K_def settle_matured_def
  len_u32_def empty_store_def read_committee_snapshot_def

lemmas settle_eval = settle_window_def fixed_denominator_def saturating_mul_def checked_mul_def LATE_FINALIZE_W_MAX_def LATE_FINALIZE_DECAY_def
  pay_voter_def decay_weight_def transfer_balance_def free_window_def free_slot_def free_number_def stored_def recycle_residue_def upd_rewards_def REWARDS_ADDRESS_def

lemma demo_blocks_run:
  "is_ok (and_then (demo_block 6 1 1000 system_demo) (\<lambda>w. and_then (demo_block 7 2 0 w) (demo_block 8 3 0)))"
  by (simp add: system_demo_def demo_indicator_def empty_indicator_def empty_rewards_def demo_eval env_at_def settle_eval is_ok_def)

theorem escrow_settles_witness:
  "\<exists>w'. block_run 6 [parent_md 1 5, parent_md 2 6, parent_md 3 7] system_demo w' \<and>
    fee_settled (rewards w') (replicate 32 1) \<and> pending_fees (rewards w') (replicate 32 1) = 0 \<and>
    credited (rewards w') (replicate 32 1) = []"
proof -
  obtain w1 w2 w3 where b: "demo_block 6 1 1000 system_demo = Inr w1" "demo_block 7 2 0 w1 = Inr w2" "demo_block 8 3 0 w2 = Inr w3"
    using demo_blocks_run by (auto simp: is_ok_def and_then_def split: sum.splits)
  have "block_run 6 [parent_md 1 5, parent_md 2 6, parent_md 3 7] system_demo w3"
    using b [THEN demo_block_step] by (auto simp: block_run_simps)
  moreover have "rewards system_demo = empty_rewards" by (simp add: system_demo_def)
  moreover have "metadata_fingerprint_for_block empty_rewards h = B256_ZERO" "\<not> fee_settled empty_rewards h" for h
    by (simp_all add: empty_rewards_def)
  ultimately show ?thesis
    using escrow_settles [of 5 "parent_md 1 5" "[parent_md 2 6, parent_md 3 7]" system_demo w3] empty_rewards_wf
    by (auto simp: LATE_FINALIZE_WINDOW_K_def parent_md_def)
qed

end
