(* ===== verification/Spec2Isabelle.thy ===== *)
theory Spec2Isabelle
  imports Chain_Steps Certificate System_Tx Tee_Registry Slash_Properties Emission_Curve Begin_Block_Properties
begin

text \<open>
  Verification of the system layer of the outbe chain: the contracts and codecs every validator
  executes at the start of a block.

  \<^bold>\<open>The program.\<close> A block begins with system transactions. The first carries the certificate and
  the participation metadata of the parent block: the certificate is verified against a stored
  committee snapshot, the fees of the parent are put in escrow, and missed proposers are slashed.
  The second credits late votes, records and slashes the absentees of the window that closes, and settles its
  escrow. Further ones run the daily cycle, activate the committee of a DKG boundary, bootstrap the enclave
  registry and run the Oracle's slash window. The validator set, staking and slash contracts hold the
  state these transactions change; users reach the same contracts through precompiles.

  \<^bold>\<open>Conventions\<close> (\<open>Prelude\<close>, \<open>Byte_Codec\<close>, \<open>Storage_List\<close>). Integers keep their width as words, so
  arithmetic wraps as in release builds, and checked and saturating operations are written out. A fallible
  function returns a value of type \<open>result\<close>; \<open>and_then\<close> is the question mark operator and \<open>fold_res\<close> a
  loop that stops at the first error. Since a failing call is reverted as a whole, an error carries no state.
  Storage is a record per contract, a mapping is a function, an enumerable list is a
  counter with a mapping (\<open>stored\<close>). The worlds are extensible records: \<open>world\<close> (balances, validator set, staking),
  \<open>slash_world\<close> (slash indicator, snapshots), \<open>reward_world\<close> (rewards, Metadosis), \<open>agent_world\<close>,
  \<open>system_world\<close> (accounting progress, enclave registry); operations are polymorphic in the extension.
  Events are appended to lists. Hash functions, BLS and ECDSA, the commonware codecs and the
  transaction library are fields of parameter records (\<open>crypto\<close>, \<open>commonware\<close>, \<open>ecdsa\<close>, \<open>tx_lib\<close>); a signed
  transaction is what the library's accessors read of it, a legacy one with every field.

  \<^bold>\<open>Theories and sources\<close> (under \<^verbatim>\<open>src/crates\<close>).
  \<^item> \<open>P2p_Address\<close>: \<^verbatim>\<open>blockchain/primitives/src/consensus_p2p.rs\<close>. The decoder accepts exactly the
    encodings of valid addresses; the flow label and the scope of an IPv6 socket are not encoded.
  \<^item> \<open>Validator_Set\<close>, \<open>Validator_Registry\<close>, \<open>Validator_Lifecycle\<close>: \<^verbatim>\<open>system/validatorset\<close>. Registration,
    status changes, reshare activation, cleanup; the registry invariant through the locale
    \<open>registry_preserving\<close>; exact effects of activation and cleanup.
  \<^item> \<open>Staking\<close>, \<open>Staking_Invariants\<close>, \<open>Staking_Properties\<close>: \<^verbatim>\<open>system/staking\<close> and the balance operations of
    \<^verbatim>\<open>blockchain/primitives/src/storage/direct.rs\<close>. Stake, unbonding lists, claims, slashing; solvency,
    pointwise effects of every loop, and the whole effect of a claim and of the unbonding hook.
  \<^item> \<open>Chain_Steps\<close>: both contracts as one transition system; invariants of all reachable states and
    the lifecycle automaton (locale \<open>follows_lifecycle\<close>).
  \<^item> \<open>Committee_Snapshot\<close>, \<open>Committee_Properties\<close>: \<^verbatim>\<open>blockchain/consensus/src/proof/committee.rs\<close>,
    \<^verbatim>\<open>fingerprint.rs\<close>, \<^verbatim>\<open>late_finalize.rs\<close> and the snapshot store of the validator set. The store refines one cell per epoch
    residue; quorum intersection (locale \<open>byzantine_quorum\<close>); unambiguous hash buffers.
  \<^item> \<open>Certificate\<close>: \<^verbatim>\<open>blockchain/consensus/src/proof/{hybrid_wire,verifier}.rs\<close>. An accepted proof is sound:
    the signatures in its own bytes verify; and two accepted proofs of one membership share a voter outside
    any coalition below a third.
  \<^item> \<open>Consensus_Metadata\<close>, \<open>Block_Artifacts\<close>, \<open>Tee_Bootstrap\<close>, \<open>System_Tx\<close>: \<^verbatim>\<open>blockchain/primitives/src/{consensus_metadata,
    reshare_artifact,tee_bootstrap,system_tx}.rs\<close>. Round trips through the locale \<open>codec\<close>, with the one
    cap an encoder does not check; the block layout, the cursor over the system transactions and the canonical first one.
  \<^item> \<open>Tee_Registry\<close>: \<^verbatim>\<open>system/teeregistry\<close> and the bootstrap transaction; exactly when it succeeds, and that it is final.
  \<^item> \<open>Slash_Evidence\<close>, \<open>Slash_Indicator\<close>, \<open>Slash_Properties\<close>: \<^verbatim>\<open>system/slashindicator\<close>. Evidence is sound and used
    once; misses, felonies, guard retention; slashing keeps the chain invariants.
  \<^item> \<open>Utc_Time\<close>: \<^verbatim>\<open>blockchain/primitives/src/time.rs\<close>. Date keys and days correspond.
  \<^item> \<open>Metadosis\<close>: \<^verbatim>\<open>core/metadosis/src/{schema,state,constants,emission_sink}.rs\<close>, \<^verbatim>\<open>core/common/src/worldwideday.rs\<close>. Day limits
    keep the thirty newest dates.
  \<^item> \<open>Emission\<close>, \<open>Emission_Curve\<close>: \<^verbatim>\<open>system/emissionlimit\<close>. The split of the daily limit is exact, and the
    fixed-point curve is monotone and accurate.
  \<^item> \<open>Rewards\<close>, \<open>Rewards_Properties\<close>: \<^verbatim>\<open>system/rewards\<close>. The state invariant and the exact effect of a
    settlement.
  \<^item> \<open>Agent_Reward\<close>, \<open>Agent_Properties\<close>: \<^verbatim>\<open>core/agentreward\<close>. The capped distribution is exact, and claims are
    covered.
  \<^item> \<open>Begin_Block\<close>, \<open>Begin_Block_Properties\<close>: \<^verbatim>\<open>blockchain/evm/src/begin_block_precompile.rs\<close>, the parts of
    \<^verbatim>\<open>executor.rs\<close> it calls and \<^verbatim>\<open>system/accounting\<close>. Every escrow settles when its window closes; the
    locale \<open>extension_neutral\<close> is what the phases rely on of slashing.

  \<^bold>\<open>Bounds and fuel.\<close> Loops over storage lists run over the stored counter. The walks over linked
  unbonding lists are \<open>partial_function (option)\<close>, with \<open>NonTermination\<close> as the error of the surrounding call, and
  the staking theories prove that they return on every well-formed queue. The recursions of the varint writer, the
  executor cursor and the cleanup of day limits have termination proofs. The redistribution of the agent
  pools runs ten rounds as in the source; one round is proved enough. The Taylor series
  has the source's 32 terms. Numeric hypotheses (an amount below \<open>2 ^ 128\<close>, a timestamp in the dated range, counts below
  \<open>2 ^ 64\<close>) exclude only sizes no chain state reaches.

  \<^bold>\<open>Not modelled.\<close> The consensus actors, the DKG protocol and the hybrid signature scheme are concurrent code over the
  commonware library. The EVM executor beyond the system transactions, the engine stack, node, RPC,
  transaction pool and macros work on reth and revm types. The enclave client and the zero-knowledge verifiers are
  calls into libraries. The Oracle, Cycle and zero-fee modules, the daily run over all emission pools
  with its top-up of validators in gems, the daily Metadosis processing and the token contracts
  (Gratis, Promis, Gem, Intex, Nod, Credis, Tribute, Desis, Lysis, Fidelity and their factories) are
  contracts of their own that the modelled operations do not read; in \<open>Begin_Block\<close> the begin-block handler
  of Cycle and the slash window of the Oracle are arguments of the dispatch. Gas, metrics, logging,
  and the ABI encoding of precompile calls are left out everywhere.
\<close>

end
